(* ===== verification/AltFS_Prelude.thy ===== *)
theory AltFS_Prelude
  imports Main "HOL-Library.Word" "HOL-Library.Monad_Syntax"
begin

text \<open>
  The vocabulary shared by every component: C pointers, undefined behaviour, bytes and the
  little-endian fields kept in byte buffers, the \<open>for\<close> loop with \<open>break\<close> and \<open>return\<close>.

  An operation of the program is a function into an option: \<open>None\<close> is undefined
  behaviour (a NULL or dangling pointer is dereferenced, an array is indexed out of range),
  \<open>Some\<close> carries the C return value and the new state. An error the program reports is an
  ordinary return value.
\<close>

named_theorems mem_simps \<open>reads of a buffer or of the disk after a write\<close>
named_theorems run \<open>results of the operations where their preconditions hold\<close>

section \<open>C pointers\<close>

datatype 'a cptr = Null | Freed | Ptr 'a

fun deref :: "'a cptr \<Rightarrow> 'a option" where
  "deref (Ptr x) = Some x"
| "deref Null = None"
| "deref Freed = None"

lemma deref_eq_Some [simp]: "deref p = Some x \<longleftrightarrow> p = Ptr x"
  by (cases p) auto

text \<open>\<open>altfs_free_memory\<close> of \<open>header/common_includes.h\<close>: the caller's pointer is not reset, so
  it dangles afterwards; freeing a dangling pointer is undefined.\<close>

fun altfs_free_memory :: "'a cptr \<Rightarrow> 'a cptr option" where
  "altfs_free_memory Null = Some Null"
| "altfs_free_memory Freed = None"
| "altfs_free_memory (Ptr x) = Some Freed"

section \<open>C integers\<close>

text \<open>\<open>ssize_t\<close> is a signed 64-bit integer: \<open>to_ssize\<close> is the value of the low 64 bits read in
  two's complement. Division truncates towards zero.\<close>

definition to_ssize :: "int \<Rightarrow> int" where
  "to_ssize v = (v + 2 ^ 63) mod 2 ^ 64 - 2 ^ 63"

definition in_ssize :: "int \<Rightarrow> bool" where
  "in_ssize v \<longleftrightarrow> - (2 ^ 63) \<le> v \<and> v < 2 ^ 63"

lemma to_ssize_id [simp]: "in_ssize v \<Longrightarrow> to_ssize v = v"
  by (simp add: to_ssize_def in_ssize_def)

lemma in_ssize_to_ssize [simp]: "in_ssize (to_ssize v)"
proof -
  have "0 \<le> (v + 2 ^ 63) mod 2 ^ 64" and "(v + 2 ^ 63) mod 2 ^ 64 < (2 :: int) ^ 64"
    by simp_all
  then show ?thesis by (simp add: to_ssize_def in_ssize_def)
qed

lemma to_ssize_mod [simp]: "to_ssize (v mod 18446744073709551616) = to_ssize v"
  by (simp add: to_ssize_def mod_add_left_eq)

lemma to_ssize_0 [simp]: "to_ssize 0 = 0"
  by (simp add: to_ssize_def)

definition c_div :: "int \<Rightarrow> int \<Rightarrow> int" where
  "c_div a b = sgn a * sgn b * (\<bar>a\<bar> div \<bar>b\<bar>)"

definition c_mod :: "int \<Rightarrow> int \<Rightarrow> int" where
  "c_mod a b = a - b * c_div a b"

lemma c_div_nonneg [simp]: "0 \<le> a \<Longrightarrow> 0 \<le> b \<Longrightarrow> c_div a b = a div b"
  by (cases "a = 0"; cases "b = 0") (auto simp: c_div_def)

lemma c_mod_nonneg [simp]: "0 \<le> a \<Longrightarrow> 0 \<le> b \<Longrightarrow> c_mod a b = a mod b"
  by (simp add: c_mod_def minus_mult_div_eq_mod)

section \<open>Bytes and buffers\<close>

text \<open>A buffer gives the byte at every offset. The accesses of the model are within the bounds
  of the C array, or yield \<open>None\<close>.\<close>

type_synonym byte = "8 word"
type_synonym buf = "int \<Rightarrow> byte"

definition zero_buf :: buf where
  "zero_buf = (\<lambda>_. 0)"

lemma zero_buf_apply [simp]: "zero_buf i = 0"
  by (simp add: zero_buf_def)

text \<open>Little-endian unsigned fields of \<open>n\<close> bytes at offset \<open>p\<close>.\<close>

primrec get_le :: "nat \<Rightarrow> buf \<Rightarrow> int \<Rightarrow> int" where
  "get_le 0 b p = 0"
| "get_le (Suc n) b p = uint (b p) + 256 * get_le n b (p + 1)"

primrec put_le :: "nat \<Rightarrow> buf \<Rightarrow> int \<Rightarrow> int \<Rightarrow> buf" where
  "put_le 0 b p v = b"
| "put_le (Suc n) b p v = (put_le n b (p + 1) (v div 256))(p := word_of_int v)"

lemma get_le_cong:
  "(\<And>i. p \<le> i \<Longrightarrow> i < p + int n \<Longrightarrow> b i = b' i) \<Longrightarrow> get_le n b p = get_le n b' p"
  by (induction n arbitrary: p) auto

lemma put_le_other: "q < p \<or> p + int n \<le> q \<Longrightarrow> put_le n b p v q = b q"
  by (induction n arbitrary: p v) auto

lemma get_le_put_le_other [mem_simps]:
  "p + int n \<le> q \<or> q + int m \<le> p \<Longrightarrow> get_le m (put_le n b p v) q = get_le m b q"
  by (rule get_le_cong) (auto intro: put_le_other)

lemma get_le_put_le_same [mem_simps]: "get_le n (put_le n b p v) p = v mod 256 ^ n"
proof (induction n arbitrary: b p v)
  case 0
  then show ?case by simp
next
  case (Suc n)
  let ?b = "put_le n b (p + 1) (v div 256)"
  have "get_le n (?b(p := word_of_int v)) (p + 1) = get_le n ?b (p + 1)"
    by (rule get_le_cong) auto
  then have "get_le (Suc n) (put_le (Suc n) b p v) p = v mod 256 + 256 * (v div 256 mod 256 ^ n)"
    by (simp add: Suc.IH uint_word_of_int)
  also have "\<dots> = v mod (256 * 256 ^ n)"
    by (simp add: zmod_zmult2_eq)
  finally show ?case by (simp only: power_Suc)
qed

lemma get_le_range: "0 \<le> get_le n b p \<and> get_le n b p < 256 ^ n"
proof (induction n arbitrary: p)
  case 0
  then show ?case by simp
next
  case (Suc n)
  have "uint (b p) < 256" using uint_lt2p [of "b p"] by simp
  moreover have "0 \<le> uint (b p)" by simp
  moreover have "0 \<le> get_le n b (p + 1)" "get_le n b (p + 1) + 1 \<le> 256 ^ n"
    using Suc.IH [of "p + 1"] by linarith+
  ultimately show ?case by simp
qed

lemma get_le_zero_buf [simp]: "get_le n zero_buf p = 0"
  by (induction n arbitrary: p) simp_all

text \<open>The part of a buffer within a block of \<open>4096\<close> bytes, and \<open>memcpy\<close> between buffers.\<close>

definition clip :: "buf \<Rightarrow> buf" where
  "clip b = (\<lambda>i. if 0 \<le> i \<and> i < 4096 then b i else 0)"

definition is_block :: "buf \<Rightarrow> bool" where
  "is_block b \<longleftrightarrow> (\<forall>i. \<not> (0 \<le> i \<and> i < 4096) \<longrightarrow> b i = 0)"

lemma clip_id [simp]: "is_block b \<Longrightarrow> clip b = b"
  by (auto simp: clip_def is_block_def fun_eq_iff)

lemma is_block_clip [simp]: "is_block (clip b)"
  by (simp add: clip_def is_block_def)

lemma is_block_zero [simp]: "is_block zero_buf"
  "is_block (\<lambda>_. 0)"
  by (simp_all add: is_block_def)

lemma is_block_put_le [simp]:
  "is_block b \<Longrightarrow> 0 \<le> p \<Longrightarrow> p + int n \<le> 4096 \<Longrightarrow> is_block (put_le n b p v)"
  by (induction n arbitrary: p v) (auto simp: is_block_def)

lemma get_le_clip [mem_simps]:
  "0 \<le> p \<Longrightarrow> p + int n \<le> 4096 \<Longrightarrow> get_le n (clip b) p = get_le n b p"
  by (rule get_le_cong) (simp add: clip_def)

definition memcpy :: "buf \<Rightarrow> int \<Rightarrow> buf \<Rightarrow> int \<Rightarrow> int \<Rightarrow> buf" where
  "memcpy d p src q n = (\<lambda>i. if p \<le> i \<and> i < p + n then src (q + (i - p)) else d i)"

section \<open>Loops\<close>

text \<open>What the body of a loop does: go on, leave the loop, or return from the function.\<close>

datatype ('s, 'r) ctl = Next 's | Break 's | Return 'r 's

text \<open>\<open>for (i = lo; i < hi; i++) body\<close>. The result is \<open>Next s\<close> where control falls out of the
  loop in state \<open>s\<close>, and \<open>Return r s\<close> where the body returns.\<close>

function for_loop ::
  "int \<Rightarrow> int \<Rightarrow> (int \<Rightarrow> 's \<Rightarrow> ('s, 'r) ctl option) \<Rightarrow> 's \<Rightarrow> ('s, 'r) ctl option" where
  "for_loop i hi body s =
     (if i < hi then
        (case body i s of
           None \<Rightarrow> None
         | Some (Next s') \<Rightarrow> for_loop (i + 1) hi body s'
         | Some (Break s') \<Rightarrow> Some (Next s')
         | Some (Return r s') \<Rightarrow> Some (Return r s'))
      else Some (Next s))"
  by pat_completeness auto
termination
  by (relation "measure (\<lambda>(i, hi, body, s). nat (hi - i))") auto

declare for_loop.simps [simp del]

lemma for_loop_done [simp]: "hi \<le> i \<Longrightarrow> for_loop i hi body s = Some (Next s)"
  by (subst for_loop.simps) simp

lemma for_loop_step:
  "i < hi \<Longrightarrow> for_loop i hi body s =
     (case body i s of
        None \<Rightarrow> None
      | Some (Next s') \<Rightarrow> for_loop (i + 1) hi body s'
      | Some (Break s') \<Rightarrow> Some (Next s')
      | Some (Return r s') \<Rightarrow> Some (Return r s'))"
  by (subst for_loop.simps) simp

text \<open>A function that ends with a loop: \<open>r\<close> is what it returns after the loop.\<close>

fun finish :: "'r \<Rightarrow> ('s, 'r) ctl \<Rightarrow> 'r \<times> 's" where
  "finish r (Next s) = (r, s)"
| "finish r (Break s) = (r, s)"
| "finish r (Return r' s) = (r', s)"

text \<open>Total correctness of a loop: with an invariant the body keeps, the loop is defined and
  ends in one of the three ways.\<close>

lemma for_loop_rule:
  assumes "I lo s" and "lo \<le> hi"
    and body: "\<And>i s. lo \<le> i \<Longrightarrow> i < hi \<Longrightarrow> I i s \<Longrightarrow>
          (\<exists>s'. body i s = Some (Next s') \<and> I (i + 1) s')
        \<or> (\<exists>s'. body i s = Some (Break s') \<and> Q s')
        \<or> (\<exists>r s'. body i s = Some (Return r s') \<and> R r s')"
    and exit: "\<And>s. I hi s \<Longrightarrow> Q s"
  shows "(\<exists>s'. for_loop lo hi body s = Some (Next s') \<and> Q s')
       \<or> (\<exists>r s'. for_loop lo hi body s = Some (Return r s') \<and> R r s')"
  using assms(1,2) body exit
proof (induction lo hi body s rule: for_loop.induct)
  case (1 i hi body s)
  show ?case
  proof (cases "i < hi")
    case True
    then consider (nxt) s' where "body i s = Some (Next s')" "I (i + 1) s'"
      | (brk) s' where "body i s = Some (Break s')" "Q s'"
      | (ret) r s' where "body i s = Some (Return r s')" "R r s'"
      using "1.prems"(3) [of i s] "1.prems"(1) by blast
    then show ?thesis
    proof cases
      case nxt
      have "(\<exists>s''. for_loop (i + 1) hi body s' = Some (Next s'') \<and> Q s'')
          \<or> (\<exists>r s''. for_loop (i + 1) hi body s' = Some (Return r s'') \<and> R r s'')"
        using True nxt "1.prems"(3,4) by (intro "1.IH") auto
      then show ?thesis using True nxt by (simp add: for_loop_step)
    qed (use True in \<open>auto simp: for_loop_step\<close>)
  next
    case False
    with "1.prems" have "i = hi" by simp
    with "1.prems"(1,4) show ?thesis by simp
  qed
qed

text \<open>A loop whose body neither breaks nor returns.\<close>

lemma for_loop_all:
  assumes "I lo s" and "lo \<le> hi"
    and "\<And>i s. lo \<le> i \<Longrightarrow> i < hi \<Longrightarrow> I i s \<Longrightarrow> \<exists>s'. body i s = Some (Next s') \<and> I (i + 1) s'"
  shows "\<exists>s'. for_loop lo hi body s = Some (Next s') \<and> I hi s'"
  using for_loop_rule [where I = I and lo = lo and s = s and hi = hi and body = body
      and Q = "I hi" and R = "\<lambda>_ _. False"] assms by blast

lemma for_loop_skip:
  assumes "lo \<le> k" "k \<le> hi" and "\<And>i. lo \<le> i \<Longrightarrow> i < k \<Longrightarrow> body i s = Some (Next s)"
  shows "for_loop lo hi body s = for_loop k hi body s"
  using assms
proof (induction "nat (k - lo)" arbitrary: lo)
  case 0
  then show ?case by simp
next
  case (Suc n)
  then have "lo < k" by simp
  then have "for_loop lo hi body s = for_loop (lo + 1) hi body s"
    using Suc.prems by (subst for_loop_step) auto
  also have "\<dots> = for_loop k hi body s"
    using Suc \<open>lo < k\<close> by (intro Suc.hyps(1)) auto
  finally show ?case .
qed

lemma for_loop_split:
  assumes "lo \<le> mid" "mid \<le> hi" "for_loop lo mid body s = Some (Next s')"
    and "\<And>i x y. body i x \<noteq> Some (Break y)"
  shows "for_loop lo hi body s = for_loop mid hi body s'"
  using assms(1,3)
proof (induction "nat (mid - lo)" arbitrary: lo s)
  case 0
  then show ?case by simp
next
  case (Suc n)
  then have lt: "lo < mid" by simp
  then obtain s1 where s1: "body lo s = Some (Next s1)" "for_loop (lo + 1) mid body s1 = Some (Next s')"
    using Suc.prems(2) assms(4) by (auto simp: for_loop_step split: option.splits ctl.splits)
  have "for_loop (lo + 1) hi body s1 = for_loop mid hi body s'"
    using Suc.hyps(2) lt s1(2) by (intro Suc.hyps(1)) auto
  then show ?case using lt assms(2) s1(1) by (simp add: for_loop_step)
qed

text \<open>One more element of a range that has the property so far.\<close>

lemma range_step:
  fixes i :: int
  assumes "\<forall>k. m \<le> k \<and> k < i \<longrightarrow> P k" and "P i"
  shows "\<forall>k. m \<le> k \<and> k < i + 1 \<longrightarrow> P k"
proof (intro allI impI)
  fix k assume "m \<le> k \<and> k < i + 1"
  then show "P k" using assms by (cases "k = i") auto
qed

section \<open>Monadic plumbing\<close>

lemmas bind_simps = Option.bind_eq_Some_conv

lemma bind_SomeE:
  assumes "Option.bind m f = Some y"
  obtains x where "m = Some x" and "f x = Some y"
  using assms by (auto simp: Option.bind_eq_Some_conv)

end
