(* ===== verification/Disk_Layer.thy ===== *)
theory Disk_Layer
  imports AltFS_Prelude
begin

text \<open>
  \<open>src/disk_layer.c\<close> with \<open>header/disk_layer.h\<close>, as built without \<open>DISK_MEMORY\<close>: the disk is
  one region of \<open>FS_SIZE\<close> bytes obtained from \<open>calloc\<close>, and blocks are copied in and out of it.
  The second half gives the abstract view the other components use: \<open>disk_block s n\<close> is the
  contents of block \<open>n\<close> and \<open>upd_block s n b\<close> the state after writing it.
\<close>

section \<open>The state of the file system\<close>

text \<open>\<open>struct superblock\<close> of \<open>header/superblock_layer.h\<close>.\<close>

record superblock =
  s_inodes_count :: int
  s_first_ino :: int
  s_freelist_head :: int
  s_num_of_inodes_per_block :: int

text \<open>The static variables of the program: \<open>mem_ptr\<close> (\<open>src/disk_layer.c\<close>) with the bytes it points
  to and \<open>altfs_superblock\<close> (\<open>header/superblock_layer.h\<close>). \<open>FS_SIZE\<close> is the compile-time
  constant of \<open>header/disk_layer.h\<close>; it is a component of the state that no operation changes, so
  that every theorem holds for every configured size.\<close>

record altfs =
  FS_SIZE :: int
  mem_ptr :: "buf cptr"
  altfs_superblock :: "superblock cptr"

definition BLOCK_SIZE :: int where
  [simp]: "BLOCK_SIZE = 4096"

definition BLOCK_COUNT :: "altfs \<Rightarrow> int" where
  "BLOCK_COUNT s = FS_SIZE s div BLOCK_SIZE"

text \<open>The size the unit tests use: \<open>104857600 * 5\<close>.\<close>

definition DEFAULT_FS_SIZE :: int where
  "DEFAULT_FS_SIZE = 104857600 * 5"

section \<open>The operations\<close>

text \<open>\<open>calloc_ok\<close> says whether \<open>calloc\<close> found the memory.\<close>

definition altfs_alloc_memory :: "bool \<Rightarrow> bool \<Rightarrow> altfs \<Rightarrow> bool \<times> altfs" where
  "altfs_alloc_memory calloc_ok erase s =
     (if calloc_ok then (True, s\<lparr>mem_ptr := Ptr zero_buf\<rparr>)
      else (False, s\<lparr>mem_ptr := Null\<rparr>))"

definition altfs_open_volume :: "altfs \<Rightarrow> bool" where
  "altfs_open_volume s = True"

fun altfs_dealloc_memory :: "altfs \<Rightarrow> (bool \<times> altfs) option" where
  "altfs_dealloc_memory s =
     (case mem_ptr s of
        Ptr m \<Rightarrow> Some (True, s\<lparr>mem_ptr := Freed\<rparr>)
      | Freed \<Rightarrow> None
      | Null \<Rightarrow> Some (False, s))"

definition isBlockOutOfRange :: "int \<Rightarrow> altfs \<Rightarrow> bool" where
  "isBlockOutOfRange blockid s \<longleftrightarrow> blockid < 0 \<or> blockid \<ge> BLOCK_COUNT s"

text \<open>The \<open>memcpy\<close> touches \<open>BLOCK_SIZE\<close> bytes at \<open>mem_ptr + offset\<close>; outside of the region this
  is undefined.\<close>

definition in_region :: "int \<Rightarrow> altfs \<Rightarrow> bool" where
  "in_region offset s \<longleftrightarrow> 0 \<le> offset \<and> offset + BLOCK_SIZE \<le> FS_SIZE s"

text \<open>The buffer is an in-out argument, \<open>None\<close> for a NULL pointer: the result is the returned
  flag and what the buffer holds afterwards.\<close>

definition altfs_read_block :: "int \<Rightarrow> buf option \<Rightarrow> altfs \<Rightarrow> (bool \<times> buf option) option" where
  "altfs_read_block blockid buffer s =
     (case buffer of
        None \<Rightarrow> Some (False, None)
      | Some b \<Rightarrow>
          if isBlockOutOfRange blockid s then Some (False, Some b)
          else do {
            m \<leftarrow> deref (mem_ptr s);
            let offset = blockid * BLOCK_SIZE;
            if in_region offset s then Some (True, Some (clip (memcpy b 0 m offset BLOCK_SIZE)))
            else None
          })"

definition altfs_write_block :: "int \<Rightarrow> buf option \<Rightarrow> altfs \<Rightarrow> (bool \<times> altfs) option" where
  "altfs_write_block blockid buffer s =
     (case buffer of
        None \<Rightarrow> Some (False, s)
      | Some b \<Rightarrow>
          if isBlockOutOfRange blockid s then Some (False, s)
          else do {
            m \<leftarrow> deref (mem_ptr s);
            let offset = BLOCK_SIZE * blockid;
            if in_region offset s then Some (True, s\<lparr>mem_ptr := Ptr (memcpy m offset b 0 BLOCK_SIZE)\<rparr>)
            else None
          })"

section \<open>The disk as an array of blocks\<close>

definition disk_block :: "altfs \<Rightarrow> int \<Rightarrow> buf" where
  "disk_block s n =
     (case mem_ptr s of Ptr m \<Rightarrow> clip (\<lambda>i. m (4096 * n + i)) | _ \<Rightarrow> zero_buf)"

definition upd_block :: "altfs \<Rightarrow> int \<Rightarrow> buf \<Rightarrow> altfs" where
  "upd_block s n b =
     (case mem_ptr s of Ptr m \<Rightarrow> s\<lparr>mem_ptr := Ptr (memcpy m (4096 * n) b 0 4096)\<rparr> | _ \<Rightarrow> s)"

text \<open>A mounted disk: the region is there and \<open>ssize_t\<close> holds its size.\<close>

definition mounted :: "altfs \<Rightarrow> bool" where
  "mounted s \<longleftrightarrow> (\<exists>m. mem_ptr s = Ptr m) \<and> 0 \<le> FS_SIZE s \<and> in_ssize (FS_SIZE s)"

definition valid_block :: "altfs \<Rightarrow> int \<Rightarrow> bool" where
  "valid_block s n \<longleftrightarrow> 0 \<le> n \<and> n < BLOCK_COUNT s"

lemma is_block_disk_block [simp]: "is_block (disk_block s n)"
  by (simp add: disk_block_def split: cptr.split)

lemma memcpy_same_clip: "clip (\<lambda>i. memcpy m (4096 * n) b 0 4096 (4096 * n + i)) = clip b"
  by (auto simp: memcpy_def clip_def fun_eq_iff)

lemma memcpy_other_clip:
  assumes "k \<noteq> n"
  shows "clip (\<lambda>i. memcpy m (4096 * n) b 0 4096 (4096 * k + i)) = clip (\<lambda>i. m (4096 * k + i))"
proof -
  have "memcpy m (4096 * n) b 0 4096 (4096 * k + i) = m (4096 * k + i)" if "0 \<le> i" "i < 4096" for i
  proof -
    have "\<not> (4096 * n \<le> 4096 * k + i \<and> 4096 * k + i < 4096 * n + 4096)"
      using that assms by (cases "k < n") linarith+
    then show ?thesis by (simp only: memcpy_def if_False)
  qed
  then show ?thesis by (auto simp: clip_def)
qed

lemma disk_block_upd_block [mem_simps]:
  "mounted s \<Longrightarrow> disk_block (upd_block s n b) k = (if k = n then clip b else disk_block s k)"
  by (auto simp add: mounted_def disk_block_def upd_block_def memcpy_same_clip memcpy_other_clip
      simp del: clip_id)

lemma upd_block_fields [simp]:
  "FS_SIZE (upd_block s n b) = FS_SIZE s"
  "altfs_superblock (upd_block s n b) = altfs_superblock s"
  "mounted (upd_block s n b) = mounted s"
  "BLOCK_COUNT (upd_block s n b) = BLOCK_COUNT s"
  "valid_block (upd_block s n b) k = valid_block s k"
  by (simp_all add: upd_block_def mounted_def BLOCK_COUNT_def valid_block_def split: cptr.split)

lemma superblock_update_fields [simp]:
  "disk_block (s\<lparr>altfs_superblock := p\<rparr>) = disk_block s"
  "mounted (s\<lparr>altfs_superblock := p\<rparr>) = mounted s"
  "BLOCK_COUNT (s\<lparr>altfs_superblock := p\<rparr>) = BLOCK_COUNT s"
  "valid_block (s\<lparr>altfs_superblock := p\<rparr>) k = valid_block s k"
  by (simp_all add: disk_block_def mounted_def BLOCK_COUNT_def valid_block_def fun_eq_iff)

lemma valid_block_in_region:
  assumes "valid_block s n"
  shows "in_region (4096 * n) s"
proof -
  have "n + 1 \<le> FS_SIZE s div 4096" "0 \<le> n"
    using assms by (auto simp: valid_block_def BLOCK_COUNT_def)
  then have "4096 * (n + 1) \<le> 4096 * (FS_SIZE s div 4096)" by simp
  also have "\<dots> \<le> FS_SIZE s" by simp
  finally show ?thesis using \<open>0 \<le> n\<close> by (simp add: in_region_def)
qed

lemma read_block_run [run]:
  "mounted s \<Longrightarrow> valid_block s n \<Longrightarrow>
   altfs_read_block n (Some b) s = Some (True, Some (disk_block s n))"
  using valid_block_in_region [of s n]
  by (auto simp: altfs_read_block_def isBlockOutOfRange_def valid_block_def mounted_def
      disk_block_def mult.commute clip_def memcpy_def fun_eq_iff)

lemma read_block_invalid [run]:
  "\<not> valid_block s n \<Longrightarrow> altfs_read_block n (Some b) s = Some (False, Some b)"
  by (auto simp: altfs_read_block_def isBlockOutOfRange_def valid_block_def)

lemma write_block_run [run]:
  "mounted s \<Longrightarrow> valid_block s n \<Longrightarrow> altfs_write_block n (Some b) s = Some (True, upd_block s n b)"
  using valid_block_in_region [of s n]
  by (auto simp: altfs_write_block_def isBlockOutOfRange_def valid_block_def mounted_def upd_block_def)

lemma write_block_invalid [run]:
  "\<not> valid_block s n \<Longrightarrow> altfs_write_block n (Some b) s = Some (False, s)"
  by (auto simp: altfs_write_block_def isBlockOutOfRange_def valid_block_def)

lemma write_block_total:
  "mounted s \<Longrightarrow>
   altfs_write_block n (Some b) s = Some (valid_block s n, if valid_block s n then upd_block s n b else s)"
  by (simp add: run)

lemma valid_block_offset_in_ssize:
  assumes "mounted s" "valid_block s n"
  shows "in_ssize (n * BLOCK_SIZE)" "in_ssize n"
proof -
  have "4096 * n + 4096 \<le> FS_SIZE s" "0 \<le> n"
    using valid_block_in_region [OF assms(2)] by (simp_all add: in_region_def)
  then show "in_ssize (n * BLOCK_SIZE)" "in_ssize n"
    using assms(1) by (auto simp: mounted_def in_ssize_def)
qed


section \<open>What an operation leaves alone\<close>

text \<open>\<open>only_changes A s t\<close>: from \<open>s\<close> to \<open>t\<close> no block outside of \<open>A\<close> changed its contents, and the
  region is as it was.\<close>

definition only_changes :: "int set \<Rightarrow> altfs \<Rightarrow> altfs \<Rightarrow> bool" where
  "only_changes A s t \<longleftrightarrow> FS_SIZE t = FS_SIZE s \<and> mounted t = mounted s \<and>
     (\<forall>n. n \<notin> A \<longrightarrow> disk_block t n = disk_block s n)"

lemma only_changes_refl [simp]: "only_changes A s s"
  by (simp add: only_changes_def)

lemma only_changes_trans:
  "only_changes A s t \<Longrightarrow> only_changes B t u \<Longrightarrow> only_changes (A \<union> B) s u"
  by (simp add: only_changes_def)

lemma only_changes_trans_same:
  "only_changes A s t \<Longrightarrow> only_changes A t u \<Longrightarrow> only_changes A s u"
  by (simp add: only_changes_def)

lemma only_changes_mono: "only_changes A s t \<Longrightarrow> A \<subseteq> B \<Longrightarrow> only_changes B s t"
  by (auto simp: only_changes_def)

lemma only_changes_upd: "mounted s \<Longrightarrow> n \<in> A \<Longrightarrow> only_changes A s (upd_block s n b)"
  by (auto simp: only_changes_def mem_simps)

lemma only_changes_superblock [simp]: "only_changes A s (s\<lparr>altfs_superblock := p\<rparr>)"
  by (simp add: only_changes_def)

lemma only_changes_block: "only_changes A s t \<Longrightarrow> n \<notin> A \<Longrightarrow> disk_block t n = disk_block s n"
  by (simp add: only_changes_def)

lemma only_changes_mounted: "only_changes A s t \<Longrightarrow> mounted t = mounted s"
  by (simp add: only_changes_def)

lemma only_changes_valid_block: "only_changes A s t \<Longrightarrow> valid_block t n = valid_block s n"
  by (simp add: only_changes_def valid_block_def BLOCK_COUNT_def)

end
