(* ===== verification/Block_Layout.thy ===== *)
theory Block_Layout
  imports Disk_Layer
begin

text \<open>
  How the program lays typed data out in a block: arrays of \<open>ssize_t\<close> addresses (free-list and
  indirect blocks), the superblock at the start of block 0, and arrays of \<open>struct inode\<close>.
  The layout is the one of the x86-64 ABI: a field is aligned to its size, \<open>mode_t\<close> and \<open>id_t\<close>
  have 4 bytes, \<open>bool\<close> and \<open>char\<close> one, all others 8. The locale \<open>cell_array\<close> is the contract
  of such an array; its lemmas on reading a cell back from the disk serve the free list, the
  indirect blocks and the inode table.
\<close>

section \<open>Arrays of cells\<close>

locale cell_array =
  fixes get :: "buf \<Rightarrow> int \<Rightarrow> 'v"
    and put :: "buf \<Rightarrow> int \<Rightarrow> 'v \<Rightarrow> buf"
    and cells :: int
    and ok :: "'v \<Rightarrow> bool"
  assumes get_put_same: "0 \<le> i \<Longrightarrow> i < cells \<Longrightarrow> ok v \<Longrightarrow> get (put b i v) i = v"
    and get_put_other:
      "0 \<le> i \<Longrightarrow> i < cells \<Longrightarrow> 0 \<le> j \<Longrightarrow> j < cells \<Longrightarrow> i \<noteq> j \<Longrightarrow> ok v \<Longrightarrow>
       get (put b i v) j = get b j"
    and is_block_put: "is_block b \<Longrightarrow> 0 \<le> i \<Longrightarrow> i < cells \<Longrightarrow> ok v \<Longrightarrow> is_block (put b i v)"
    and get_clip: "0 \<le> i \<Longrightarrow> i < cells \<Longrightarrow> get (clip b) i = get b i"
begin

lemma get_put:
  assumes "0 \<le> i" "i < cells" "0 \<le> j" "j < cells" "ok v"
  shows "get (put b i v) j = (if j = i then v else get b j)"
  using assms get_put_same get_put_other by auto

text \<open>Reading a cell after the block that holds one of them was read, changed and written back.\<close>

lemma get_disk_put:
  assumes "mounted s" "0 \<le> i" "i < cells" "0 \<le> j" "j < cells" "ok v"
  shows "get (disk_block (upd_block s n (put (disk_block s n) i v)) m) j
       = (if m = n \<and> j = i then v else get (disk_block s m) j)"
  using assms by (auto simp: disk_block_upd_block is_block_put get_put)

lemma get_disk_upd:
  assumes "mounted s" "0 \<le> j" "j < cells"
  shows "get (disk_block (upd_block s n b) m) j = (if m = n then get b j else get (disk_block s m) j)"
  using assms by (auto simp: disk_block_upd_block get_clip)

lemma put_put_get:
  assumes "0 \<le> i" "i < cells" "0 \<le> j" "j < cells" "i \<noteq> j" "ok v" "ok w" "0 \<le> k" "k < cells"
  shows "get (put (put b i v) j w) k = get (put (put b j w) i v) k"
  using assms by (auto simp: get_put)

end

section \<open>Addresses\<close>

text \<open>\<open>((ssize_t* )buffer)[i]\<close>.\<close>

definition addr_at :: "buf \<Rightarrow> int \<Rightarrow> int" where
  "addr_at b i = to_ssize (get_le 8 b (8 * i))"

definition set_addr :: "buf \<Rightarrow> int \<Rightarrow> int \<Rightarrow> buf" where
  "set_addr b i v = put_le 8 b (8 * i) v"

definition ADDRESS_SIZE :: int where
  [simp]: "ADDRESS_SIZE = 8"

definition NUM_OF_ADDRESSES_PER_BLOCK :: int where
  [simp]: "NUM_OF_ADDRESSES_PER_BLOCK = BLOCK_SIZE div ADDRESS_SIZE"

text \<open>Array accesses with a computed index; outside of the block they are undefined.\<close>

definition arr_get :: "buf \<Rightarrow> int \<Rightarrow> int option" where
  "arr_get b i = (if 0 \<le> i \<and> i < 512 then Some (addr_at b i) else None)"

definition arr_set :: "buf \<Rightarrow> int \<Rightarrow> int \<Rightarrow> buf option" where
  "arr_set b i v = (if 0 \<le> i \<and> i < 512 then Some (set_addr b i v) else None)"

interpretation addr: cell_array addr_at set_addr 512 in_ssize
proof unfold_locales
  fix i j v and b :: buf
  assume "0 \<le> i" "i < 512" "0 \<le> j" "j < 512" "i \<noteq> (j :: int)"
  moreover from this have "8 * i + 8 \<le> 8 * j \<or> 8 * j + 8 \<le> 8 * i" by linarith
  ultimately show "addr_at (set_addr b i v) j = addr_at b j"
    by (simp add: addr_at_def set_addr_def get_le_put_le_other)
qed (simp_all add: addr_at_def set_addr_def mem_simps)

lemmas addr_simps [mem_simps] = addr.get_put addr.get_disk_upd

lemma addr_at_zero_buf [simp]: "addr_at zero_buf i = 0"
  by (simp add: addr_at_def)

lemma in_ssize_addr_at [simp]: "in_ssize (addr_at b i)"
  by (simp add: addr_at_def)

lemma is_block_set_addr [simp]: "is_block b \<Longrightarrow> 0 \<le> i \<Longrightarrow> i < 512 \<Longrightarrow> is_block (set_addr b i v)"
  by (simp add: set_addr_def)

lemma in_ssize_0 [simp]: "in_ssize 0"
  by (simp add: in_ssize_def)

lemma in_ssize_valid_block: "mounted s \<Longrightarrow> valid_block s n \<Longrightarrow> in_ssize n"
  by (rule valid_block_offset_in_ssize)

section \<open>The superblock\<close>

definition put_superblock :: "buf \<Rightarrow> superblock \<Rightarrow> buf" where
  "put_superblock b sb =
     set_addr (set_addr (set_addr (set_addr b 0 (s_inodes_count sb)) 1 (s_first_ino sb))
       2 (s_freelist_head sb)) 3 (s_num_of_inodes_per_block sb)"

definition get_superblock :: "buf \<Rightarrow> superblock" where
  "get_superblock b =
     \<lparr>s_inodes_count = addr_at b 0, s_first_ino = addr_at b 1, s_freelist_head = addr_at b 2,
      s_num_of_inodes_per_block = addr_at b 3\<rparr>"

definition superblock_ok :: "superblock \<Rightarrow> bool" where
  "superblock_ok sb \<longleftrightarrow> in_ssize (s_inodes_count sb) \<and> in_ssize (s_first_ino sb)
     \<and> in_ssize (s_freelist_head sb) \<and> in_ssize (s_num_of_inodes_per_block sb)"

lemma get_put_superblock [mem_simps]:
  "superblock_ok sb \<Longrightarrow> get_superblock (put_superblock b sb) = sb"
  by (simp add: get_superblock_def put_superblock_def superblock_ok_def addr.get_put)

lemma is_block_put_superblock [simp]: "is_block b \<Longrightarrow> is_block (put_superblock b sb)"
  by (simp add: put_superblock_def)

section \<open>The areas of the disk\<close>

text \<open>The constants of \<open>header/superblock_layer.h\<close>: block 0 holds the superblock, blocks 1 to
  \<open>INODE_BLOCK_COUNT\<close> the inodes, the rest is data. The code computes \<open>BLOCK_COUNT * 0.015\<close> in
  double precision and truncates; the double nearest to 0.015 has a relative error below
  \<open>2 ^ -54\<close>, so the product rounds to an integer exactly where \<open>15 * BLOCK_COUNT\<close> is a multiple of
  1000 and otherwise lies between the same two integers as the exact one (for every block count
  below \<open>2 ^ 40\<close>); this is the integer division below.\<close>

definition INODE_BLOCK_COUNT :: "altfs \<Rightarrow> int" where
  "INODE_BLOCK_COUNT s = BLOCK_COUNT s * 15 div 1000"

definition NUM_OF_DATA_BLOCKS :: "altfs \<Rightarrow> int" where
  "NUM_OF_DATA_BLOCKS s = BLOCK_COUNT s - INODE_BLOCK_COUNT s - 1"

definition NUM_OF_FREE_LIST_BLOCKS :: "altfs \<Rightarrow> int" where
  "NUM_OF_FREE_LIST_BLOCKS s = NUM_OF_DATA_BLOCKS s div NUM_OF_ADDRESSES_PER_BLOCK + 1"

definition data_block :: "altfs \<Rightarrow> int \<Rightarrow> bool" where
  "data_block s n \<longleftrightarrow> INODE_BLOCK_COUNT s < n \<and> n < BLOCK_COUNT s"

definition inode_block :: "altfs \<Rightarrow> int \<Rightarrow> bool" where
  "inode_block s n \<longleftrightarrow> 1 \<le> n \<and> n \<le> INODE_BLOCK_COUNT s"

definition geometry_ok :: "altfs \<Rightarrow> bool" where
  "geometry_ok s \<longleftrightarrow> in_ssize (FS_SIZE s) \<and> 1 \<le> INODE_BLOCK_COUNT s"

lemma geometry_upd [simp]:
  "INODE_BLOCK_COUNT (upd_block s n b) = INODE_BLOCK_COUNT s"
  "NUM_OF_DATA_BLOCKS (upd_block s n b) = NUM_OF_DATA_BLOCKS s"
  "NUM_OF_FREE_LIST_BLOCKS (upd_block s n b) = NUM_OF_FREE_LIST_BLOCKS s"
  "data_block (upd_block s n b) k = data_block s k"
  "inode_block (upd_block s n b) k = inode_block s k"
  "geometry_ok (upd_block s n b) = geometry_ok s"
  by (simp_all add: INODE_BLOCK_COUNT_def NUM_OF_DATA_BLOCKS_def NUM_OF_FREE_LIST_BLOCKS_def
      data_block_def inode_block_def geometry_ok_def)

lemma geometry_superblock_update [simp]:
  "INODE_BLOCK_COUNT (s\<lparr>altfs_superblock := p\<rparr>) = INODE_BLOCK_COUNT s"
  "NUM_OF_DATA_BLOCKS (s\<lparr>altfs_superblock := p\<rparr>) = NUM_OF_DATA_BLOCKS s"
  "NUM_OF_FREE_LIST_BLOCKS (s\<lparr>altfs_superblock := p\<rparr>) = NUM_OF_FREE_LIST_BLOCKS s"
  "data_block (s\<lparr>altfs_superblock := p\<rparr>) k = data_block s k"
  "inode_block (s\<lparr>altfs_superblock := p\<rparr>) k = inode_block s k"
  "geometry_ok (s\<lparr>altfs_superblock := p\<rparr>) = geometry_ok s"
  by (simp_all add: INODE_BLOCK_COUNT_def NUM_OF_DATA_BLOCKS_def NUM_OF_FREE_LIST_BLOCKS_def
      data_block_def inode_block_def geometry_ok_def)

lemma geometry_mem_ptr_update [simp]:
  "BLOCK_COUNT (s\<lparr>mem_ptr := q\<rparr>) = BLOCK_COUNT s"
  "INODE_BLOCK_COUNT (s\<lparr>mem_ptr := q\<rparr>) = INODE_BLOCK_COUNT s"
  "data_block (s\<lparr>mem_ptr := q\<rparr>) k = data_block s k"
  "inode_block (s\<lparr>mem_ptr := q\<rparr>) k = inode_block s k"
  "geometry_ok (s\<lparr>mem_ptr := q\<rparr>) = geometry_ok s"
  by (simp_all add: BLOCK_COUNT_def INODE_BLOCK_COUNT_def data_block_def inode_block_def geometry_ok_def)

lemma INODE_BLOCK_COUNT_nonneg: "0 \<le> FS_SIZE s \<Longrightarrow> 0 \<le> INODE_BLOCK_COUNT s"
  by (simp add: INODE_BLOCK_COUNT_def BLOCK_COUNT_def pos_imp_zdiv_nonneg_iff)

lemma geometry_bounds:
  assumes "geometry_ok s"
  shows "0 \<le> FS_SIZE s" "66 < BLOCK_COUNT s" "INODE_BLOCK_COUNT s + 1 < BLOCK_COUNT s"
proof -
  have "1 \<le> BLOCK_COUNT s * 15 div 1000"
    using assms by (simp add: geometry_ok_def INODE_BLOCK_COUNT_def)
  then show bc: "66 < BLOCK_COUNT s" by linarith
  then show "INODE_BLOCK_COUNT s + 1 < BLOCK_COUNT s"
    unfolding INODE_BLOCK_COUNT_def by linarith
  show "0 \<le> FS_SIZE s" using bc by (simp add: BLOCK_COUNT_def)
qed

lemma only_changes_geometry:
  assumes "only_changes A s t"
  shows "BLOCK_COUNT t = BLOCK_COUNT s" "INODE_BLOCK_COUNT t = INODE_BLOCK_COUNT s"
    "data_block t n = data_block s n" "inode_block t n = inode_block s n"
    "geometry_ok t = geometry_ok s" "valid_block t n = valid_block s n" "mounted t = mounted s"
    "FS_SIZE t = FS_SIZE s"
  using assms by (simp_all add: only_changes_def INODE_BLOCK_COUNT_def BLOCK_COUNT_def
      data_block_def inode_block_def geometry_ok_def valid_block_def)

lemma data_block_valid: "mounted s \<Longrightarrow> data_block s n \<Longrightarrow> valid_block s n \<and> 0 < n"
  using INODE_BLOCK_COUNT_nonneg [of s] by (auto simp: data_block_def valid_block_def mounted_def)

lemma inode_block_valid: "geometry_ok s \<Longrightarrow> inode_block s n \<Longrightarrow> valid_block s n"
  using geometry_bounds(3) [of s] by (auto simp: inode_block_def valid_block_def)

lemma data_block_not_inode: "data_block s n \<Longrightarrow> \<not> inode_block s n"
  by (auto simp: data_block_def inode_block_def)

section \<open>Inodes\<close>

text \<open>\<open>struct inode\<close> of \<open>header/superblock_layer.h\<close>.\<close>

record inode =
  i_mode :: int
  i_uid :: int
  i_gid :: int
  i_status_change_time :: int
  i_atime :: int
  i_ctime :: int
  i_mtime :: int
  i_links_count :: int
  i_file_size :: int
  i_blocks_num :: int
  i_allocated :: bool
  i_direct_blocks :: "int list"
  i_single_indirect :: int
  i_double_indirect :: int
  i_triple_indirect :: int
  i_child_num :: int
  i_padding :: int

text \<open>\<open>sizeof(struct inode)\<close>: the last field is the byte at offset 208, padded to a multiple of 8.\<close>

definition SIZEOF_INODE :: int where
  [simp]: "SIZEOF_INODE = 216"

definition NUM_OF_DIRECT_BLOCKS :: int where
  [simp]: "NUM_OF_DIRECT_BLOCKS = 12"

primrec get_list :: "nat \<Rightarrow> buf \<Rightarrow> int \<Rightarrow> int list" where
  "get_list 0 b p = []"
| "get_list (Suc n) b p = to_ssize (get_le 8 b p) # get_list n b (p + 8)"

primrec put_list :: "buf \<Rightarrow> int \<Rightarrow> int list \<Rightarrow> buf" where
  "put_list b p [] = b"
| "put_list b p (x # xs) = put_le 8 (put_list b (p + 8) xs) p x"

definition inode_at :: "buf \<Rightarrow> int \<Rightarrow> inode" where
  "inode_at b off = (let p = SIZEOF_INODE * off in
     \<lparr>i_mode = get_le 4 b p,
      i_uid = get_le 4 b (p + 4),
      i_gid = get_le 4 b (p + 8),
      i_status_change_time = to_ssize (get_le 8 b (p + 16)),
      i_atime = to_ssize (get_le 8 b (p + 24)),
      i_ctime = to_ssize (get_le 8 b (p + 32)),
      i_mtime = to_ssize (get_le 8 b (p + 40)),
      i_links_count = get_le 8 b (p + 48),
      i_file_size = to_ssize (get_le 8 b (p + 56)),
      i_blocks_num = to_ssize (get_le 8 b (p + 64)),
      i_allocated = (get_le 1 b (p + 72) \<noteq> 0),
      i_direct_blocks = get_list 12 b (p + 80),
      i_single_indirect = to_ssize (get_le 8 b (p + 176)),
      i_double_indirect = to_ssize (get_le 8 b (p + 184)),
      i_triple_indirect = to_ssize (get_le 8 b (p + 192)),
      i_child_num = get_le 8 b (p + 200),
      i_padding = get_le 1 b (p + 208)\<rparr>)"

text \<open>\<open>memcpy\<close> of a \<open>struct inode\<close> into its slot; the bytes between the fields are never read
  and keep what they held.\<close>

definition put_inode :: "buf \<Rightarrow> int \<Rightarrow> inode \<Rightarrow> buf" where
  "put_inode b off nd = (let p = SIZEOF_INODE * off in
     put_le 4 (put_le 4 (put_le 4 (put_le 8 (put_le 8 (put_le 8 (put_le 8 (put_le 8 (put_le 8
       (put_le 8 (put_le 1 (put_list (put_le 8 (put_le 8 (put_le 8 (put_le 8 (put_le 1 b
         (p + 208) (i_padding nd)) (p + 200) (i_child_num nd)) (p + 192) (i_triple_indirect nd))
         (p + 184) (i_double_indirect nd)) (p + 176) (i_single_indirect nd))
         (p + 80) (i_direct_blocks nd)) (p + 72) (of_bool (i_allocated nd)))
         (p + 64) (i_blocks_num nd)) (p + 56) (i_file_size nd)) (p + 48) (i_links_count nd))
         (p + 40) (i_mtime nd)) (p + 32) (i_ctime nd)) (p + 24) (i_atime nd))
         (p + 16) (i_status_change_time nd)) (p + 8) (i_gid nd)) (p + 4) (i_uid nd)) p (i_mode nd))"

text \<open>The values the C types of the fields hold.\<close>

definition inode_ok :: "inode \<Rightarrow> bool" where
  "inode_ok nd \<longleftrightarrow>
     0 \<le> i_mode nd \<and> i_mode nd < 2 ^ 32 \<and> 0 \<le> i_uid nd \<and> i_uid nd < 2 ^ 32 \<and>
     0 \<le> i_gid nd \<and> i_gid nd < 2 ^ 32 \<and>
     in_ssize (i_status_change_time nd) \<and> in_ssize (i_atime nd) \<and> in_ssize (i_ctime nd) \<and>
     in_ssize (i_mtime nd) \<and> 0 \<le> i_links_count nd \<and> i_links_count nd < 2 ^ 64 \<and>
     in_ssize (i_file_size nd) \<and> in_ssize (i_blocks_num nd) \<and>
     length (i_direct_blocks nd) = 12 \<and> (\<forall>a \<in> set (i_direct_blocks nd). in_ssize a) \<and>
     in_ssize (i_single_indirect nd) \<and> in_ssize (i_double_indirect nd) \<and>
     in_ssize (i_triple_indirect nd) \<and> 0 \<le> i_child_num nd \<and> i_child_num nd < 2 ^ 64 \<and>
     0 \<le> i_padding nd \<and> i_padding nd < 256"

lemma put_list_other:
  "q < p \<or> p + 8 * int (length xs) \<le> q \<Longrightarrow> put_list b p xs q = b q"
  by (induction xs arbitrary: p) (auto simp del: put_le.simps simp add: put_le_other)

lemma get_le_put_list_other [mem_simps]:
  "p + 8 * int (length xs) \<le> q \<or> q + int m \<le> p \<Longrightarrow> get_le m (put_list b p xs) q = get_le m b q"
  by (rule get_le_cong) (auto intro: put_list_other)

lemma get_list_cong:
  "(\<And>i. p \<le> i \<Longrightarrow> i < p + 8 * int n \<Longrightarrow> b i = b' i) \<Longrightarrow> get_list n b p = get_list n b' p"
proof (induction n arbitrary: p)
  case (Suc n)
  have "get_le 8 b p = get_le 8 b' p"
    by (rule get_le_cong) (auto intro: Suc.prems)
  moreover have "get_list n b (p + 8) = get_list n b' (p + 8)"
    by (rule Suc.IH) (auto intro: Suc.prems)
  ultimately show ?case by simp
qed simp

lemma get_list_put_le_other [mem_simps]:
  "p + int n \<le> q \<or> q + 8 * int m \<le> p \<Longrightarrow> get_list m (put_le n b p v) q = get_list m b q"
  by (rule get_list_cong) (auto intro: put_le_other)

lemma get_list_put_list_other [mem_simps]:
  "p + 8 * int (length xs) \<le> q \<or> q + 8 * int m \<le> p \<Longrightarrow>
   get_list m (put_list b p xs) q = get_list m b q"
  by (rule get_list_cong) (auto intro: put_list_other)

lemma get_list_put_list_same [mem_simps]:
  "length xs = n \<Longrightarrow> (\<forall>a \<in> set xs. in_ssize a) \<Longrightarrow> get_list n (put_list b p xs) p = xs"
proof (induction xs arbitrary: n p)
  case (Cons x xs)
  then obtain m where n: "n = Suc m" "length xs = m" by auto
  have "get_list m (put_le 8 (put_list b (p + 8) xs) p x) (p + 8) = xs"
    using Cons n by (simp add: get_list_put_le_other del: put_le.simps)
  then show ?case using Cons.prems n
    by (simp add: get_le_put_le_same del: put_le.simps get_le.simps)
qed simp

lemma is_block_put_list [simp]:
  "is_block b \<Longrightarrow> 0 \<le> p \<Longrightarrow> p + 8 * int (length xs) \<le> 4096 \<Longrightarrow> is_block (put_list b p xs)"
  by (auto simp: is_block_def put_list_other)

lemma length_get_list [simp]: "length (get_list n b p) = n"
  by (induction n arbitrary: p) simp_all

lemma get_list_clip [mem_simps]:
  "0 \<le> p \<Longrightarrow> p + 8 * int n \<le> 4096 \<Longrightarrow> get_list n (clip b) p = get_list n b p"
  by (rule get_list_cong) (simp add: clip_def)

lemma in_ssize_get_list: "a \<in> set (get_list n b p) \<Longrightarrow> in_ssize a"
  by (induction n arbitrary: p) (auto simp del: get_le.simps)


lemmas byte_ops_del = get_le.simps put_le.simps get_list.simps put_list.simps

lemma inode_at_put_inode_same:
  assumes "inode_ok nd"
  shows "inode_at (put_inode b off nd) off = nd"
  using assms unfolding inode_ok_def inode_at_def put_inode_def Let_def
  by (cases nd) (simp add: mem_simps del: byte_ops_del)

lemma inode_at_put_inode_other:
  assumes "i \<noteq> j" "inode_ok nd"
  shows "inode_at (put_inode b i nd) j = inode_at b j"
proof -
  have "216 * i + 216 \<le> 216 * j \<or> 216 * j + 216 \<le> 216 * i"
    using assms(1) by linarith
  moreover have "length (i_direct_blocks nd) = 12" using assms(2) by (simp add: inode_ok_def)
  ultimately show ?thesis unfolding inode_at_def put_inode_def Let_def
    by (elim disjE) (simp_all add: mem_simps del: byte_ops_del)
qed

lemma inode_at_clip:
  "0 \<le> off \<Longrightarrow> off < 18 \<Longrightarrow> inode_at (clip b) off = inode_at b off"
  unfolding inode_at_def Let_def by (simp add: mem_simps del: byte_ops_del)

lemma is_block_put_inode:
  assumes "is_block b" "0 \<le> off" "off < 18" "inode_ok nd"
  shows "is_block (put_inode b off nd)"
  using assms unfolding put_inode_def Let_def
  by (simp add: inode_ok_def del: byte_ops_del)

interpretation inodes: cell_array inode_at put_inode 18 inode_ok
  by unfold_locales
    (simp_all add: inode_at_put_inode_same inode_at_put_inode_other inode_at_clip is_block_put_inode)

lemma inode_ok_inode_at [simp]: "inode_ok (inode_at b off)"
  using get_le_range [of 4 b] get_le_range [of 8 b] get_le_range [of 1 b]
  unfolding inode_ok_def inode_at_def Let_def
  by (simp add: in_ssize_get_list del: byte_ops_del)

text \<open>Accesses through \<open>(struct inode* )buffer + offset\<close>; only the slots that lie within the block
  are defined.\<close>

definition node_get :: "buf \<Rightarrow> int \<Rightarrow> inode option" where
  "node_get b off = (if 0 \<le> off \<and> SIZEOF_INODE * (off + 1) \<le> BLOCK_SIZE then Some (inode_at b off) else None)"

definition node_put :: "buf \<Rightarrow> int \<Rightarrow> inode \<Rightarrow> buf option" where
  "node_put b off nd =
     (if 0 \<le> off \<and> SIZEOF_INODE * (off + 1) \<le> BLOCK_SIZE then Some (put_inode b off nd) else None)"

lemma node_get_run [run]: "0 \<le> off \<Longrightarrow> off < 18 \<Longrightarrow> node_get b off = Some (inode_at b off)"
  by (simp add: node_get_def)

lemma node_put_run [run]: "0 \<le> off \<Longrightarrow> off < 18 \<Longrightarrow> node_put b off nd = Some (put_inode b off nd)"
  by (simp add: node_put_def)

end
