(* ===== verification/Free_List.thy ===== *)
theory Free_List
  imports Block_Layout
begin

text \<open>
  What the free list means. The superblock holds the number of the first list block; address 0 of
  a list block is the number of the next one (0 ends the list), its addresses 1 to 511 are free
  blocks where they are not 0, and the list blocks are free blocks themselves. \<open>freelist s F\<close>
  says that the list is well formed and that \<open>F\<close> is the set of the free blocks; it is the
  specification \<open>allocate_data_block\<close>, \<open>free_data_block\<close> and \<open>altfs_create_freelist\<close> are proved
  against.
\<close>

definition entries :: "buf \<Rightarrow> int list" where
  "entries b = filter (\<lambda>a. a \<noteq> 0) (map (addr_at b) [1..511])"

primrec fl_chain :: "altfs \<Rightarrow> int \<Rightarrow> int list \<Rightarrow> bool" where
  "fl_chain s h [] \<longleftrightarrow> h = 0"
| "fl_chain s h (b # bs) \<longleftrightarrow> h = b \<and> b \<noteq> 0 \<and> fl_chain s (addr_at (disk_block s b) 0) bs"

primrec fl_blocks :: "altfs \<Rightarrow> int list \<Rightarrow> int list" where
  "fl_blocks s [] = []"
| "fl_blocks s (b # bs) = b # entries (disk_block s b) @ fl_blocks s bs"

definition freelist :: "altfs \<Rightarrow> int set \<Rightarrow> bool" where
  "freelist s F \<longleftrightarrow> mounted s \<and> (\<exists>sb bs. altfs_superblock s = Ptr sb \<and> superblock_ok sb \<and>
     fl_chain s (s_freelist_head sb) bs \<and> distinct (fl_blocks s bs) \<and>
     F = set (fl_blocks s bs) \<and> (\<forall>n \<in> F. data_block s n))"

text \<open>The superblock on the disk is the one in memory.\<close>

definition superblock_synced :: "altfs \<Rightarrow> bool" where
  "superblock_synced s \<longleftrightarrow>
     (\<exists>sb. altfs_superblock s = Ptr sb \<and> superblock_ok sb \<and> get_superblock (disk_block s 0) = sb)"

lemma fl_blocks_list_blocks: "set bs \<subseteq> set (fl_blocks s bs)"
  by (induction bs) auto

lemma fl_chain_cong:
  "(\<And>b. b \<in> set bs \<Longrightarrow> addr_at (disk_block s b) 0 = addr_at (disk_block t b) 0) \<Longrightarrow>
   fl_chain s h bs = fl_chain t h bs"
  by (induction bs arbitrary: h) auto

lemma fl_blocks_cong:
  "(\<And>b. b \<in> set bs \<Longrightarrow> entries (disk_block s b) = entries (disk_block t b)) \<Longrightarrow>
   fl_blocks s bs = fl_blocks t bs"
  by (induction bs) auto

lemma fl_chain_unique: "fl_chain s h bs \<Longrightarrow> fl_chain s h cs \<Longrightarrow> bs = cs"
proof (induction bs arbitrary: h cs)
  case Nil
  then show ?case by (cases cs) auto
next
  case (Cons b bs)
  then show ?case by (cases cs) auto
qed

lemma freelist_unique: "freelist s F \<Longrightarrow> freelist s G \<Longrightarrow> F = G"
  unfolding freelist_def using fl_chain_unique by fastforce

lemma finite_freelist: "freelist s F \<Longrightarrow> finite F"
  by (auto simp: freelist_def)

lemma freelist_mounted: "freelist s F \<Longrightarrow> mounted s"
  by (simp add: freelist_def)

lemma freelist_data_block: "freelist s F \<Longrightarrow> n \<in> F \<Longrightarrow> data_block s n"
  by (auto simp: freelist_def)

section \<open>Changing one entry of a list block\<close>

lemma entries_clip [simp]: "entries (clip b) = entries b"
  by (auto simp: entries_def addr.get_clip intro!: arg_cong [where f = "filter _"])

lemma addr_range_split:
  "1 \<le> i \<Longrightarrow> i < 512 \<Longrightarrow> [1..511] = [1..i - 1] @ i # [i + 1..511]"
  using upto_split3 [of 1 i 511] by simp

lemma entries_split:
  assumes "1 \<le> i" "i < 512"
  shows "entries b = filter (\<lambda>a. a \<noteq> 0) (map (addr_at b) [1..i - 1])
      @ filter (\<lambda>a. a \<noteq> 0) [addr_at b i] @ filter (\<lambda>a. a \<noteq> 0) (map (addr_at b) [i + 1..511])"
  unfolding entries_def addr_range_split [OF assms] by simp

lemma entries_set_addr:
  assumes "1 \<le> i" "i < 512" "in_ssize v"
  shows "entries (set_addr b i v) = filter (\<lambda>a. a \<noteq> 0) (map (addr_at b) [1..i - 1])
      @ filter (\<lambda>a. a \<noteq> 0) [v] @ filter (\<lambda>a. a \<noteq> 0) (map (addr_at b) [i + 1..511])"
proof -
  have "map (addr_at (set_addr b i v)) [1..i - 1] = map (addr_at b) [1..i - 1]"
    "map (addr_at (set_addr b i v)) [i + 1..511] = map (addr_at b) [i + 1..511]"
    using assms by (auto simp: addr.get_put)
  moreover have "addr_at (set_addr b i v) i = v" using assms by (simp add: addr.get_put)
  ultimately show ?thesis by (simp only: entries_split [OF assms(1,2)])
qed

text \<open>Taking the first used entry out, and putting a block into the first unused one.\<close>

lemma entries_take_first:
  assumes "1 \<le> i" "i < 512" "addr_at b i \<noteq> 0" "\<And>k. 1 \<le> k \<Longrightarrow> k < i \<Longrightarrow> addr_at b k = 0"
  shows "entries b = addr_at b i # entries (set_addr b i 0)"
proof -
  have "filter (\<lambda>a. a \<noteq> 0) (map (addr_at b) [1..i - 1]) = []"
    using assms(4) by (auto simp: filter_empty_conv)
  then show ?thesis using assms(3)
    by (simp only: entries_set_addr [OF assms(1,2) in_ssize_0] entries_split [OF assms(1,2), of b]) simp
qed

lemma entries_put:
  assumes "1 \<le> i" "i < 512" "addr_at b i = 0" "v \<noteq> 0" "in_ssize v"
  shows "\<exists>xs ys. entries b = xs @ ys \<and> entries (set_addr b i v) = xs @ v # ys"
  unfolding entries_set_addr [OF assms(1,2,5)] entries_split [OF assms(1,2), of b]
  using assms(3,4) by auto

lemma entries_empty: "(\<And>k. 1 \<le> k \<Longrightarrow> k < 512 \<Longrightarrow> addr_at b k = 0) \<Longrightarrow> entries b = []"
  by (auto simp: entries_def filter_empty_conv)

lemma entries_zero [simp]: "entries zero_buf = []"
  by (rule entries_empty) simp

lemma entries_set_zero: "in_ssize v \<Longrightarrow> entries (set_addr zero_buf 0 v) = []"
  by (rule entries_empty) (simp add: addr.get_put)

lemma set_entries: "set (entries b) = {addr_at b k | k. 1 \<le> k \<and> k < 512 \<and> addr_at b k \<noteq> 0}"
  by (auto simp: entries_def)

lemma in_ssize_entries: "a \<in> set (entries b) \<Longrightarrow> in_ssize a"
  by (auto simp: set_entries)

end
