(* ===== verification/Superblock_Layer.thy ===== *)
theory Superblock_Layer
  imports Free_List
begin

text \<open>
  \<open>src/superblock_layer.c\<close>: making a file system (superblock, empty inode blocks, free list),
  loading the superblock of an existing one and writing it back at the end. The main results are
  that \<open>altfs_makefs\<close> leaves every data block free, and that it fails where the data area is a whole
  number of 512-block groups. Reloading a superblock is in \<open>Mounting\<close>.
\<close>

section \<open>The operations\<close>

definition altfs_write_superblock :: "altfs \<Rightarrow> (bool \<times> altfs) option" where
  "altfs_write_superblock s = do {
     sb \<leftarrow> deref (altfs_superblock s);
     altfs_write_block 0 (Some (put_superblock zero_buf sb)) s
   }"

text \<open>\<open>memcmp\<close> of a block with a zeroed one.\<close>

definition buf_zero :: "buf \<Rightarrow> bool" where
  "buf_zero b \<longleftrightarrow> list_all (\<lambda>i. b i = 0) [0..4095]"

text \<open>The result of the read is ignored: where it fails, \<open>sb_buffer\<close> keeps its zeros.\<close>

definition load_superblock :: "altfs \<Rightarrow> (bool \<times> altfs) option" where
  "load_superblock s = do {
     (_, buffer) \<leftarrow> altfs_read_block 0 (Some zero_buf) s;
     sb_buffer \<leftarrow> buffer;
     if buf_zero sb_buffer then Some (False, s)
     else let sb = get_superblock sb_buffer;
              t1 = BLOCK_SIZE div SIZEOF_INODE;
              t2 = INODE_BLOCK_COUNT s * t1
          in if s_num_of_inodes_per_block sb \<noteq> t1 \<or> s_inodes_count sb \<noteq> t2 then Some (False, s)
             else (case altfs_superblock s of
                 Freed \<Rightarrow> None
               | _ \<Rightarrow> let s' = s\<lparr>altfs_superblock := Ptr sb\<rparr>
                      in Some (\<not> (s_inodes_count sb = 0 \<or> s_num_of_inodes_per_block sb = 0), s'))
   }"

definition altfs_create_superblock :: "altfs \<Rightarrow> (bool \<times> altfs) option" where
  "altfs_create_superblock s =
     (let per_block = BLOCK_SIZE div SIZEOF_INODE;
          sb = \<lparr>s_inodes_count = INODE_BLOCK_COUNT s * per_block,
                s_first_ino = 3,
                s_freelist_head = INODE_BLOCK_COUNT s + 1,
                s_num_of_inodes_per_block = per_block\<rparr>
      in altfs_write_superblock (s\<lparr>altfs_superblock := Ptr sb\<rparr>))"

definition altfs_create_ilist :: "altfs \<Rightarrow> (bool \<times> altfs) option" where
  "altfs_create_ilist s =
     map_option (finish True)
       (for_loop 1 (INODE_BLOCK_COUNT s + 1)
         (\<lambda>blocknum s. do {
            (ok, s') \<leftarrow> altfs_write_block blocknum (Some zero_buf) s;
            Some (if ok then Next s' else Return False s')
          }) s)"

text \<open>The inner loop of \<open>altfs_create_freelist\<close> over \<open>buffer\<close>, \<open>offset\<close> and \<open>blocknum\<close>.\<close>

definition addr_or_null :: "altfs \<Rightarrow> int \<Rightarrow> int" where
  "addr_or_null s blocknum = (if blocknum \<ge> BLOCK_COUNT s then 0 else blocknum)"

definition fill_list_block :: "altfs \<Rightarrow> int \<Rightarrow> ((buf \<times> int \<times> int, bool) ctl) option" where
  "fill_list_block s blocknum0 =
     for_loop 1 NUM_OF_ADDRESSES_PER_BLOCK
       (\<lambda>j (buffer, offset, blocknum).
          let offset' = offset + ADDRESS_SIZE;
              blocknum' = blocknum + 1
          in Some (Next (put_le 8 buffer offset' (addr_or_null s blocknum'), offset', blocknum')))
       (zero_buf, 0, blocknum0)"

definition create_list_block :: "int \<Rightarrow> int \<times> altfs \<Rightarrow> ((int \<times> altfs, bool) ctl) option" where
  "create_list_block i = (\<lambda>(blocknum, s). do {
     let currblocknum = blocknum;
     c \<leftarrow> fill_list_block s blocknum;
     let (_, buffer, offset, blocknum) = finish True c;
     let blocknum = blocknum + 1;
     let buffer = put_le 8 buffer 0 (addr_or_null s blocknum);
     (ok, s') \<leftarrow> altfs_write_block currblocknum (Some buffer) s;
     Some (if ok then Next (blocknum, s') else Return False (blocknum, s'))
   })"

definition altfs_create_freelist :: "altfs \<Rightarrow> (bool \<times> altfs) option" where
  "altfs_create_freelist s = do {
     sb \<leftarrow> deref (altfs_superblock s);
     c \<leftarrow> for_loop 0 (NUM_OF_FREE_LIST_BLOCKS s) create_list_block (s_freelist_head sb, s);
     let (ok, _, s') = finish True c;
     Some (ok, s')
   }"

definition altfs_makefs_options :: "bool \<Rightarrow> bool \<Rightarrow> bool \<Rightarrow> altfs \<Rightarrow> (bool \<times> altfs) option" where
  "altfs_makefs_options calloc_ok erase format s =
     (let (allocateFSMemory, s) = altfs_alloc_memory calloc_ok erase s in
      if \<not> allocateFSMemory then Some (False, s)
      else if format then do {
        (createSuperBlock, s) \<leftarrow> altfs_create_superblock s;
        if \<not> createSuperBlock then Some (False, s)
        else do {
          (createInodeList, s) \<leftarrow> altfs_create_ilist s;
          if \<not> createInodeList then Some (False, s)
          else do {
            (createFreeList, s) \<leftarrow> altfs_create_freelist s;
            if \<not> createFreeList then Some (False, s) else Some (True, s)
          }
        }
      }
      else Some (True, s))"

definition altfs_makefs :: "bool \<Rightarrow> altfs \<Rightarrow> (bool \<times> altfs) option" where
  "altfs_makefs calloc_ok s = altfs_makefs_options calloc_ok True True s"

definition teardown :: "altfs \<Rightarrow> altfs option" where
  "teardown s = do {
     (_, s) \<leftarrow> altfs_write_superblock s;
     p \<leftarrow> altfs_free_memory (altfs_superblock s);
     let s = s\<lparr>altfs_superblock := p\<rparr>;
     (_, s) \<leftarrow> altfs_dealloc_memory s;
     Some s
   }"

section \<open>Writing the superblock\<close>

definition sync_superblock :: "altfs \<Rightarrow> superblock \<Rightarrow> altfs" where
  "sync_superblock s sb = upd_block s 0 (put_superblock zero_buf sb)"

lemma write_superblock_run [run]:
  "mounted s \<Longrightarrow> valid_block s 0 \<Longrightarrow> altfs_superblock s = Ptr sb \<Longrightarrow>
   altfs_write_superblock s = Some (True, sync_superblock s sb)"
  by (simp add: altfs_write_superblock_def sync_superblock_def run)

lemma geometry_valid_0: "geometry_ok s \<Longrightarrow> valid_block s 0"
  using geometry_bounds(2) [of s] by (simp add: valid_block_def)

lemma sync_superblock_block [mem_simps]:
  "mounted s \<Longrightarrow> disk_block (sync_superblock s sb) n
     = (if n = 0 then put_superblock zero_buf sb else disk_block s n)"
  by (simp add: sync_superblock_def mem_simps)

lemma sync_superblock_fields [simp]:
  "altfs_superblock (sync_superblock s sb) = altfs_superblock s"
  "FS_SIZE (sync_superblock s sb) = FS_SIZE s"
  "mounted (sync_superblock s sb) = mounted s"
  "valid_block (sync_superblock s sb) n = valid_block s n"
  "data_block (sync_superblock s sb) n = data_block s n"
  "inode_block (sync_superblock s sb) n = inode_block s n"
  "geometry_ok (sync_superblock s sb) = geometry_ok s"
  "BLOCK_COUNT (sync_superblock s sb) = BLOCK_COUNT s"
  "INODE_BLOCK_COUNT (sync_superblock s sb) = INODE_BLOCK_COUNT s"
  by (simp_all add: sync_superblock_def)

lemma superblock_synced_sync:
  "mounted s \<Longrightarrow> altfs_superblock s = Ptr sb \<Longrightarrow> superblock_ok sb \<Longrightarrow>
   superblock_synced (sync_superblock s sb)"
  by (simp add: superblock_synced_def mem_simps)


lemma only_changes_sync: "mounted s \<Longrightarrow> 0 \<in> A \<Longrightarrow> only_changes A s (sync_superblock s sb)"
  by (simp add: sync_superblock_def only_changes_upd)

section \<open>Making a file system\<close>

lemma create_ilist_run:
  assumes "mounted s" "geometry_ok s"
  shows "\<exists>t. altfs_create_ilist s = Some (True, t) \<and> only_changes {n. inode_block s n} s t
    \<and> altfs_superblock t = altfs_superblock s
    \<and> (\<forall>n. inode_block s n \<longrightarrow> disk_block t n = zero_buf)"
proof -
  define I where "I = (\<lambda>i t. only_changes {n. inode_block s n} s t
    \<and> altfs_superblock t = altfs_superblock s \<and> (\<forall>n. 1 \<le> n \<and> n < i \<longrightarrow> disk_block t n = zero_buf))"
  let ?body = "\<lambda>blocknum s. do {
            (ok, s') \<leftarrow> altfs_write_block blocknum (Some zero_buf) s;
            Some (if ok then Next s' else Return False s')
          }"
  have "\<exists>t. for_loop 1 (INODE_BLOCK_COUNT s + 1) ?body s = Some (Next t)
      \<and> I (INODE_BLOCK_COUNT s + 1) t"
  proof (rule for_loop_all)
    show "I 1 s" by (auto simp: I_def)
    show "1 \<le> INODE_BLOCK_COUNT s + 1" using assms by (simp add: geometry_ok_def)
    fix i t assume i: "1 \<le> i" "i < INODE_BLOCK_COUNT s + 1" and I: "I i t"
    from i have "inode_block s i" by (simp add: inode_block_def)
    moreover from I have t: "only_changes {n. inode_block s n} s t" by (simp add: I_def)
    ultimately have "mounted t" "valid_block t i" "only_changes {n. inode_block s n} t (upd_block t i zero_buf)"
      using assms inode_block_valid by (simp_all add: only_changes_geometry [OF t] only_changes_upd)
    moreover have "I (i + 1) (upd_block t i zero_buf)"
      using I calculation by (auto simp: I_def mem_simps intro: only_changes_trans_same)
    ultimately show "\<exists>t'. ?body i t = Some (Next t') \<and> I (i + 1) t'"
      by (simp add: run)
  qed
  then show ?thesis
    by (auto simp: altfs_create_ilist_def I_def inode_block_def)
qed

text \<open>A list block that \<open>altfs_create_freelist\<close> has written: the addresses that follow it, the one
  of the next list block first.\<close>

definition fresh_list_block :: "altfs \<Rightarrow> int \<Rightarrow> bool" where
  "fresh_list_block s n \<longleftrightarrow>
     addr_at (disk_block s n) 0 = addr_or_null s (n + 512) \<and>
     (\<forall>k. 1 \<le> k \<and> k < 512 \<longrightarrow> addr_at (disk_block s n) k = addr_or_null s (n + k))"

lemma in_ssize_addr_or_null:
  "mounted s \<Longrightarrow> 0 \<le> n \<Longrightarrow> in_ssize (addr_or_null s n)"
  using in_ssize_valid_block [of s n] by (auto simp: addr_or_null_def valid_block_def)

lemma fill_list_block_run:
  assumes "mounted s" "0 \<le> bn"
  shows "\<exists>b. fill_list_block s bn = Some (Next (b, 4088, bn + 511)) \<and> is_block b
    \<and> (\<forall>k. 1 \<le> k \<and> k < 512 \<longrightarrow> addr_at b k = addr_or_null s (bn + k))"
proof -
  define I where "I = (\<lambda>j (b, off, n). off = 8 * (j - 1) \<and> n = bn + (j - 1) \<and> is_block b
    \<and> (\<forall>k. 1 \<le> k \<and> k < j \<longrightarrow> addr_at b k = addr_or_null s (bn + k)))"
  let ?body = "\<lambda>j (buffer, offset, blocknum).
          let offset' = offset + ADDRESS_SIZE; blocknum' = blocknum + 1
          in Some (Next (put_le 8 buffer offset' (addr_or_null s blocknum'), offset', blocknum'))
          :: (buf \<times> int \<times> int, bool) ctl option"
  have "\<exists>x. for_loop 1 512 ?body (zero_buf, 0, bn) = Some (Next x) \<and> I 512 x"
  proof (rule for_loop_all)
    fix j x assume j: "1 \<le> j" "j < (512 :: int)" and I: "I j x"
    obtain b off n where x: "x = (b, off, n)" by (cases x)
    from I have x': "off = 8 * (j - 1)" "n = bn + (j - 1)" "is_block b"
      and k: "\<And>k. 1 \<le> k \<and> k < j \<Longrightarrow> addr_at b k = addr_or_null s (bn + k)"
      by (auto simp: I_def x)
    let ?b = "set_addr b j (addr_or_null s (bn + j))"
    have "addr_at ?b k = addr_or_null s (bn + k)" if "1 \<le> k" "k < j + 1" for k
      using that j k assms in_ssize_addr_or_null [of s "bn + j"] by (auto simp: addr.get_put)
    then have "I (j + 1) (?b, 8 * j, bn + j)"
      using x' j by (simp add: I_def)
    moreover have "?body j x = Some (Next (?b, 8 * j, bn + j))"
      by (simp add: x x' set_addr_def Let_def algebra_simps)
    ultimately show "\<exists>x'. ?body j x = Some (Next x') \<and> I (j + 1) x'" by blast
  qed (simp_all add: I_def)
  then show ?thesis by (auto simp: fill_list_block_def I_def)
qed

lemma create_list_block_run:
  assumes "mounted s" "valid_block s bn"
  shows "\<exists>b. create_list_block i (bn, s) = Some (Next (bn + 512, upd_block s bn b))
    \<and> fresh_list_block (upd_block s bn b) bn"
proof -
  from assms have bn: "0 \<le> bn" by (simp add: valid_block_def)
  obtain b where b: "fill_list_block s bn = Some (Next (b, 4088, bn + 511))" "is_block b"
    "\<And>k. 1 \<le> k \<and> k < 512 \<Longrightarrow> addr_at b k = addr_or_null s (bn + k)"
    using fill_list_block_run [OF assms(1) bn] by blast
  let ?b = "set_addr b 0 (addr_or_null s (bn + 512))"
  have "put_le 8 b 0 (addr_or_null s (bn + 512)) = ?b" by (simp add: set_addr_def)
  then have "create_list_block i (bn, s) = Some (Next (bn + 512, upd_block s bn ?b))"
    using assms by (simp add: create_list_block_def b(1) run Let_def algebra_simps del: put_le.simps)
  moreover have "addr_or_null (upd_block s bn ?b) n = addr_or_null s n" for n
    by (simp add: addr_or_null_def)
  then have "fresh_list_block (upd_block s bn ?b) bn"
    using assms b bn in_ssize_addr_or_null [of s "bn + 512"]
    by (auto simp: fresh_list_block_def mem_simps)
  ultimately show ?thesis by blast
qed


lemma fresh_list_block_cong:
  "only_changes A s t \<Longrightarrow> n \<notin> A \<Longrightarrow> fresh_list_block t n = fresh_list_block s n"
  by (simp add: fresh_list_block_def addr_or_null_def only_changes_block only_changes_geometry)

lemma entries_fresh:
  assumes "fresh_list_block s n" "0 \<le> n"
  shows "distinct (entries (disk_block s n))"
    and "set (entries (disk_block s n)) = {n + 1..<min (n + 512) (BLOCK_COUNT s)}"
proof -
  have eq: "map (addr_at (disk_block s n)) [1..511] = map (\<lambda>k. addr_or_null s (n + k)) [1..511]"
    using assms(1) by (simp add: fresh_list_block_def)
  have "inj_on (\<lambda>k. addr_or_null s (n + k)) (set (filter (\<lambda>k. addr_or_null s (n + k) \<noteq> 0) [1..511]))"
    by (auto simp: inj_on_def addr_or_null_def split: if_splits)
  then show "distinct (entries (disk_block s n))"
    by (simp add: entries_def eq filter_map o_def distinct_map)
  show "set (entries (disk_block s n)) = {n + 1..<min (n + 512) (BLOCK_COUNT s)}"
  proof (intro set_eqI iffI)
    fix x assume "x \<in> set (entries (disk_block s n))"
    then show "x \<in> {n + 1..<min (n + 512) (BLOCK_COUNT s)}"
      using assms by (auto simp: set_entries fresh_list_block_def addr_or_null_def split: if_splits)
  next
    fix x assume x: "x \<in> {n + 1..<min (n + 512) (BLOCK_COUNT s)}"
    then have k: "1 \<le> x - n \<and> x - n < 512" by auto
    then have "addr_at (disk_block s n) (x - n) = addr_or_null s (n + (x - n))"
      using assms(1) by (simp only: fresh_list_block_def)
    then have "addr_at (disk_block s n) (x - n) = x" "x \<noteq> 0"
      using x assms(2) by (simp_all add: addr_or_null_def)
    then show "x \<in> set (entries (disk_block s n))"
      using k by (auto simp: set_entries intro!: exI [of _ "x - n"])
  qed
qed

lemma create_freelist_loop:
  assumes "mounted s" "0 \<le> h" "0 \<le> k" "\<And>i. 0 \<le> i \<Longrightarrow> i < k \<Longrightarrow> valid_block s (h + 512 * i)"
  shows "\<exists>t. for_loop 0 k create_list_block (h, s) = Some (Next (h + 512 * k, t))
    \<and> only_changes {h..} s t \<and> altfs_superblock t = altfs_superblock s
    \<and> (\<forall>i. 0 \<le> i \<and> i < k \<longrightarrow> fresh_list_block t (h + 512 * i))"
proof -
  define I where "I = (\<lambda>i (n, t). n = h + 512 * i \<and> only_changes {h..} s t
    \<and> altfs_superblock t = altfs_superblock s
    \<and> (\<forall>j. 0 \<le> j \<and> j < i \<longrightarrow> fresh_list_block t (h + 512 * j)))"
  have "\<exists>x. for_loop 0 k create_list_block (h, s) = Some (Next x) \<and> I k x"
  proof (rule for_loop_all)
    show "I 0 (h, s)" by (auto simp: I_def)
    show "0 \<le> k" by fact
    fix i x assume i: "0 \<le> i" "i < k" and I: "I i x"
    obtain n t where x: "x = (n, t)" by (cases x)
    from I have n: "n = h + 512 * i" and t: "only_changes {h..} s t"
      "altfs_superblock t = altfs_superblock s"
      and fresh: "\<And>j. 0 \<le> j \<and> j < i \<Longrightarrow> fresh_list_block t (h + 512 * j)"
      by (auto simp: I_def x)
    have mt: "mounted t" "valid_block t n"
      using assms(1,4) i n by (simp_all add: only_changes_geometry [OF t(1)])
    obtain b where b: "create_list_block i (n, t) = Some (Next (n + 512, upd_block t n b))"
      "fresh_list_block (upd_block t n b) n"
      using create_list_block_run [OF mt] by blast
    have upd: "only_changes {n} t (upd_block t n b)" using mt(1) by (simp add: only_changes_upd)
    have "fresh_list_block (upd_block t n b) (h + 512 * j)" if "0 \<le> j" "j < i + 1" for j
      using that b(2) fresh n fresh_list_block_cong [OF upd, of "h + 512 * j"]
      by (cases "j = i") auto
    moreover have "only_changes {h..} s (upd_block t n b)"
      by (rule only_changes_trans_same [OF t(1)], rule only_changes_mono [OF upd]) (use n i in auto)
    ultimately have "I (i + 1) (n + 512, upd_block t n b)"
      using t n by (simp add: I_def)
    then show "\<exists>x'. create_list_block i x = Some (Next x') \<and> I (i + 1) x'"
      using b(1) x by blast
  qed
  then show ?thesis by (auto simp: I_def)
qed

text \<open>Fresh list blocks, one after the other, are a free list of all blocks from \<open>h\<close> on.\<close>

lemma fresh_chain:
  assumes fresh: "\<And>i. 0 \<le> i \<Longrightarrow> i < k \<Longrightarrow> fresh_list_block s (h + 512 * i)"
    and h: "0 < h" and lt: "\<And>i. 0 \<le> i \<Longrightarrow> i < k \<Longrightarrow> h + 512 * i < BLOCK_COUNT s"
    and ge: "BLOCK_COUNT s \<le> h + 512 * k" and "0 \<le> i" "i \<le> k"
  shows "let bs = map (\<lambda>i. h + 512 * i) [i..k - 1] in
    fl_chain s (addr_or_null s (h + 512 * i)) bs \<and> distinct (fl_blocks s bs)
    \<and> set (fl_blocks s bs) = {h + 512 * i..<BLOCK_COUNT s}"
  using assms(5,6)
proof (induction "nat (k - i)" arbitrary: i)
  case 0
  then have "i = k" by simp
  then show ?case using ge by (simp add: addr_or_null_def)
next
  case (Suc m)
  let ?n = "h + 512 * i"
  let ?bs = "map (\<lambda>i. h + 512 * i) [i + 1..k - 1]"
  from Suc have i: "i < k" "0 \<le> i" by auto
  then have split: "[i..k - 1] = i # [i + 1..k - 1]" by (simp add: upto_rec1)
  have IH: "fl_chain s (addr_or_null s (?n + 512)) ?bs" "distinct (fl_blocks s ?bs)"
    "set (fl_blocks s ?bs) = {?n + 512..<BLOCK_COUNT s}"
    using Suc.hyps(1) [of "i + 1"] Suc.hyps(2) i by (simp_all add: Let_def algebra_simps)
  have f: "fresh_list_block s ?n" using fresh i by simp
  note e = entries_fresh [OF f]
  have n: "0 < ?n" "?n < BLOCK_COUNT s" using h lt i by auto
  then have "addr_or_null s ?n = ?n" by (simp add: addr_or_null_def)
  moreover have "addr_at (disk_block s ?n) 0 = addr_or_null s (?n + 512)"
    using f by (simp add: fresh_list_block_def)
  moreover have "distinct (fl_blocks s (?n # ?bs))" "set (fl_blocks s (?n # ?bs)) = {?n..<BLOCK_COUNT s}"
    using e n IH(2,3) by auto
  ultimately show ?case using IH(1) n by (simp add: split Let_def)
qed


text \<open>The superblock of a new file system.\<close>

definition initial_superblock :: "altfs \<Rightarrow> superblock" where
  "initial_superblock s =
     \<lparr>s_inodes_count = INODE_BLOCK_COUNT s * 18, s_first_ino = 3,
      s_freelist_head = INODE_BLOCK_COUNT s + 1, s_num_of_inodes_per_block = 18\<rparr>"

lemma initial_superblock_ok: "geometry_ok s \<Longrightarrow> superblock_ok (initial_superblock s)"
proof -
  assume g: "geometry_ok s"
  have "18 * INODE_BLOCK_COUNT s \<le> FS_SIZE s"
    using geometry_bounds [OF g] by (simp add: BLOCK_COUNT_def)
  then show ?thesis
    using g by (simp add: superblock_ok_def initial_superblock_def geometry_ok_def in_ssize_def)
qed

lemma create_superblock_run:
  assumes "mounted s" "geometry_ok s"
  shows "altfs_create_superblock s =
    Some (True, sync_superblock (s\<lparr>altfs_superblock := Ptr (initial_superblock s)\<rparr>) (initial_superblock s))"
  using assms geometry_valid_0 [OF assms(2)]
  by (simp add: altfs_create_superblock_def initial_superblock_def Let_def run)

lemma alloc_memory_run:
  "geometry_ok s \<Longrightarrow> altfs_alloc_memory True erase s = (True, s\<lparr>mem_ptr := Ptr zero_buf\<rparr>)
     \<and> mounted (s\<lparr>mem_ptr := Ptr zero_buf\<rparr>) \<and> geometry_ok (s\<lparr>mem_ptr := Ptr zero_buf\<rparr>)"
  by (simp add: altfs_alloc_memory_def mounted_def geometry_bounds(1)) (simp add: geometry_ok_def)

text \<open>The state after \<open>altfs_create_superblock\<close> and \<open>altfs_create_ilist\<close>.\<close>

lemma makefs_before_freelist:
  assumes "geometry_ok s"
  shows "\<exists>t. mounted t \<and> FS_SIZE t = FS_SIZE s \<and> altfs_superblock t = Ptr (initial_superblock s)
    \<and> superblock_synced t \<and> (\<forall>n. inode_block s n \<longrightarrow> disk_block t n = zero_buf)
    \<and> altfs_makefs_options True erase True s =
        (case altfs_create_freelist t of None \<Rightarrow> None | Some (ok, u) \<Rightarrow> Some (ok, u))"
proof -
  define r where "r = s\<lparr>mem_ptr := Ptr zero_buf\<rparr>"
  define sb where "sb = initial_superblock s"
  define u where "u = sync_superblock (r\<lparr>altfs_superblock := Ptr sb\<rparr>) sb"
  have r: "mounted r" "geometry_ok r" "altfs_alloc_memory True erase s = (True, r)" "FS_SIZE r = FS_SIZE s"
    using alloc_memory_run [OF assms] by (simp_all add: r_def)
  have sbr: "initial_superblock r = sb"
    by (simp add: sb_def initial_superblock_def r_def)
  have u: "altfs_create_superblock r = Some (True, u)" "mounted u" "geometry_ok u"
    "altfs_superblock u = Ptr sb" "FS_SIZE u = FS_SIZE s"
    using create_superblock_run [OF r(1,2)] r by (simp_all add: u_def sbr)
  have sync: "superblock_synced u"
    using superblock_synced_sync [of "r\<lparr>altfs_superblock := Ptr sb\<rparr>" sb] r initial_superblock_ok [OF assms]
    by (simp add: u_def sb_def)
  obtain t where t: "altfs_create_ilist u = Some (True, t)" "only_changes {n. inode_block u n} u t"
    "altfs_superblock t = altfs_superblock u" "\<forall>n. inode_block u n \<longrightarrow> disk_block t n = zero_buf"
    using create_ilist_run [OF u(2,3)] by blast
  have "\<not> inode_block u 0" by (simp add: inode_block_def)
  then have "superblock_synced t"
    using sync t(2,3) by (simp add: superblock_synced_def only_changes_block)
  moreover have "inode_block u n = inode_block s n" for n
    using u(5) by (simp add: inode_block_def INODE_BLOCK_COUNT_def BLOCK_COUNT_def)
  ultimately show ?thesis
    using r u t by (intro exI [of _ t])
      (auto simp: sb_def only_changes_geometry altfs_makefs_options_def split: option.split)
qed

lemma NUM_OF_FREE_LIST_BLOCKS_last:
  assumes "geometry_ok s" "NUM_OF_DATA_BLOCKS s mod 512 \<noteq> 0" "0 \<le> i" "i < NUM_OF_FREE_LIST_BLOCKS s"
  shows "INODE_BLOCK_COUNT s + 1 + 512 * i < BLOCK_COUNT s"
proof -
  have "512 * i \<le> 512 * (NUM_OF_DATA_BLOCKS s div 512)"
    using assms by (simp add: NUM_OF_FREE_LIST_BLOCKS_def)
  moreover have "0 < NUM_OF_DATA_BLOCKS s mod 512"
    using assms(2) pos_mod_sign [of 512 "NUM_OF_DATA_BLOCKS s"] by linarith
  then have "512 * (NUM_OF_DATA_BLOCKS s div 512) < NUM_OF_DATA_BLOCKS s"
    using mult_div_mod_eq [of 512 "NUM_OF_DATA_BLOCKS s"] by linarith
  ultimately show ?thesis by (simp add: NUM_OF_DATA_BLOCKS_def)
qed

lemma create_freelist_run:
  assumes "mounted s" "geometry_ok s" "altfs_superblock s = Ptr (initial_superblock s)"
    and mod: "NUM_OF_DATA_BLOCKS s mod 512 \<noteq> 0"
  shows "\<exists>t. altfs_create_freelist s = Some (True, t) \<and> only_changes {n. data_block s n \<or> n \<ge> BLOCK_COUNT s} s t
    \<and> altfs_superblock t = altfs_superblock s \<and> freelist t {n. data_block s n}"
proof -
  define h where "h = INODE_BLOCK_COUNT s + 1"
  define k where "k = NUM_OF_FREE_LIST_BLOCKS s"
  have h: "0 < h" and head: "s_freelist_head (initial_superblock s) = h"
    using assms(2) by (simp_all add: h_def geometry_ok_def initial_superblock_def)
  have lt: "h + 512 * i < BLOCK_COUNT s" if "0 \<le> i" "i < k" for i
    using NUM_OF_FREE_LIST_BLOCKS_last [OF assms(2) mod that(1)] that(2) by (simp add: h_def k_def)
  then have vb: "valid_block s (h + 512 * i)" if "0 \<le> i" "i < k" for i
    using that h by (simp add: valid_block_def)
  have pos: "0 < NUM_OF_DATA_BLOCKS s"
    using geometry_bounds(3) [OF assms(2)] by (simp add: NUM_OF_DATA_BLOCKS_def)
  then have k: "0 \<le> k" by (simp add: k_def NUM_OF_FREE_LIST_BLOCKS_def pos_imp_zdiv_nonneg_iff)
  have "NUM_OF_DATA_BLOCKS s < 512 * k"
    unfolding k_def NUM_OF_FREE_LIST_BLOCKS_def by simp
  then have ge: "BLOCK_COUNT s \<le> h + 512 * k" by (simp add: h_def NUM_OF_DATA_BLOCKS_def)
  obtain t where t: "for_loop 0 k create_list_block (h, s) = Some (Next (h + 512 * k, t))"
    "only_changes {h..} s t" "altfs_superblock t = altfs_superblock s"
    "\<forall>i. 0 \<le> i \<and> i < k \<longrightarrow> fresh_list_block t (h + 512 * i)"
    using create_freelist_loop [OF assms(1) less_imp_le [OF h] k vb] by auto
  note geo = only_changes_geometry [OF t(2)]
  have chain: "let bs = map (\<lambda>i. h + 512 * i) [0..k - 1] in
    fl_chain t (addr_or_null t (h + 512 * 0)) bs \<and> distinct (fl_blocks t bs)
    \<and> set (fl_blocks t bs) = {h + 512 * 0..<BLOCK_COUNT t}"
    by (rule fresh_chain) (use t(4) h lt ge k in \<open>simp_all add: geo\<close>)
  have F: "{h..<BLOCK_COUNT s} = {n. data_block s n}" by (auto simp: data_block_def h_def)
  have "h < BLOCK_COUNT s" using geometry_bounds(3) [OF assms(2)] by (simp add: h_def)
  then have "addr_or_null t h = h" by (simp add: addr_or_null_def geo)
  then have "freelist t {n. data_block s n}"
    unfolding freelist_def
    using chain F assms(1,3) t(3) head initial_superblock_ok [OF assms(2)] by (auto simp: geo Let_def)
  moreover have "only_changes {n. data_block s n \<or> n \<ge> BLOCK_COUNT s} s t"
    using t(2) by (rule only_changes_mono) (auto simp: data_block_def h_def)
  ultimately show ?thesis
    using assms(3) t head by (simp add: altfs_create_freelist_def k_def)
qed

text \<open>\<open>altfs_makefs\<close> where the data area is not a whole number of 512-block groups.\<close>

lemma makefs_run:
  assumes "geometry_ok s" "NUM_OF_DATA_BLOCKS s mod 512 \<noteq> 0"
  shows "\<exists>t. altfs_makefs_options True erase True s = Some (True, t) \<and> FS_SIZE t = FS_SIZE s
    \<and> freelist t {n. data_block s n} \<and> superblock_synced t
    \<and> altfs_superblock t = Ptr (initial_superblock s)
    \<and> (\<forall>n. inode_block s n \<longrightarrow> disk_block t n = zero_buf)"
proof -
  obtain t where t: "mounted t" "FS_SIZE t = FS_SIZE s" "altfs_superblock t = Ptr (initial_superblock s)"
    "superblock_synced t" "\<forall>n. inode_block s n \<longrightarrow> disk_block t n = zero_buf"
    "altfs_makefs_options True erase True s =
        (case altfs_create_freelist t of None \<Rightarrow> None | Some (ok, u) \<Rightarrow> Some (ok, u))"
    using makefs_before_freelist [OF assms(1), of erase] by blast
  have eq: "BLOCK_COUNT t = BLOCK_COUNT s" "INODE_BLOCK_COUNT t = INODE_BLOCK_COUNT s"
    using t(2) by (simp_all add: BLOCK_COUNT_def INODE_BLOCK_COUNT_def)
  have "geometry_ok t" "NUM_OF_DATA_BLOCKS t mod 512 \<noteq> 0" "initial_superblock t = initial_superblock s"
    using assms t(2) by (simp_all add: geometry_ok_def NUM_OF_DATA_BLOCKS_def eq initial_superblock_def)
  then obtain u where u: "altfs_create_freelist t = Some (True, u)"
    "only_changes {n. data_block t n \<or> n \<ge> BLOCK_COUNT t} t u"
    "altfs_superblock u = altfs_superblock t" "freelist u {n. data_block t n}"
    using create_freelist_run [OF t(1)] t(3) by force
  have dt: "data_block t n = data_block s n" for n by (simp add: data_block_def eq)
  have "disk_block u n = disk_block t n" if "n \<le> INODE_BLOCK_COUNT s" for n
    using that u(2) geometry_bounds(3) [OF assms(1)]
    by (intro only_changes_block [OF u(2)]) (auto simp: data_block_def eq)
  moreover have "0 \<le> INODE_BLOCK_COUNT s" using assms(1) by (simp add: geometry_ok_def)
  ultimately show ?thesis
    using t u by (intro exI [of _ u])
      (auto simp: dt only_changes_geometry superblock_synced_def inode_block_def)
qed

text \<open>Where it is one, the last list block would be the block after the end of the disk: the code
  counts one list block too many and gives up.\<close>

lemma create_list_block_no_break: "create_list_block i x \<noteq> Some (Break y)"
proof
  assume "create_list_block i x = Some (Break y)"
  then show False
    by (cases x) (auto simp: create_list_block_def Let_def bind_simps split: prod.splits if_splits,
        metis prod_cases4)
qed

lemma create_freelist_too_many:
  assumes m: "mounted s" "geometry_ok s" "altfs_superblock s = Ptr (initial_superblock s)"
    and mod: "NUM_OF_DATA_BLOCKS s mod 512 = 0"
  shows "\<exists>t. altfs_create_freelist s = Some (False, t)"
proof -
  define h where "h = INODE_BLOCK_COUNT s + 1"
  define k where "k = NUM_OF_DATA_BLOCKS s div 512"
  have N: "NUM_OF_DATA_BLOCKS s = 512 * k"
    using mod mult_div_mod_eq [of 512 "NUM_OF_DATA_BLOCKS s"] by (simp add: k_def)
  have h: "0 \<le> h" using m(2) by (simp add: h_def geometry_ok_def)
  have k: "0 \<le> k"
    using geometry_bounds(3) [OF m(2)] by (simp add: k_def NUM_OF_DATA_BLOCKS_def pos_imp_zdiv_nonneg_iff)
  have hk: "h + 512 * k = BLOCK_COUNT s" using N by (simp add: h_def NUM_OF_DATA_BLOCKS_def)
  obtain t where t: "for_loop 0 k create_list_block (h, s) = Some (Next (h + 512 * k, t))" "only_changes {h..} s t"
    using create_freelist_loop [OF m(1) h k] h hk by (auto simp: valid_block_def)
  have mt: "mounted t" "0 \<le> BLOCK_COUNT s" "\<not> valid_block t (BLOCK_COUNT s)"
    using m(1) hk h k by (simp_all add: only_changes_geometry [OF t(2)]) (simp add: valid_block_def)
  obtain b where "fill_list_block t (BLOCK_COUNT s) = Some (Next (b, 4088, BLOCK_COUNT s + 511))"
    using fill_list_block_run [OF mt(1,2)] by blast
  then have "create_list_block k (BLOCK_COUNT s, t) = Some (Return False (BLOCK_COUNT s + 511 + 1, t))"
    using mt by (simp add: create_list_block_def run Let_def del: put_le.simps)
  then have "for_loop 0 (k + 1) create_list_block (h, s) = Some (Return False (BLOCK_COUNT s + 511 + 1, t))"
    using for_loop_split [OF k _ t(1) create_list_block_no_break, of "k + 1"] hk
    by (simp add: for_loop_step)
  moreover have "NUM_OF_FREE_LIST_BLOCKS s = k + 1" by (simp add: NUM_OF_FREE_LIST_BLOCKS_def k_def)
  moreover have "s_freelist_head (initial_superblock s) = h" by (simp add: h_def initial_superblock_def)
  ultimately show ?thesis using m(3) by (simp add: altfs_create_freelist_def)
qed

lemma makefs_too_many:
  assumes "geometry_ok s" "NUM_OF_DATA_BLOCKS s mod 512 = 0"
  shows "\<exists>t. altfs_makefs True s = Some (False, t)"
proof -
  obtain t where t: "mounted t" "FS_SIZE t = FS_SIZE s" "altfs_superblock t = Ptr (initial_superblock s)"
    "altfs_makefs True s = (case altfs_create_freelist t of None \<Rightarrow> None | Some (ok, u) \<Rightarrow> Some (ok, u))"
    using makefs_before_freelist [OF assms(1), of True] by (auto simp: altfs_makefs_def)
  have "geometry_ok t" "NUM_OF_DATA_BLOCKS t mod 512 = 0" "initial_superblock t = initial_superblock s"
    using assms t(2)
    by (simp_all add: geometry_ok_def NUM_OF_DATA_BLOCKS_def initial_superblock_def BLOCK_COUNT_def INODE_BLOCK_COUNT_def)
  then show ?thesis using create_freelist_too_many [of t] t by auto
qed

end
