(* ===== verification/Data_Block_Ops.thy ===== *)
theory Data_Block_Ops
  imports Superblock_Layer
begin

text \<open>
  \<open>src/data_block_ops.c\<close>: allocating, reading, writing and freeing data blocks. The lemmas refine
  the two operations on the free list to set operations on the free blocks (\<open>freelist\<close>), and the
  locale \<open>block_allocator\<close> states the contract the file and directory code relies on.
\<close>

section \<open>The operations\<close>

definition take_entry :: "int \<Rightarrow> buf \<times> int \<Rightarrow> (buf \<times> int, unit) ctl option" where
  "take_entry i = (\<lambda>(data_block_numbers, allocated).
     let data_block_number = addr_at data_block_numbers i
     in Some (if data_block_number \<noteq> 0
              then Break (set_addr data_block_numbers i 0, data_block_number)
              else Next (data_block_numbers, allocated)))"

definition allocate_data_block :: "altfs \<Rightarrow> (int \<times> altfs) option" where
  "allocate_data_block s = do {
     sb \<leftarrow> deref (altfs_superblock s);
     if s_freelist_head sb = 0 then Some (-1, s)
     else do {
       (ok, buffer) \<leftarrow> altfs_read_block (s_freelist_head sb) (Some zero_buf) s;
       if \<not> ok then Some (-1, s)
       else do {
         data_block_numbers \<leftarrow> buffer;
         c \<leftarrow> for_loop 1 NUM_OF_ADDRESSES_PER_BLOCK take_entry (data_block_numbers, 0);
         let (_, data_block_numbers, allocated_data_block_number) = finish () c;
         let temp = s_freelist_head sb;
         (ok, data_block_numbers, allocated_data_block_number, s) \<leftarrow>
           (if allocated_data_block_number = 0 then
              (let head = addr_at data_block_numbers 0;
                   data_block_numbers = set_addr data_block_numbers 0 0
               in do {
                 (ok, s) \<leftarrow> altfs_write_superblock (s\<lparr>altfs_superblock := Ptr (sb\<lparr>s_freelist_head := head\<rparr>)\<rparr>);
                 Some (ok, data_block_numbers, temp, s)
               })
            else Some (True, data_block_numbers, allocated_data_block_number, s));
         if \<not> ok then Some (-1, s)
         else do {
           (ok, s) \<leftarrow> altfs_write_block temp (Some data_block_numbers) s;
           if \<not> ok then Some (-1, s)
           else do {
             (_, s) \<leftarrow> altfs_write_block allocated_data_block_number (Some zero_buf) s;
             Some (allocated_data_block_number, s)
           }
         }
       }
     }
   }"

text \<open>The result is a buffer pointer, \<open>None\<close> for NULL. The range checks let \<open>BLOCK_COUNT\<close> itself
  through, as the code does.\<close>

definition data_index_rejected :: "int \<Rightarrow> altfs \<Rightarrow> bool" where
  "data_index_rejected index s \<longleftrightarrow> index \<le> INODE_BLOCK_COUNT s \<or> index > BLOCK_COUNT s"

definition read_data_block :: "int \<Rightarrow> altfs \<Rightarrow> buf option option" where
  "read_data_block index s =
     (if data_index_rejected index s then Some None
      else do {
        (ok, buffer) \<leftarrow> altfs_read_block index (Some zero_buf) s;
        Some (if ok then buffer else None)
      })"

definition write_data_block :: "int \<Rightarrow> buf option \<Rightarrow> altfs \<Rightarrow> (bool \<times> altfs) option" where
  "write_data_block index buffer s =
     (if data_index_rejected index s then Some (False, s) else altfs_write_block index buffer s)"

definition put_entry :: "int \<Rightarrow> int \<Rightarrow> buf \<times> bool \<Rightarrow> (buf \<times> bool, unit) ctl option" where
  "put_entry index i = (\<lambda>(data_block_numbers, added).
     Some (if addr_at data_block_numbers i = 0
           then Break (set_addr data_block_numbers i index, True)
           else Next (data_block_numbers, added)))"

definition free_data_block :: "int \<Rightarrow> altfs \<Rightarrow> (bool \<times> altfs) option" where
  "free_data_block index s =
     (if data_index_rejected index s then Some (False, s)
      else do {
        sb \<leftarrow> deref (altfs_superblock s);
        (ok, sb, s) \<leftarrow>
          (if s_freelist_head sb = 0 then
             (let sb = sb\<lparr>s_freelist_head := index\<rparr>
              in do {
                (ok, s) \<leftarrow> altfs_write_superblock (s\<lparr>altfs_superblock := Ptr sb\<rparr>);
                Some (ok, sb, s)
              })
           else Some (True, sb, s));
        if \<not> ok then Some (False, s)
        else do {
          (ok, buffer) \<leftarrow> altfs_read_block (s_freelist_head sb) (Some zero_buf) s;
          if \<not> ok then Some (False, s)
          else do {
            data_block_numbers \<leftarrow> buffer;
            c \<leftarrow> for_loop 1 NUM_OF_ADDRESSES_PER_BLOCK (put_entry index) (data_block_numbers, False);
            let (_, data_block_numbers, added) = finish () c;
            if \<not> added then
              (let temp = s_freelist_head sb;
                   sb = sb\<lparr>s_freelist_head := index\<rparr>
               in do {
                 (ok, s) \<leftarrow> altfs_write_superblock (s\<lparr>altfs_superblock := Ptr sb\<rparr>);
                 if \<not> ok then Some (False, s)
                 else altfs_write_block index (Some (put_le 8 zero_buf 0 temp)) s
               })
            else altfs_write_block (s_freelist_head sb) (Some data_block_numbers) s
          }
        }
      })"

section \<open>Reading and writing a data block\<close>

lemma read_data_block_run [run]:
  "mounted s \<Longrightarrow> data_block s n \<Longrightarrow> read_data_block n s = Some (Some (disk_block s n))"
  using data_block_valid [of s n]
  by (auto simp: read_data_block_def data_index_rejected_def data_block_def run)

lemma write_data_block_run [run]:
  "mounted s \<Longrightarrow> data_block s n \<Longrightarrow> write_data_block n (Some b) s = Some (True, upd_block s n b)"
  using data_block_valid [of s n]
  by (auto simp: write_data_block_def data_index_rejected_def data_block_def run)

lemma read_data_block_null:
  "\<not> data_block s n \<Longrightarrow> read_data_block n s = Some None"
  by (auto simp: read_data_block_def data_index_rejected_def data_block_def run valid_block_def)

lemma write_data_block_rejects:
  "\<not> data_block s n \<Longrightarrow> write_data_block n (Some b) s = Some (False, s)"
  by (auto simp: write_data_block_def data_index_rejected_def data_block_def run valid_block_def)

section \<open>The scans of a list block\<close>

lemma take_entry_scan:
  "(for_loop 1 512 take_entry (b, 0) = Some (Next (b, 0)) \<and> entries b = [])
   \<or> (\<exists>i. 1 \<le> i \<and> i < 512 \<and> addr_at b i \<noteq> 0 \<and> entries b = addr_at b i # entries (set_addr b i 0)
        \<and> for_loop 1 512 take_entry (b, 0) = Some (Next (set_addr b i 0, addr_at b i)))"
proof -
  define I where "I = (\<lambda>i x. x = (b, 0 :: int) \<and> (\<forall>k. 1 \<le> k \<and> k < i \<longrightarrow> addr_at b k = 0))"
  define Q where "Q = (\<lambda>x. (x = (b, 0) \<and> entries b = []) \<or> (\<exists>i. 1 \<le> i \<and> i < 512 \<and> addr_at b i \<noteq> 0
     \<and> entries b = addr_at b i # entries (set_addr b i 0) \<and> x = (set_addr b i 0, addr_at b i)))"
  have "(\<exists>x. for_loop 1 512 take_entry (b, 0) = Some (Next x) \<and> Q x)
    \<or> (\<exists>r x. for_loop 1 512 take_entry (b, 0) = Some (Return r x) \<and> False)"
  proof (rule for_loop_rule [where I = I and R = "\<lambda>_ _. False"])
    fix i x assume i: "1 \<le> i" "i < (512 :: int)" and I: "I i x"
    show "(\<exists>x'. take_entry i x = Some (Next x') \<and> I (i + 1) x')
        \<or> (\<exists>x'. take_entry i x = Some (Break x') \<and> Q x')
        \<or> (\<exists>r x'. take_entry i x = Some (Return r x') \<and> False)"
    proof (cases "addr_at b i = 0")
      case True
      then have "I (i + 1) (b, 0)"
        using I range_step [of 1 i "\<lambda>k. addr_at b k = 0"] by (simp add: I_def)
      then show ?thesis using I True by (simp add: take_entry_def I_def)
    next
      case False
      then have "Q (set_addr b i 0, addr_at b i)"
        using I i entries_take_first [of i b] by (auto simp: Q_def I_def)
      then show ?thesis using I False by (simp add: take_entry_def I_def)
    qed
  next
    show "Q x" if "I 512 x" for x
      using that entries_empty [of b] by (auto simp: I_def Q_def)
  qed (auto simp: I_def)
  then show ?thesis by (auto simp: Q_def)
qed

lemma put_entry_scan:
  assumes "v \<noteq> 0" "in_ssize v"
  shows "(for_loop 1 512 (put_entry v) (b, False) = Some (Next (b, False))
        \<and> (\<forall>k. 1 \<le> k \<and> k < 512 \<longrightarrow> addr_at b k \<noteq> 0))
   \<or> (\<exists>i xs ys. 1 \<le> i \<and> i < 512 \<and> entries b = xs @ ys \<and> entries (set_addr b i v) = xs @ v # ys
        \<and> for_loop 1 512 (put_entry v) (b, False) = Some (Next (set_addr b i v, True)))"
proof -
  define I where "I = (\<lambda>i x. x = (b, False) \<and> (\<forall>k. 1 \<le> k \<and> k < i \<longrightarrow> addr_at b k \<noteq> 0))"
  define Q where "Q = (\<lambda>x. (x = (b, False) \<and> (\<forall>k. 1 \<le> k \<and> k < 512 \<longrightarrow> addr_at b k \<noteq> 0))
    \<or> (\<exists>i xs ys. 1 \<le> i \<and> i < 512 \<and> entries b = xs @ ys \<and> entries (set_addr b i v) = xs @ v # ys
        \<and> x = (set_addr b i v, True)))"
  have "(\<exists>x. for_loop 1 512 (put_entry v) (b, False) = Some (Next x) \<and> Q x)
    \<or> (\<exists>r x. for_loop 1 512 (put_entry v) (b, False) = Some (Return r x) \<and> False)"
  proof (rule for_loop_rule [where I = I and R = "\<lambda>_ _. False"])
    fix i x assume i: "1 \<le> i" "i < (512 :: int)" and I: "I i x"
    show "(\<exists>x'. put_entry v i x = Some (Next x') \<and> I (i + 1) x')
        \<or> (\<exists>x'. put_entry v i x = Some (Break x') \<and> Q x')
        \<or> (\<exists>r x'. put_entry v i x = Some (Return r x') \<and> False)"
    proof (cases "addr_at b i = 0")
      case False
      then have "I (i + 1) (b, False)"
        using I range_step [of 1 i "\<lambda>k. addr_at b k \<noteq> 0"] by (simp add: I_def)
      then show ?thesis using I False by (simp add: put_entry_def I_def)
    next
      case True
      then have "Q (set_addr b i v, True)"
        using i entries_put [OF i True assms] by (auto simp: Q_def)
      then show ?thesis using I True by (simp add: put_entry_def I_def)
    qed
  next
    show "Q x" if "I 512 x" for x using that by (auto simp: I_def Q_def)
  qed (auto simp: I_def)
  then obtain x where "for_loop 1 512 (put_entry v) (b, False) = Some (Next x)" "Q x" by blast
  then show ?thesis unfolding Q_def by (elim disjE exE conjE) blast+
qed


section \<open>The free list refines a set of free blocks\<close>

text \<open>The superblock keeps its fields but for the head of the free list.\<close>

definition head_only :: "altfs \<Rightarrow> altfs \<Rightarrow> bool" where
  "head_only s t \<longleftrightarrow> (\<exists>sb h. altfs_superblock s = Ptr sb \<and>
     altfs_superblock t = Ptr (sb\<lparr>s_freelist_head := h\<rparr>))"

lemma head_only_refl: "altfs_superblock s = Ptr sb \<Longrightarrow> altfs_superblock t = Ptr sb \<Longrightarrow> head_only s t"
  by (auto simp: head_only_def intro!: exI [of _ sb] exI [of _ "s_freelist_head sb"])

lemma head_only_trans: "head_only s t \<Longrightarrow> head_only t u \<Longrightarrow> head_only s u"
  by (auto simp: head_only_def)

lemma freelistI:
  assumes "mounted s" "altfs_superblock s = Ptr sb" "superblock_ok sb"
    "fl_chain s (s_freelist_head sb) bs" "distinct (fl_blocks s bs)" "set (fl_blocks s bs) = F"
    "\<And>n. n \<in> F \<Longrightarrow> data_block s n"
  shows "freelist s F"
  using assms unfolding freelist_def by blast

lemma freelist_cases:
  assumes "freelist s F"
  obtains (empty) sb where "F = {}" "mounted s" "altfs_superblock s = Ptr sb" "superblock_ok sb"
      "s_freelist_head sb = 0"
  | (list) sb h bs where "mounted s" "altfs_superblock s = Ptr sb" "superblock_ok sb"
      "s_freelist_head sb = h" "h \<noteq> 0" "fl_chain s (addr_at (disk_block s h) 0) bs"
      "distinct (h # entries (disk_block s h) @ fl_blocks s bs)"
      "F = insert h (set (entries (disk_block s h)) \<union> set (fl_blocks s bs))"
      "\<And>n. n \<in> F \<Longrightarrow> data_block s n"
proof -
  from assms obtain sb bs where *: "mounted s" "altfs_superblock s = Ptr sb" "superblock_ok sb"
    "fl_chain s (s_freelist_head sb) bs" "distinct (fl_blocks s bs)" "F = set (fl_blocks s bs)"
    "\<forall>n \<in> F. data_block s n"
    unfolding freelist_def by blast
  show ?thesis
  proof (cases bs)
    case Nil
    with * show ?thesis by (intro empty) auto
  next
    case (Cons h cs)
    with * show ?thesis by (intro list) auto
  qed
qed

text \<open>The rest of the list is untouched where only blocks outside of it change.\<close>

lemma chain_unchanged:
  assumes "only_changes A s t" "A \<inter> set (fl_blocks s bs) = {}"
  shows "fl_chain t h bs = fl_chain s h bs" "fl_blocks t bs = fl_blocks s bs"
proof -
  have "disk_block t n = disk_block s n" if "n \<in> set bs" for n
    using that assms fl_blocks_list_blocks [of bs s] by (intro only_changes_block [OF assms(1)]) auto
  note same = this
  show "fl_chain t h bs = fl_chain s h bs" by (rule fl_chain_cong) (simp add: same)
  show "fl_blocks t bs = fl_blocks s bs" by (rule fl_blocks_cong) (simp add: same)
qed

lemma synced_after:
  assumes "mounted s" "altfs_superblock t = Ptr sb" "superblock_ok sb"
    "disk_block t 0 = put_superblock zero_buf sb"
  shows "superblock_synced t"
  using assms by (simp add: superblock_synced_def mem_simps)

lemma allocate_from_entry:
  assumes m: "mounted s" and sb: "altfs_superblock s = Ptr sb" "s_freelist_head sb = h" "h \<noteq> 0"
    and i: "1 \<le> i" "i < 512" "addr_at (disk_block s h) i \<noteq> 0"
    and scan: "for_loop 1 512 take_entry (disk_block s h, 0)
       = Some (Next (set_addr (disk_block s h) i 0, addr_at (disk_block s h) i))"
    and data: "data_block s h" "data_block s (addr_at (disk_block s h) i)"
  shows "allocate_data_block s = Some (addr_at (disk_block s h) i,
    upd_block (upd_block s h (set_addr (disk_block s h) i 0)) (addr_at (disk_block s h) i) zero_buf)"
  using m sb i data data_block_valid [OF m]
  by (simp add: allocate_data_block_def run scan)

lemma allocate_list_block:
  assumes m: "mounted s" and sb: "altfs_superblock s = Ptr sb" "s_freelist_head sb = h" "h \<noteq> 0"
    and scan: "for_loop 1 512 take_entry (disk_block s h, 0) = Some (Next (disk_block s h, 0))"
    and data: "data_block s h"
  defines "sb' \<equiv> sb\<lparr>s_freelist_head := addr_at (disk_block s h) 0\<rparr>"
  shows "allocate_data_block s = Some (h,
    upd_block (upd_block (sync_superblock (s\<lparr>altfs_superblock := Ptr sb'\<rparr>) sb') h
      (set_addr (disk_block s h) 0 0)) h zero_buf)"
proof -
  have "valid_block s 0" using data_block_valid [OF m data] by (simp add: valid_block_def)
  then show ?thesis
    using m sb data data_block_valid [OF m data]
    by (simp add: allocate_data_block_def run scan sb'_def Let_def)
qed

theorem allocate_data_block_free:
  assumes F: "freelist s F" and ne: "F \<noteq> {}"
  shows "\<exists>n t. allocate_data_block s = Some (n, t) \<and> n \<in> F \<and> freelist t (F - {n})
    \<and> disk_block t n = zero_buf \<and> only_changes (insert 0 F) s t \<and> head_only s t
    \<and> (superblock_synced s \<longrightarrow> superblock_synced t)"
  using F
proof (cases rule: freelist_cases)
  case (empty sb)
  with ne show ?thesis by simp
next
  case (list sb h bs)
  let ?b = "disk_block s h"
  from list have h: "data_block s h" "h \<in> F" "0 < h" using data_block_valid by auto
  consider (none) "for_loop 1 512 take_entry (?b, 0) = Some (Next (?b, 0))" "entries ?b = []"
    | (some) i where "1 \<le> i" "i < 512" "addr_at ?b i \<noteq> 0" "entries ?b = addr_at ?b i # entries (set_addr ?b i 0)"
      "for_loop 1 512 take_entry (?b, 0) = Some (Next (set_addr ?b i 0, addr_at ?b i))"
    using take_entry_scan [of ?b] by blast
  then show ?thesis
  proof cases
    case (some i)
    let ?n = "addr_at ?b i"
    let ?t = "upd_block (upd_block s h (set_addr ?b i 0)) ?n zero_buf"
    have n: "?n \<in> F" "data_block s ?n" using list(8,9) some(4) by auto
    have nh: "?n \<noteq> h" "h \<notin> set (fl_blocks s bs)" "?n \<notin> set (fl_blocks s bs)"
      "?n \<notin> set (entries (set_addr ?b i 0))"
      using list(7) some(4) by auto
    have ch: "only_changes {h, ?n} s ?t"
      by (rule only_changes_trans_same [where t = "upd_block s h (set_addr ?b i 0)"])
        (use list(1) in \<open>simp_all add: only_changes_upd\<close>)
    have "\<forall>n \<in> {h, ?n}. n \<notin> set (fl_blocks s bs)" using nh by simp
    then have rest: "fl_chain ?t h' bs = fl_chain s h' bs" "fl_blocks ?t bs = fl_blocks s bs" for h'
      using chain_unchanged [OF ch, of bs] by auto
    have th: "disk_block ?t h = set_addr ?b i 0" "disk_block ?t ?n = zero_buf"
      using list(1) nh(1) some(1,2) by (simp_all add: mem_simps)
    have "freelist ?t (F - {?n})"
    proof (rule freelistI [where bs = "h # bs"])
      show "fl_chain ?t (s_freelist_head sb) (h # bs)"
        using list some(1,2) by (simp add: th rest addr.get_put)
      show "distinct (fl_blocks ?t (h # bs))" "set (fl_blocks ?t (h # bs)) = F - {?n}"
        using list(7,8) some(4) nh by (auto simp: th rest)
    qed (use list in \<open>simp_all add: only_changes_geometry\<close>)
    moreover have "only_changes (insert 0 F) s ?t"
      by (rule only_changes_mono [OF ch]) (use h n in auto)
    moreover have "superblock_synced ?t" if "superblock_synced s"
      using that h(3) data_block_valid [OF list(1) n(2)] ch
      by (auto simp: superblock_synced_def only_changes_block [OF ch])
    ultimately show ?thesis
      using allocate_from_entry [OF list(1,2,4,5) some(1-3,5) h(1) n(2)] n(1) th(2) list(2)
      by (auto intro: head_only_refl)
  next
    case none
    let ?sb = "sb\<lparr>s_freelist_head := addr_at ?b 0\<rparr>"
    let ?s = "sync_superblock (s\<lparr>altfs_superblock := Ptr ?sb\<rparr>) ?sb"
    let ?t = "upd_block (upd_block ?s h (set_addr ?b 0 0)) h zero_buf"
    have hn: "h \<notin> set (fl_blocks s bs)" using list(7) by simp
    have "0 \<notin> F" using list(9) data_block_valid [OF list(1), of 0] by auto
    then have zn: "0 \<notin> set (fl_blocks s bs)" using list(8) by auto
    have ch: "only_changes {0, h} s ?t"
      using list(1) h(3) by (auto simp: only_changes_def mem_simps)
    have rest: "fl_chain ?t h' bs = fl_chain s h' bs" "fl_blocks ?t bs = fl_blocks s bs" for h'
      using chain_unchanged [OF ch, of bs] hn zn by auto
    have ok: "superblock_ok ?sb" using list(3) by (simp add: superblock_ok_def)
    have "freelist ?t (F - {h})"
    proof (rule freelistI [where bs = bs])
      show "fl_chain ?t (s_freelist_head ?sb) bs" using list by (simp add: rest)
      show "distinct (fl_blocks ?t bs)" "set (fl_blocks ?t bs) = F - {h}"
        using list(7,8) none(2) hn by (auto simp: rest)
      show "altfs_superblock ?t = Ptr ?sb" by simp
    qed (use list ok in simp_all)
    moreover have "only_changes (insert 0 F) s ?t"
      by (rule only_changes_mono [OF ch]) (use h in auto)
    moreover have "superblock_synced ?t"
      using ok h(3) list(1) by (intro synced_after [of ?s]) (simp_all add: mem_simps)
    moreover have "disk_block ?t h = zero_buf" using list(1) by (simp add: mem_simps)
    moreover have "head_only s ?t" using list(2) by (auto simp: head_only_def)
    ultimately show ?thesis
      using allocate_list_block [OF list(1,2,4,5) none(1) h(1)] h(2) by auto
  qed
qed


lemma allocate_data_block_exhausted:
  assumes "freelist s {}"
  shows "allocate_data_block s = Some (-1, s)"
  using assms
proof (cases rule: freelist_cases)
  case (empty sb)
  then show ?thesis by (simp add: allocate_data_block_def)
qed simp

lemma data_index_accepted: "data_block s n \<Longrightarrow> \<not> data_index_rejected n s"
  by (simp add: data_block_def data_index_rejected_def)

theorem free_data_block_free:
  assumes F: "freelist s F" and ne: "F \<noteq> {}" and n: "data_block s n" "n \<notin> F"
  shows "\<exists>t. free_data_block n s = Some (True, t) \<and> freelist t (insert n F)
    \<and> only_changes (insert 0 (insert n F)) s t \<and> head_only s t
    \<and> (superblock_synced s \<longrightarrow> superblock_synced t)"
  using F
proof (cases rule: freelist_cases)
  case (empty sb)
  with ne show ?thesis by simp
next
  case (list sb h bs)
  let ?b = "disk_block s h"
  from list have h: "data_block s h" "h \<in> F" "valid_block s h" "0 < h" using data_block_valid by auto
  have n0: "valid_block s n" "0 < n" using data_block_valid [OF list(1) n(1)] by auto
  have ns: "in_ssize n" "in_ssize h" using in_ssize_valid_block [OF list(1)] n0(1) h(3) by auto
  have acc: "\<not> data_index_rejected n s" by (rule data_index_accepted [OF n(1)])
  have nh: "n \<noteq> h" "n \<notin> set (fl_blocks s bs)" "n \<notin> set (entries ?b)" "h \<notin> set (fl_blocks s bs)"
    using n(2) list(7,8) by auto
  consider (full) "for_loop 1 512 (put_entry n) (?b, False) = Some (Next (?b, False))"
    | (room) i xs ys where "1 \<le> i" "i < 512" "entries ?b = xs @ ys" "entries (set_addr ?b i n) = xs @ n # ys"
      "for_loop 1 512 (put_entry n) (?b, False) = Some (Next (set_addr ?b i n, True))"
    using put_entry_scan [of n ?b] n0(2) ns(1) by blast
  then show ?thesis
  proof cases
    case (room i xs ys)
    let ?t = "upd_block s h (set_addr ?b i n)"
    have ch: "only_changes {h} s ?t" using list(1) by (simp add: only_changes_upd)
    have rest: "fl_chain ?t h' bs = fl_chain s h' bs" "fl_blocks ?t bs = fl_blocks s bs" for h'
      using chain_unchanged [OF ch, of bs] nh by auto
    have th: "disk_block ?t h = set_addr ?b i n" using list(1) room(1,2) by (simp add: mem_simps)
    have "freelist ?t (insert n F)"
    proof (rule freelistI [where bs = "h # bs"])
      show "fl_chain ?t (s_freelist_head sb) (h # bs)"
        using list room(1,2) ns(1) by (simp add: th rest addr.get_put)
      show "distinct (fl_blocks ?t (h # bs))" "set (fl_blocks ?t (h # bs)) = insert n F"
        using list(7,8) room(3,4) nh by (auto simp: th rest)
    qed (use list n in \<open>auto simp: only_changes_geometry\<close>)
    moreover have "free_data_block n s = Some (True, ?t)"
      using list h acc by (simp add: free_data_block_def run room(5))
    moreover have "superblock_synced ?t" if "superblock_synced s"
      using that h(4) by (auto simp: superblock_synced_def only_changes_block [OF ch])
    ultimately show ?thesis
      using ch h(2) list(2) by (auto intro: only_changes_mono head_only_refl)
  next
    case full
    let ?sb = "sb\<lparr>s_freelist_head := n\<rparr>"
    let ?s = "sync_superblock (s\<lparr>altfs_superblock := Ptr ?sb\<rparr>) ?sb"
    let ?t = "upd_block ?s n (set_addr zero_buf 0 h)"
    have "0 \<notin> F" using list(9) data_block_valid [OF list(1), of 0] by auto
    then have zn: "0 \<notin> set (h # fl_blocks s bs)" "0 \<notin> set (fl_blocks s (h # bs))" using list(8) by auto
    have ch: "only_changes {0, n} s ?t"
      using list(1) n0 by (auto simp: only_changes_def mem_simps)
    have rest: "fl_chain ?t h' bs = fl_chain s h' bs" "fl_blocks ?t bs = fl_blocks s bs" for h'
      using chain_unchanged [OF ch, of bs] nh zn by auto
    have th: "disk_block ?t h = ?b" using nh(1) h(4) by (intro only_changes_block [OF ch]) auto
    have tn: "addr_at (disk_block ?t n) 0 = h" "entries (disk_block ?t n) = []"
      using list(1) ns(2) by (simp_all add: mem_simps entries_set_zero)
    have ok: "superblock_ok ?sb" using list(3) ns(1) by (simp add: superblock_ok_def)
    have "freelist ?t (insert n F)"
    proof (rule freelistI [where bs = "n # h # bs"])
      have "fl_chain ?t n (n # h # bs)"
        using list(5,6) n0(2) by (simp only: fl_chain.simps tn th rest) simp
      then show "fl_chain ?t (s_freelist_head ?sb) (n # h # bs)" by simp
      have "fl_blocks ?t (n # h # bs) = n # h # entries ?b @ fl_blocks s bs"
        by (simp only: fl_blocks.simps tn th rest append_Nil)
      then show "distinct (fl_blocks ?t (n # h # bs))" "set (fl_blocks ?t (n # h # bs)) = insert n F"
        using list(7,8) nh by auto
      show "altfs_superblock ?t = Ptr ?sb" by simp
    qed (use list ok n in auto)
    moreover have "free_data_block n s = Some (True, ?t)"
      using list h acc n0 data_block_valid [OF list(1) n(1)]
      by (simp add: free_data_block_def run full Let_def set_addr_def valid_block_def del: put_le.simps)
    moreover have "superblock_synced ?t"
      using ok n0(2) list(1) by (intro synced_after [of ?s]) (simp_all add: mem_simps)
    moreover have "head_only s ?t" using list(2) by (auto simp: head_only_def)
    ultimately show ?thesis using ch by (auto intro: only_changes_mono)
  qed
qed


text \<open>The free list does not depend on blocks outside of it, nor on the other superblock fields.\<close>

lemma freelist_unaffected:
  assumes "freelist s F" "only_changes A s t" "A \<inter> F = {}"
    and "altfs_superblock s = Ptr sb" "altfs_superblock t = Ptr sb'" "superblock_ok sb'"
    and "s_freelist_head sb' = s_freelist_head sb"
  shows "freelist t F"
proof -
  from assms(1,4) obtain bs where bs: "mounted s" "fl_chain s (s_freelist_head sb) bs"
    "distinct (fl_blocks s bs)" "F = set (fl_blocks s bs)" "\<forall>n \<in> F. data_block s n"
    unfolding freelist_def by auto
  note same = chain_unchanged [OF assms(2) assms(3) [unfolded bs(4)]]
  show ?thesis
    by (rule freelistI [where sb = sb' and bs = bs])
      (use bs same assms(5-7) in \<open>simp_all add: only_changes_geometry [OF assms(2)]\<close>)
qed

lemma freelist_not_inode_block: "freelist s F \<Longrightarrow> n \<in> F \<Longrightarrow> \<not> inode_block s n \<and> n \<noteq> 0"
  using data_block_valid [of s n] by (auto simp: freelist_def dest: data_block_not_inode)

section \<open>The contract of the allocator\<close>

text \<open>Allocating a number of blocks one after the other.\<close>

primrec alloc_many :: "('s \<Rightarrow> (int \<times> 's) option) \<Rightarrow> nat \<Rightarrow> 's \<Rightarrow> (int list \<times> 's) option" where
  "alloc_many alloc 0 s = Some ([], s)"
| "alloc_many alloc (Suc k) s = do {
     (n, s) \<leftarrow> alloc s;
     (ns, s) \<leftarrow> alloc_many alloc k s;
     Some (n # ns, s)
   }"

locale block_allocator =
  fixes alloc :: "'s \<Rightarrow> (int \<times> 's) option"
    and free :: "int \<Rightarrow> 's \<Rightarrow> (bool \<times> 's) option"
    and free_set :: "'s \<Rightarrow> int set \<Rightarrow> bool"
    and usable :: "'s \<Rightarrow> int \<Rightarrow> bool"
  assumes alloc_takes: "free_set s F \<Longrightarrow> F \<noteq> {} \<Longrightarrow>
      \<exists>n t. alloc s = Some (n, t) \<and> n \<in> F \<and> free_set t (F - {n}) \<and> usable t = usable s"
    and alloc_empty: "free_set s {} \<Longrightarrow> alloc s = Some (-1, s)"
    and free_gives: "free_set s F \<Longrightarrow> F \<noteq> {} \<Longrightarrow> usable s n \<Longrightarrow> n \<notin> F \<Longrightarrow>
      \<exists>t. free n s = Some (True, t) \<and> free_set t (insert n F) \<and> usable t = usable s"
    and free_usable: "free_set s F \<Longrightarrow> n \<in> F \<Longrightarrow> usable s n"
    and free_set_unique: "free_set s F \<Longrightarrow> free_set s G \<Longrightarrow> F = G"
    and free_set_finite: "free_set s F \<Longrightarrow> finite F"
begin

lemma alloc_twice:
  assumes "free_set s F" "2 \<le> card F"
  shows "\<exists>n t m u. alloc s = Some (n, t) \<and> alloc t = Some (m, u) \<and> n \<noteq> m \<and> {n, m} \<subseteq> F
    \<and> free_set u (F - {n, m})"
proof -
  have "F \<noteq> {}" using assms(2) by auto
  then obtain n t where n: "alloc s = Some (n, t)" "n \<in> F" "free_set t (F - {n})"
    using alloc_takes assms(1) by blast
  have "F - {n} \<noteq> {}"
    using assms n(2) free_set_finite by (metis One_nat_def Suc_1 card.empty card_Suc_Diff1 not_less_eq_eq le_refl zero_le)
  then obtain m u where "alloc t = Some (m, u)" "m \<in> F - {n}" "free_set u (F - {n} - {m})"
    using alloc_takes n(3) by blast
  moreover have "F - {n} - {m} = F - {n, m}" by blast
  ultimately show ?thesis using n by auto
qed

text \<open>Giving back what was allocated restores the set of free blocks.\<close>

lemma alloc_free:
  assumes "free_set s F" "2 \<le> card F"
  shows "\<exists>n t u. alloc s = Some (n, t) \<and> free n t = Some (True, u) \<and> free_set u F"
proof -
  obtain n t m u where n: "alloc s = Some (n, t)" "n \<in> F" "m \<in> F" "n \<noteq> m"
    using alloc_twice [OF assms] by blast
  have "F \<noteq> {}" using n(2) by blast
  then have t: "free_set t (F - {n})" "usable t = usable s"
    using alloc_takes [OF assms(1)] n(1) by auto
  moreover have "F - {n} \<noteq> {}" using n(3,4) by blast
  ultimately obtain u where "free n t = Some (True, u)" "free_set u (insert n (F - {n}))"
    using free_gives [of t "F - {n}" n] free_usable [OF assms(1) n(2)] by auto
  then show ?thesis using n(1,2) by (auto simp: insert_absorb)
qed

lemma alloc_many_takes:
  "free_set s F \<Longrightarrow> k \<le> card F \<Longrightarrow>
   \<exists>ns t. alloc_many alloc k s = Some (ns, t) \<and> length ns = k \<and> distinct ns \<and> set ns \<subseteq> F
     \<and> free_set t (F - set ns)"
proof (induction k arbitrary: s F)
  case (Suc k)
  then have "F \<noteq> {}" by auto
  then obtain n t where n: "alloc s = Some (n, t)" "n \<in> F" "free_set t (F - {n})"
    using alloc_takes [OF Suc.prems(1)] by blast
  have "k \<le> card (F - {n})"
    using Suc.prems n(2) free_set_finite [OF Suc.prems(1)] by (simp add: card_Diff_singleton)
  then obtain ns u where "alloc_many alloc k t = Some (ns, u)" "length ns = k" "distinct ns"
    "set ns \<subseteq> F - {n}" "free_set u (F - {n} - set ns)"
    using Suc.IH [OF n(3)] by blast
  then show ?case using n by (auto simp: Diff_insert2 [symmetric])
qed simp

text \<open>After as many allocations as there are free blocks the next one is refused.\<close>

lemma alloc_exhausts:
  assumes "free_set s F"
  shows "\<exists>ns t. alloc_many alloc (card F) s = Some (ns, t) \<and> set ns = F \<and> alloc t = Some (-1, t)"
proof -
  obtain ns t where ns: "alloc_many alloc (card F) s = Some (ns, t)" "length ns = card F" "distinct ns"
    "set ns \<subseteq> F" "free_set t (F - set ns)"
    using alloc_many_takes [OF assms order_refl] by blast
  then have "set ns = F"
    using free_set_finite [OF assms] by (metis card_subset_eq distinct_card)
  then show ?thesis using ns alloc_empty by auto
qed

end

lemma only_changes_data_block: "only_changes A s t \<Longrightarrow> data_block t = data_block s"
  by (rule ext) (rule only_changes_geometry(3))

interpretation data_blocks: block_allocator allocate_data_block free_data_block freelist data_block
proof unfold_locales
  fix s F assume "freelist s F" "F \<noteq> {}"
  then obtain n t where "allocate_data_block s = Some (n, t)" "n \<in> F" "freelist t (F - {n})"
    "only_changes (insert 0 F) s t"
    using allocate_data_block_free by blast
  then show "\<exists>n t. allocate_data_block s = Some (n, t) \<and> n \<in> F \<and> freelist t (F - {n}) \<and> data_block t = data_block s"
    using only_changes_data_block by blast
next
  fix s F n assume "freelist s F" "F \<noteq> {}" "data_block s n" "n \<notin> F"
  then obtain t where "free_data_block n s = Some (True, t)" "freelist t (insert n F)"
    "only_changes (insert 0 (insert n F)) s t"
    using free_data_block_free by blast
  then show "\<exists>t. free_data_block n s = Some (True, t) \<and> freelist t (insert n F) \<and> data_block t = data_block s"
    using only_changes_data_block by blast
qed (erule allocate_data_block_exhausted | erule (1) freelist_data_block | erule (1) freelist_unique | erule finite_freelist)+

section \<open>Freeing a block when no block is free\<close>

text \<open>With an empty list the freed block becomes the list block, with the contents it had as a block
  of a file, and is entered in itself. It is then handed out twice.\<close>

definition freed_into_empty :: "altfs \<Rightarrow> superblock \<Rightarrow> int \<Rightarrow> altfs" where
  "freed_into_empty s sb n = (let sb' = sb\<lparr>s_freelist_head := n\<rparr> in
     upd_block (sync_superblock (s\<lparr>altfs_superblock := Ptr sb'\<rparr>) sb') n (set_addr (disk_block s n) 1 n))"

lemma free_into_empty_run:
  assumes F: "freelist s {}" "altfs_superblock s = Ptr sb" and n: "data_block s n" "addr_at (disk_block s n) 1 = 0"
  shows "free_data_block n s = Some (True, freed_into_empty s sb n)"
proof -
  have sb: "s_freelist_head sb = 0" "mounted s"
    using F(2) freelist_cases [OF F(1)] by (metis cptr.inject insert_not_empty)+
  have v: "valid_block s n" "0 < n" using data_block_valid [OF sb(2) n(1)] by auto
  then have v0: "valid_block s 0" by (simp add: valid_block_def)
  have "for_loop 1 512 (put_entry n) (disk_block s n, False) = Some (Next (set_addr (disk_block s n) 1 n, True))"
    using n(2) by (simp add: for_loop_step put_entry_def)
  then show ?thesis
    using F(2) sb v v0 data_index_accepted [OF n(1)]
    by (simp add: free_data_block_def freed_into_empty_def run Let_def mem_simps)
qed

lemma allocate_after_free_into_empty:
  assumes F: "freelist s {}" "altfs_superblock s = Ptr sb" and n: "data_block s n" "addr_at (disk_block s n) 1 = 0"
  shows "\<exists>t u. allocate_data_block (freed_into_empty s sb n) = Some (n, t) \<and> allocate_data_block t = Some (n, u)"
proof -
  let ?f = "freed_into_empty s sb n" and ?sb = "sb\<lparr>s_freelist_head := n\<rparr>"
  have m: "mounted s" using F(1) by (rule freelist_mounted)
  have v: "valid_block s n" "0 < n" "in_ssize n"
    using data_block_valid [OF m n(1)] in_ssize_valid_block [OF m] by auto
  have f: "mounted ?f" "altfs_superblock ?f = Ptr ?sb" "data_block ?f n" "valid_block ?f n"
    "disk_block ?f n = set_addr (disk_block s n) 1 n"
    using m v n(1) by (simp_all add: freed_into_empty_def Let_def mem_simps)
  have e: "addr_at (disk_block ?f n) 1 = n" using v(3) f(5) by (simp add: addr.get_put)
  then have "for_loop 1 512 take_entry (disk_block ?f n, 0) = Some (Next (set_addr (disk_block ?f n) 1 0, n))"
    using v(2) by (simp add: for_loop_step take_entry_def Let_def)
  then have 1: "allocate_data_block ?f = Some (n, upd_block (upd_block ?f n (set_addr (disk_block ?f n) 1 0)) n zero_buf)"
    using allocate_from_entry [OF f(1,2), of n 1] e f(3) v(2) by simp
  let ?t = "upd_block (upd_block ?f n (set_addr (disk_block ?f n) 1 0)) n zero_buf"
  have t: "mounted ?t" "altfs_superblock ?t = Ptr ?sb" "disk_block ?t n = zero_buf" "data_block ?t n"
    using f by (simp_all add: mem_simps)
  have "for_loop 1 512 take_entry (zero_buf, 0) = Some (Next (zero_buf, 0))"
    using take_entry_scan [of zero_buf] by auto
  then have "\<exists>u. allocate_data_block ?t = Some (n, u)"
    using allocate_list_block [OF t(1,2), of n] t(3,4) v(2) by simp
  then show ?thesis using 1 by blast
qed

text \<open>A block number just after the end of the disk passes the range check, and becomes the head of
  the free list where that is empty.\<close>

lemma free_past_the_end:
  assumes F: "freelist s {}" "altfs_superblock s = Ptr sb" and g: "geometry_ok s"
  shows "\<exists>t. free_data_block (BLOCK_COUNT s) s = Some (False, t)
    \<and> altfs_superblock t = Ptr (sb\<lparr>s_freelist_head := BLOCK_COUNT s\<rparr>)"
proof -
  have sb: "s_freelist_head sb = 0" "mounted s"
    using F(2) freelist_cases [OF F(1)] by (metis cptr.inject insert_not_empty)+
  have "\<not> data_index_rejected (BLOCK_COUNT s) s" "\<not> valid_block s (BLOCK_COUNT s)"
    using geometry_bounds(3) [OF g] by (simp_all add: data_index_rejected_def valid_block_def)
  then show ?thesis
    using F(2) sb geometry_valid_0 [OF g] by (simp add: free_data_block_def run Let_def)
qed

end
