(* ===== verification/Inode_Ops.thy ===== *)
theory Inode_Ops
  imports Data_Block_Ops
begin

text \<open>
  \<open>src/inode_ops.c\<close>: the inode table (allocating, reading, writing and freeing inodes), the
  release of the blocks of a file and the translation of a logical block of a file to a block of
  the disk. The inode table is the array \<open>inode_of\<close>; the operations on it are proved against
  updates of one element of that array.
\<close>

section \<open>The inode table\<close>

definition is_valid_inode_number :: "int \<Rightarrow> altfs \<Rightarrow> bool option" where
  "is_valid_inode_number inum s = do {
     sb \<leftarrow> deref (altfs_superblock s);
     Some (inum \<ge> 0 \<and> inum < s_inodes_count sb)
   }"

text \<open>A division by zero is undefined.\<close>

definition inum_to_block_pos :: "int \<Rightarrow> altfs \<Rightarrow> (int \<times> int) option" where
  "inum_to_block_pos inum s = do {
     sb \<leftarrow> deref (altfs_superblock s);
     let tmp = s_num_of_inodes_per_block sb;
     if tmp = 0 then None else Some (1 + c_div inum tmp, c_mod inum tmp)
   }"

text \<open>The search for the next inode that is not allocated: the inner loop over one block counts
  the inodes it visits, the outer loop goes to the next block. The result is the value of
  \<open>visited\<close> at the inode found.\<close>

definition scan_inode_block :: "buf \<Rightarrow> int \<Rightarrow> int \<Rightarrow> int \<Rightarrow> (int, bool) ctl option" where
  "scan_inode_block b per_block offset visited =
     for_loop offset per_block
       (\<lambda>offset visited. do {
          node \<leftarrow> node_get b offset;
          let visited = visited + 1;
          Some (if \<not> i_allocated node then Return True visited else Next visited)
        }) visited"

function search_next_inode :: "int \<Rightarrow> int \<Rightarrow> altfs \<Rightarrow> int \<Rightarrow> int \<Rightarrow> int \<Rightarrow> buf \<Rightarrow> int option option" where
  "search_next_inode inodes_left per_block s visited offset block_num b =
     (if visited = inodes_left then Some None
      else do {
        c \<leftarrow> scan_inode_block b per_block offset visited;
        let (found, visited) = finish False c;
        if found then Some (Some visited)
        else if block_num + 1 > INODE_BLOCK_COUNT s then Some None
        else do {
          (ok, buffer) \<leftarrow> altfs_read_block (block_num + 1) (Some b) s;
          if \<not> ok then Some None
          else do {
            b \<leftarrow> buffer;
            search_next_inode inodes_left per_block s visited 0 (block_num + 1) b
          }
        }
      })"
  by pat_completeness auto
termination
  by (relation "measure (\<lambda>(_, _, s, _, _, block_num, _). nat (INODE_BLOCK_COUNT s + 1 - block_num))") auto

declare search_next_inode.simps [simp del]

definition allocate_inode :: "altfs \<Rightarrow> (int \<times> altfs) option" where
  "allocate_inode s = do {
     sb \<leftarrow> deref (altfs_superblock s);
     let inum_to_allocate = s_first_ino sb;
     if inum_to_allocate = s_inodes_count sb then Some (-1, s)
     else do {
       valid \<leftarrow> is_valid_inode_number inum_to_allocate s;
       if \<not> valid then Some (-1, s)
       else do {
         (block_num, offset) \<leftarrow> inum_to_block_pos inum_to_allocate s;
         (ok, buffer) \<leftarrow> altfs_read_block block_num (Some zero_buf) s;
         if \<not> ok then Some (-1, s)
         else do {
           b \<leftarrow> buffer;
           node \<leftarrow> node_get b offset;
           if i_allocated node then Some (-1, s)
           else do {
             b \<leftarrow> node_put b offset (node\<lparr>i_allocated := True, i_links_count := 0\<rparr>);
             (ok, s) \<leftarrow> altfs_write_block block_num (Some b) s;
             if \<not> ok then Some (-1, s)
             else do {
               let inodes_left = s_inodes_count sb - inum_to_allocate + 1;
               found \<leftarrow> search_next_inode inodes_left (s_num_of_inodes_per_block sb) s 0 (offset + 1) block_num b;
               let first_ino = (case found of
                   Some visited \<Rightarrow> inum_to_allocate + visited
                 | None \<Rightarrow> s_inodes_count sb);
               (_, s) \<leftarrow> altfs_write_superblock (s\<lparr>altfs_superblock := Ptr (sb\<lparr>s_first_ino := first_ino\<rparr>)\<rparr>);
               Some (inum_to_allocate, s)
             }
           }
         }
       }
     }
   }"

text \<open>The result of \<open>get_inode\<close> is a pointer, \<open>None\<close> for NULL.\<close>

definition get_inode :: "int \<Rightarrow> altfs \<Rightarrow> inode option option" where
  "get_inode inum s = do {
     valid \<leftarrow> is_valid_inode_number inum s;
     if \<not> valid then Some None
     else do {
       (block_num, offset) \<leftarrow> inum_to_block_pos inum s;
       (ok, buffer) \<leftarrow> altfs_read_block block_num (Some zero_buf) s;
       if \<not> ok then Some None
       else do {
         b \<leftarrow> buffer;
         node \<leftarrow> node_get b offset;
         Some (Some node)
       }
     }
   }"

definition write_inode :: "int \<Rightarrow> inode \<Rightarrow> altfs \<Rightarrow> (bool \<times> altfs) option" where
  "write_inode inum node s = do {
     valid \<leftarrow> is_valid_inode_number inum s;
     if \<not> valid then Some (False, s)
     else do {
       (block_num, offset) \<leftarrow> inum_to_block_pos inum s;
       (ok, buffer) \<leftarrow> altfs_read_block block_num (Some zero_buf) s;
       if \<not> ok then Some (False, s)
       else do {
         b \<leftarrow> buffer;
         b \<leftarrow> node_put b offset node;
         altfs_write_block block_num (Some b) s
       }
     }
   }"

section \<open>Releasing the blocks of a file\<close>

text \<open>\<open>indirection\<close> is 1, 2 or 3 in the calls of the program.\<close>

primrec free_indirect_blocks :: "nat \<Rightarrow> int \<Rightarrow> altfs \<Rightarrow> (bool \<times> altfs) option" where
  "free_indirect_blocks 0 i_block_num s = None"
| "free_indirect_blocks (Suc n) i_block_num s = do {
     (ok, buffer) \<leftarrow> altfs_read_block i_block_num (Some zero_buf) s;
     if \<not> ok then Some (False, s)
     else do {
       data_blocks \<leftarrow> buffer;
       c \<leftarrow> for_loop 0 NUM_OF_ADDRESSES_PER_BLOCK
         (\<lambda>i s. let block_num = addr_at data_blocks i in
            if block_num = 0 then Some (Break s)
            else do {
              (ok, s) \<leftarrow> (if n = 0 then free_data_block block_num s else free_indirect_blocks n block_num s);
              Some (if ok then Next s else Return False s)
            }) s;
       case c of
         Return r s \<Rightarrow> Some (r, s)
       | Next s \<Rightarrow> free_data_block i_block_num s
       | Break s \<Rightarrow> free_data_block i_block_num s
     }
   }"

definition free_direct_blocks :: "inode \<Rightarrow> altfs \<Rightarrow> (altfs, bool) ctl option" where
  "free_direct_blocks node s =
     for_loop 0 NUM_OF_DIRECT_BLOCKS
       (\<lambda>i s. let block_num = i_direct_blocks node ! nat i in
          if block_num \<noteq> 0 then do {
            (ok, s) \<leftarrow> free_data_block block_num s;
            Some (if ok then Next s else Return False s)
          }
          else Some (Break s)) s"

definition free_data_blocks_in_inode :: "inode \<Rightarrow> altfs \<Rightarrow> (bool \<times> altfs) option" where
  "free_data_blocks_in_inode node s = do {
     c \<leftarrow> free_direct_blocks node s;
     let (ok, s) = finish True c;
     if \<not> ok then Some (False, s)
     else do {
       (ok, s) \<leftarrow> (if i_single_indirect node \<noteq> 0 then free_indirect_blocks 1 (i_single_indirect node) s
                   else Some (True, s));
       if \<not> ok then Some (False, s)
       else do {
         (ok, s) \<leftarrow> (if i_double_indirect node \<noteq> 0 then free_indirect_blocks 2 (i_double_indirect node) s
                     else Some (True, s));
         if \<not> ok then Some (False, s)
         else if i_triple_indirect node \<noteq> 0 then free_indirect_blocks 3 (i_triple_indirect node) s
         else Some (True, s)
       }
     }
   }"

text \<open>The inode after \<open>free_inode\<close> has reset its fields.\<close>

definition cleared_inode :: "inode \<Rightarrow> inode" where
  "cleared_inode node = node\<lparr>i_mode := 0, i_uid := 0, i_gid := 0, i_status_change_time := 0,
     i_atime := 0, i_ctime := 0, i_mtime := 0, i_links_count := 0, i_file_size := 0,
     i_blocks_num := 0, i_allocated := False, i_direct_blocks := replicate 12 0,
     i_single_indirect := 0, i_double_indirect := 0, i_triple_indirect := 0, i_child_num := 0\<rparr>"

definition free_inode :: "int \<Rightarrow> altfs \<Rightarrow> (bool \<times> altfs) option" where
  "free_inode inum s = do {
     valid \<leftarrow> is_valid_inode_number inum s;
     if \<not> valid then Some (False, s)
     else do {
       (block_num, offset) \<leftarrow> inum_to_block_pos inum s;
       (ok, buffer) \<leftarrow> altfs_read_block block_num (Some zero_buf) s;
       if \<not> ok then Some (False, s)
       else do {
         b \<leftarrow> buffer;
         node \<leftarrow> node_get b offset;
         (ok, s) \<leftarrow> free_data_blocks_in_inode node s;
         if \<not> ok then Some (False, s)
         else do {
           b \<leftarrow> node_put b offset (cleared_inode node);
           (ok, s) \<leftarrow> altfs_write_block block_num (Some b) s;
           if \<not> ok then Some (False, s)
           else do {
             sb \<leftarrow> deref (altfs_superblock s);
             let sb = sb\<lparr>s_first_ino := min inum (s_first_ino sb)\<rparr>;
             (_, s) \<leftarrow> altfs_write_superblock (s\<lparr>altfs_superblock := Ptr sb\<rparr>);
             Some (True, s)
           }
         }
       }
     }
   }"

section \<open>Logical blocks\<close>

definition NUM_OF_SINGLE_INDIRECT_BLOCK_ADDR :: int where
  [simp]: "NUM_OF_SINGLE_INDIRECT_BLOCK_ADDR = BLOCK_SIZE div ADDRESS_SIZE"

definition NUM_OF_DOUBLE_INDIRECT_BLOCK_ADDR :: int where
  [simp]: "NUM_OF_DOUBLE_INDIRECT_BLOCK_ADDR =
     NUM_OF_SINGLE_INDIRECT_BLOCK_ADDR * NUM_OF_SINGLE_INDIRECT_BLOCK_ADDR"

definition NUM_OF_TRIPLE_INDIRECT_BLOCK_ADDR :: int where
  [simp]: "NUM_OF_TRIPLE_INDIRECT_BLOCK_ADDR =
     NUM_OF_DOUBLE_INDIRECT_BLOCK_ADDR * NUM_OF_SINGLE_INDIRECT_BLOCK_ADDR"

text \<open>\<open>((ssize_t* )read_data_block(n))[i]\<close>, the buffer released afterwards.\<close>

definition read_addr :: "int \<Rightarrow> int \<Rightarrow> altfs \<Rightarrow> int option" where
  "read_addr n i s = do {
     p \<leftarrow> read_data_block n s;
     b \<leftarrow> p;
     arr_get b i
   }"

definition direct_get :: "inode \<Rightarrow> int \<Rightarrow> int option" where
  "direct_get node i =
     (if 0 \<le> i \<and> i < int (length (i_direct_blocks node)) then Some (i_direct_blocks node ! nat i) else None)"

text \<open>The result is the block number and the new value of \<open>*prev_indirect_block\<close>.\<close>

definition get_double_indirect :: "inode \<Rightarrow> int \<Rightarrow> int \<Rightarrow> altfs \<Rightarrow> (int \<times> int) option" where
  "get_double_indirect node logical_block_num prev s =
     (if i_double_indirect node = 0 then Some (-1, prev)
      else let double_i_idx = c_div logical_block_num NUM_OF_ADDRESSES_PER_BLOCK;
               inner_idx = c_mod logical_block_num NUM_OF_ADDRESSES_PER_BLOCK
           in if inner_idx \<noteq> 0 \<and> prev \<noteq> 0 then do {
                n \<leftarrow> read_addr prev inner_idx s;
                Some (n, prev)
              }
              else do {
                n \<leftarrow> read_addr (i_double_indirect node) double_i_idx s;
                if n \<le> 0 then Some (-1, prev)
                else do {
                  m \<leftarrow> read_addr n inner_idx s;
                  Some (m, n)
                }
              })"

definition get_triple_indirect :: "inode \<Rightarrow> int \<Rightarrow> int \<Rightarrow> altfs \<Rightarrow> (int \<times> int) option" where
  "get_triple_indirect node logical_block_num prev s =
     (if i_triple_indirect node = 0 then Some (-1, prev)
      else let triple_i_idx = c_div logical_block_num NUM_OF_DOUBLE_INDIRECT_BLOCK_ADDR;
               double_i_idx = c_mod (c_div logical_block_num NUM_OF_ADDRESSES_PER_BLOCK) NUM_OF_ADDRESSES_PER_BLOCK;
               inner_idx = c_mod logical_block_num NUM_OF_ADDRESSES_PER_BLOCK
           in if inner_idx \<noteq> 0 \<and> prev \<noteq> 0 then do {
                n \<leftarrow> read_addr prev inner_idx s;
                Some (n, prev)
              }
              else do {
                n \<leftarrow> read_addr (i_triple_indirect node) triple_i_idx s;
                if n \<le> 0 then Some (-1, prev)
                else do {
                  m \<leftarrow> read_addr n double_i_idx s;
                  if m \<le> 0 then Some (-1, prev)
                  else do {
                    d \<leftarrow> read_addr m inner_idx s;
                    Some (d, m)
                  }
                }
              })"

definition get_disk_block_from_inode_block :: "inode \<Rightarrow> int \<Rightarrow> int \<Rightarrow> altfs \<Rightarrow> (int \<times> int) option" where
  "get_disk_block_from_inode_block node logical_block_num prev s =
     (if logical_block_num > i_blocks_num node then Some (-1, prev)
      else if logical_block_num < NUM_OF_DIRECT_BLOCKS then do {
        n \<leftarrow> direct_get node logical_block_num;
        Some (n, prev)
      }
      else let logical_block_num = logical_block_num - NUM_OF_DIRECT_BLOCKS in
        if logical_block_num < NUM_OF_SINGLE_INDIRECT_BLOCK_ADDR then
          (if i_single_indirect node = 0 then Some (-1, prev)
           else do {
             n \<leftarrow> read_addr (i_single_indirect node) logical_block_num s;
             Some (n, prev)
           })
        else let logical_block_num = logical_block_num - NUM_OF_SINGLE_INDIRECT_BLOCK_ADDR in
          if logical_block_num < NUM_OF_DOUBLE_INDIRECT_BLOCK_ADDR then
            get_double_indirect node logical_block_num prev s
          else get_triple_indirect node (logical_block_num - NUM_OF_DOUBLE_INDIRECT_BLOCK_ADDR) prev s)"

end
