(* ===== verification/Inode_Table.thy ===== *)
theory Inode_Table
  imports Inode_Ops
begin

text \<open>
  The inode blocks as one array of inodes. \<open>get_inode\<close>, \<open>write_inode\<close> and \<open>allocate_inode\<close> are
  proved against it; \<open>inode_table_inv\<close> says that \<open>s_first_ino\<close> is the least inode from 3 on that
  is not allocated. The locale \<open>inode_store\<close> is the contract of the table for its clients.
\<close>

definition inode_of :: "altfs \<Rightarrow> int \<Rightarrow> inode" where
  "inode_of s k = inode_at (disk_block s (1 + k div 18)) (k mod 18)"

definition upd_inode :: "altfs \<Rightarrow> int \<Rightarrow> inode \<Rightarrow> altfs" where
  "upd_inode s k nd = upd_block s (1 + k div 18) (put_inode (disk_block s (1 + k div 18)) (k mod 18) nd)"

definition inum_ok :: "altfs \<Rightarrow> int \<Rightarrow> bool" where
  "inum_ok s k \<longleftrightarrow> 0 \<le> k \<and> k < INODE_BLOCK_COUNT s * 18"

definition table_sb :: "altfs \<Rightarrow> superblock \<Rightarrow> bool" where
  "table_sb s sb \<longleftrightarrow> altfs_superblock s = Ptr sb \<and> superblock_ok sb
     \<and> s_num_of_inodes_per_block sb = 18 \<and> s_inodes_count sb = INODE_BLOCK_COUNT s * 18"

definition table_ready :: "altfs \<Rightarrow> bool" where
  "table_ready s \<longleftrightarrow> mounted s \<and> geometry_ok s \<and> (\<exists>sb. table_sb s sb)"

lemma div_mod_18_eq: "1 + j div 18 = 1 + k div 18 \<Longrightarrow> j mod 18 = k mod 18 \<Longrightarrow> j = (k :: int)"
  by (metis add_left_cancel mult_div_mod_eq)

lemma inode_of_upd_inode [mem_simps]:
  "mounted s \<Longrightarrow> inode_ok nd \<Longrightarrow> inode_of (upd_inode s k nd) j = (if j = k then nd else inode_of s j)"
  unfolding inode_of_def upd_inode_def
  using div_mod_18_eq [of j k] by (auto simp: inodes.get_disk_put)

lemma inode_of_cong:
  "disk_block t (1 + k div 18) = disk_block s (1 + k div 18) \<Longrightarrow> inode_of t k = inode_of s k"
  by (simp add: inode_of_def)

lemma inode_ok_inode_of [simp]: "inode_ok (inode_of s k)"
  by (simp add: inode_of_def)

lemma upd_inode_fields [simp]:
  "altfs_superblock (upd_inode s k nd) = altfs_superblock s"
  "FS_SIZE (upd_inode s k nd) = FS_SIZE s"
  "mounted (upd_inode s k nd) = mounted s"
  "geometry_ok (upd_inode s k nd) = geometry_ok s"
  "INODE_BLOCK_COUNT (upd_inode s k nd) = INODE_BLOCK_COUNT s"
  "BLOCK_COUNT (upd_inode s k nd) = BLOCK_COUNT s"
  "data_block (upd_inode s k nd) n = data_block s n"
  "inode_block (upd_inode s k nd) n = inode_block s n"
  "inum_ok (upd_inode s k nd) j = inum_ok s j"
  by (simp_all add: upd_inode_def inum_ok_def)

lemma upd_inode_table [simp]:
  "table_sb (upd_inode s k nd) sb = table_sb s sb" "table_ready (upd_inode s k nd) = table_ready s"
  by (simp_all add: table_sb_def table_ready_def)

lemma inum_block:
  assumes "inum_ok s k"
  shows "inode_block s (1 + k div 18)"
proof -
  have "k div 18 < INODE_BLOCK_COUNT s" "0 \<le> k div 18"
    using assms by (auto simp: inum_ok_def pos_imp_zdiv_nonneg_iff div_less_iff_less_mult)
  then show ?thesis by (simp add: inode_block_def)
qed

lemma disk_block_upd_inode [mem_simps]:
  "mounted s \<Longrightarrow> n \<noteq> 1 + k div 18 \<Longrightarrow> disk_block (upd_inode s k nd) n = disk_block s n"
  by (simp add: upd_inode_def mem_simps)

lemma only_changes_upd_inode:
  "mounted s \<Longrightarrow> inum_ok s k \<Longrightarrow> only_changes {n. inode_block s n} s (upd_inode s k nd)"
  using inum_block [of s k] by (simp add: upd_inode_def only_changes_upd)

lemma valid_inode_run [run]:
  "table_sb s sb \<Longrightarrow> is_valid_inode_number k s = Some (inum_ok s k)"
  by (simp add: is_valid_inode_number_def table_sb_def inum_ok_def)

lemma inum_to_block_pos_run [run]:
  "table_sb s sb \<Longrightarrow> inum_ok s k \<Longrightarrow> inum_to_block_pos k s = Some (1 + k div 18, k mod 18)"
  by (simp add: inum_to_block_pos_def table_sb_def inum_ok_def)

lemma get_inode_run [run]:
  assumes "table_ready s" "inum_ok s k"
  shows "get_inode k s = Some (Some (inode_of s k))"
proof -
  obtain sb where sb: "table_sb s sb" "mounted s" "geometry_ok s"
    using assms(1) by (auto simp: table_ready_def)
  then show ?thesis
    using inode_block_valid [OF sb(3) inum_block [OF assms(2)]] assms(2)
    by (simp add: get_inode_def run inode_of_def)
qed

lemma get_inode_invalid [run]: "table_ready s \<Longrightarrow> \<not> inum_ok s k \<Longrightarrow> get_inode k s = Some None"
  by (auto simp: get_inode_def table_ready_def run)

lemma write_inode_run [run]:
  assumes "table_ready s" "inum_ok s k"
  shows "write_inode k nd s = Some (True, upd_inode s k nd)"
proof -
  obtain sb where sb: "table_sb s sb" "mounted s" "geometry_ok s"
    using assms(1) by (auto simp: table_ready_def)
  then show ?thesis
    using inode_block_valid [OF sb(3) inum_block [OF assms(2)]] assms(2)
    by (simp add: write_inode_def run upd_inode_def)
qed

lemma write_inode_invalid [run]:
  "table_ready s \<Longrightarrow> \<not> inum_ok s k \<Longrightarrow> write_inode k nd s = Some (False, s)"
  by (auto simp: write_inode_def table_ready_def run)

section \<open>Searching for a free inode\<close>

lemma scan_inode_block_run:
  assumes "0 \<le> off" "off \<le> 18"
  shows "(\<exists>k. off \<le> k \<and> k < 18 \<and> \<not> i_allocated (inode_at b k)
      \<and> (\<forall>j. off \<le> j \<and> j < k \<longrightarrow> i_allocated (inode_at b j))
      \<and> scan_inode_block b 18 off v = Some (Return True (v + k - off + 1)))
    \<or> ((\<forall>j. off \<le> j \<and> j < 18 \<longrightarrow> i_allocated (inode_at b j))
      \<and> scan_inode_block b 18 off v = Some (Next (v + 18 - off)))"
proof -
  let ?body = "\<lambda>offset visited. do {
          node \<leftarrow> node_get b offset;
          let visited = visited + 1;
          Some (if \<not> i_allocated node then Return True visited else Next visited)
        } :: (int, bool) ctl option"
  define I where "I = (\<lambda>i w. w = v + i - off \<and> (\<forall>j. off \<le> j \<and> j < i \<longrightarrow> i_allocated (inode_at b j)))"
  define R where "R = (\<lambda>r w. \<exists>k. off \<le> k \<and> k < 18 \<and> \<not> i_allocated (inode_at b k)
      \<and> (\<forall>j. off \<le> j \<and> j < k \<longrightarrow> i_allocated (inode_at b j)) \<and> r \<and> w = v + k - off + 1)"
  have "(\<exists>w. for_loop off 18 ?body v = Some (Next w) \<and> I 18 w)
      \<or> (\<exists>r w. for_loop off 18 ?body v = Some (Return r w) \<and> R r w)"
  proof (rule for_loop_rule [where I = I])
    fix i w assume i: "off \<le> i" "i < 18" and I: "I i w"
    show "(\<exists>w'. ?body i w = Some (Next w') \<and> I (i + 1) w') \<or> (\<exists>w'. ?body i w = Some (Break w') \<and> I 18 w')
        \<or> (\<exists>r w'. ?body i w = Some (Return r w') \<and> R r w')"
    proof (cases "i_allocated (inode_at b i)")
      case True
      then have "I (i + 1) (w + 1)" using I range_step [of off i "\<lambda>j. i_allocated (inode_at b j)"]
        by (simp add: I_def)
      then show ?thesis using True assms i by (simp add: run)
    next
      case False
      then have "R True (w + 1)" using I i by (auto simp: I_def R_def intro!: exI [of _ i])
      then show ?thesis using False assms i by (simp add: run) blast
    qed
  qed (use assms in \<open>auto simp: I_def\<close>)
  then show ?thesis by (auto simp: scan_inode_block_def I_def R_def)
qed

text \<open>The first inode from number \<open>m\<close> on that is not allocated; \<open>None\<close> if there is none.\<close>

definition next_free :: "altfs \<Rightarrow> int \<Rightarrow> int option \<Rightarrow> bool" where
  "next_free s m r \<longleftrightarrow> (case r of
     Some k \<Rightarrow> m \<le> k \<and> inum_ok s k \<and> \<not> i_allocated (inode_of s k)
       \<and> (\<forall>j. m \<le> j \<and> j < k \<longrightarrow> i_allocated (inode_of s j))
   | None \<Rightarrow> \<forall>j. m \<le> j \<and> inum_ok s j \<longrightarrow> i_allocated (inode_of s j))"

lemma inode_of_mult:
  "0 \<le> off \<Longrightarrow> off < 18 \<Longrightarrow> inode_of s (m * 18 + off) = inode_at (disk_block s (1 + m)) off"
  by (simp add: inode_of_def)

lemma inode_of_pos:
  "0 \<le> off \<Longrightarrow> off < 18 \<Longrightarrow> inode_of s ((n - 1) * 18 + off) = inode_at (disk_block s n) off"
  using inode_of_mult [of off s "n - 1"] by simp

lemma search_next_inode_run:
  assumes "mounted s" "geometry_ok s" "inode_block s n" "0 \<le> off" "off \<le> 18"
    and b: "\<And>k. 0 \<le> k \<Longrightarrow> k < 18 \<Longrightarrow> inode_at b k = inode_at (disk_block s n) k"
    and pos: "inum + 1 + v = (n - 1) * 18 + off"
  shows "\<exists>r. search_next_inode (INODE_BLOCK_COUNT s * 18 - inum + 1) 18 s v off n b
      = Some (map_option (\<lambda>k. k - inum) r) \<and> next_free s ((n - 1) * 18 + off) r"
  using assms(3-)
proof (induction "nat (INODE_BLOCK_COUNT s - n)" arbitrary: n off b v rule: less_induct)
  case (less n off b v)
  let ?left = "INODE_BLOCK_COUNT s * 18 - inum + 1"
  let ?m = "(n - 1) * 18"
  have n: "1 \<le> n" "n \<le> INODE_BLOCK_COUNT s" using less.prems(1) by (auto simp: inode_block_def)
  have alloc: "i_allocated (inode_of s (?m + j)) = i_allocated (inode_at b j)" if "0 \<le> j" "j < 18" for j
    using less.prems(4) [OF that] by (simp only: inode_of_pos [OF that])
  have "v < ?left" using less.prems(3,5) n by (simp add: algebra_simps)
  then have v: "v \<noteq> ?left" by simp
  consider (found) k where "off \<le> k" "k < 18" "\<not> i_allocated (inode_at b k)"
      "\<And>j. off \<le> j \<and> j < k \<Longrightarrow> i_allocated (inode_at b j)"
      "scan_inode_block b 18 off v = Some (Return True (v + k - off + 1))"
    | (all) "\<And>j. off \<le> j \<and> j < 18 \<Longrightarrow> i_allocated (inode_at b j)"
      "scan_inode_block b 18 off v = Some (Next (v + 18 - off))"
    using scan_inode_block_run [OF less.prems(2,3), of b v] by blast
  then show ?case
  proof cases
    case found
    have "inum_ok s (?m + k)" using n found(1,2) less.prems(2) by (simp add: inum_ok_def)
    moreover have "i_allocated (inode_of s j)" if "?m + off \<le> j" "j < ?m + k" for j
      using that alloc [of "j - ?m"] found(2) found(4) [of "j - ?m"] less.prems(2) by simp
    ultimately have "next_free s (?m + off) (Some (?m + k))"
      using found alloc [of k] less.prems(2) by (simp add: next_free_def)
    moreover have "search_next_inode ?left 18 s v off n b = Some (Some (?m + k - inum))"
      using found(5) v less.prems(5) by (subst search_next_inode.simps) (simp add: algebra_simps)
    ultimately show ?thesis by (intro exI [of _ "Some (?m + k)"]) simp
  next
    case all
    have here: "i_allocated (inode_of s j)" if "?m + off \<le> j" "j < n * 18" for j
      using that alloc [of "j - ?m"] all(1) [of "j - ?m"] less.prems(2) by (simp add: algebra_simps)
    show ?thesis
    proof (cases "n = INODE_BLOCK_COUNT s")
      case True
      then have "next_free s (?m + off) None" using here by (simp add: next_free_def inum_ok_def)
      moreover have "search_next_inode ?left 18 s v off n b = Some None"
        using all(2) v True by (subst search_next_inode.simps) simp
      ultimately show ?thesis by (intro exI [of _ None]) simp
    next
      case False
      then have "inode_block s (n + 1)" "n < INODE_BLOCK_COUNT s" using n by (auto simp: inode_block_def)
      moreover have "inum + 1 + (v + 18 - off) = (n + 1 - 1) * 18 + 0" using less.prems(5) by simp
      ultimately obtain r where r: "search_next_inode ?left 18 s (v + 18 - off) 0 (n + 1) (disk_block s (n + 1))
          = Some (map_option (\<lambda>k. k - inum) r)" "next_free s ((n + 1 - 1) * 18 + 0) r"
        using less.hyps [of "n + 1" 0 "disk_block s (n + 1)" "v + 18 - off"] by auto
      have "next_free s (?m + off) r"
        using r(2) here less.prems(2,3) by (cases r) (fastforce simp: next_free_def)+
      moreover have "search_next_inode ?left 18 s v off n b = Some (map_option (\<lambda>k. k - inum) r)"
        using all(2) v r(1) \<open>n < INODE_BLOCK_COUNT s\<close>
          inode_block_valid [OF assms(2) \<open>inode_block s (n + 1)\<close>] assms(1)
        by (subst search_next_inode.simps) (simp add: run)
      ultimately show ?thesis by blast
    qed
  qed
qed


section \<open>Allocating an inode\<close>

definition first_free :: "superblock \<Rightarrow> int option" where
  "first_free sb = (if s_first_ino sb = s_inodes_count sb then None else Some (s_first_ino sb))"

text \<open>Inodes 0 to 2 are reserved; \<open>s_first_ino\<close> is the least other inode that is not allocated.\<close>

definition inode_table_inv :: "altfs \<Rightarrow> bool" where
  "inode_table_inv s \<longleftrightarrow> mounted s \<and> geometry_ok s \<and>
     (\<exists>sb. table_sb s sb \<and> next_free s 3 (first_free sb))"

lemma inode_table_inv_ready: "inode_table_inv s \<Longrightarrow> table_ready s"
  by (auto simp: inode_table_inv_def table_ready_def)

lemma inode_of_sync [mem_simps]:
  "mounted s \<Longrightarrow> 0 \<le> k \<Longrightarrow> inode_of (sync_superblock s sb) k = inode_of s k"
  by (rule inode_of_cong) (use pos_imp_zdiv_nonneg_iff [of 18 k] in \<open>simp add: mem_simps\<close>)

lemma inode_of_superblock [simp]: "inode_of (s\<lparr>altfs_superblock := p\<rparr>) k = inode_of s k"
  by (simp add: inode_of_def)

lemma inum_ok_simps [simp]:
  "inum_ok (s\<lparr>altfs_superblock := p\<rparr>) k = inum_ok s k"
  "inum_ok (sync_superblock s sb) k = inum_ok s k"
  by (simp_all add: inum_ok_def)

lemma inum_ok_nonneg: "inum_ok s k \<Longrightarrow> 0 \<le> k"
  by (simp add: inum_ok_def)

lemma next_free_cong:
  assumes "0 \<le> m" "\<And>k. inum_ok t k = inum_ok s k"
    and "\<And>k. 0 \<le> k \<Longrightarrow> i_allocated (inode_of t k) = i_allocated (inode_of s k)"
  shows "next_free t m r = next_free s m r"
  using assms by (auto simp: next_free_def inum_ok_def split: option.split)

lemma next_free_extend:
  assumes "next_free s (k + 1) r" "m \<le> k" "\<And>j. m \<le> j \<Longrightarrow> j \<le> k \<Longrightarrow> i_allocated (inode_of s j)"
  shows "next_free s m r"
proof (cases r)
  case None
  have "i_allocated (inode_of s j)" if "m \<le> j" "inum_ok s j" for j
    using that assms None by (cases "j \<le> k") (auto simp: next_free_def)
  then show ?thesis by (simp add: next_free_def None)
next
  case (Some x)
  have "i_allocated (inode_of s j)" if "m \<le> j" "j < x" for j
    using that assms Some by (cases "j \<le> k") (auto simp: next_free_def)
  then show ?thesis using assms Some by (auto simp: next_free_def)
qed

text \<open>The state after inode \<open>k\<close> is marked and the next free one is recorded.\<close>

definition take_inode :: "altfs \<Rightarrow> superblock \<Rightarrow> int \<Rightarrow> int \<Rightarrow> altfs" where
  "take_inode s sb k first =
     (let t = upd_inode s k ((inode_of s k)\<lparr>i_allocated := True, i_links_count := 0\<rparr>);
          sb' = sb\<lparr>s_first_ino := first\<rparr>
      in sync_superblock (t\<lparr>altfs_superblock := Ptr sb'\<rparr>) sb')"

lemma inode_ok_mark [simp]:
  "inode_ok nd \<Longrightarrow> inode_ok (nd\<lparr>i_allocated := a, i_links_count := 0\<rparr>)"
  by (simp add: inode_ok_def)

lemma allocate_inode_run:
  assumes "mounted s" "geometry_ok s" "table_sb s sb" "inum_ok s k" "s_first_ino sb = k"
    "\<not> i_allocated (inode_of s k)"
  shows "\<exists>r. allocate_inode s = Some (k, take_inode s sb k (case r of Some x \<Rightarrow> x | None \<Rightarrow> s_inodes_count sb))
    \<and> next_free (upd_inode s k ((inode_of s k)\<lparr>i_allocated := True, i_links_count := 0\<rparr>)) (k + 1) r"
proof -
  let ?nd = "(inode_of s k)\<lparr>i_allocated := True, i_links_count := 0\<rparr>"
  let ?n = "1 + k div 18" and ?off = "k mod 18"
  let ?b = "put_inode (disk_block s ?n) ?off ?nd"
  let ?t = "upd_inode s k ?nd"
  have n: "inode_block s ?n" by (rule inum_block [OF assms(4)])
  then have v: "valid_block s ?n" "valid_block s 0"
    using inode_block_valid geometry_valid_0 assms(2) by auto
  have sb: "altfs_superblock s = Ptr sb" "s_num_of_inodes_per_block sb = 18"
    "s_inodes_count sb = INODE_BLOCK_COUNT s * 18"
    using assms(3) by (simp_all add: table_sb_def)
  have b: "inode_at ?b j = inode_at (disk_block ?t ?n) j" if "0 \<le> j" "j < 18" for j
    using that assms(1) by (simp add: upd_inode_def mem_simps inodes.get_clip)
  have pos: "k + 1 + 0 = (?n - 1) * 18 + (?off + 1)" by simp
  obtain r where r: "search_next_inode (INODE_BLOCK_COUNT ?t * 18 - k + 1) 18 ?t 0 (?off + 1) ?n ?b
      = Some (map_option (\<lambda>x. x - k) r)" "next_free ?t ((?n - 1) * 18 + (?off + 1)) r"
    using search_next_inode_run [of ?t ?n "?off + 1" ?b k 0] assms(1,2) n b pos
    by (auto simp: zless_imp_add1_zle)
  have "next_free ?t (k + 1) r" using r(2) pos by (simp only: add_0_right)
  moreover have "allocate_inode s
    = Some (k, take_inode s sb k (case r of Some x \<Rightarrow> x | None \<Rightarrow> s_inodes_count sb))"
    using assms sb v r(1)
    by (cases r) (simp_all add: allocate_inode_def run inum_ok_def inode_of_def upd_inode_def
        take_inode_def Let_def)
  ultimately show ?thesis by blast
qed

lemma take_inode_facts:
  assumes "mounted s" "inum_ok s k"
  defines "nd \<equiv> (inode_of s k)\<lparr>i_allocated := True, i_links_count := 0\<rparr>"
  shows "inode_of (take_inode s sb k f) k = nd"
    and "\<And>j. 0 \<le> j \<Longrightarrow> j \<noteq> k \<Longrightarrow> inode_of (take_inode s sb k f) j = inode_of s j"
    and "only_changes {n. n = 0 \<or> inode_block s n} s (take_inode s sb k f)"
    and "altfs_superblock (take_inode s sb k f) = Ptr (sb\<lparr>s_first_ino := f\<rparr>)"
    and "superblock_ok (sb\<lparr>s_first_ino := f\<rparr>) \<Longrightarrow> superblock_synced (take_inode s sb k f)"
proof -
  show "only_changes {n. n = 0 \<or> inode_block s n} s (take_inode s sb k f)"
    using assms(1) inum_block [OF assms(2)]
    by (auto simp: only_changes_def take_inode_def Let_def mem_simps upd_inode_def)
qed (use assms inum_ok_nonneg [OF assms(2)] in
    \<open>auto simp: take_inode_def Let_def mem_simps intro: superblock_synced_sync\<close>)

theorem allocate_inode_free:
  assumes inv: "inode_table_inv s" and sb: "altfs_superblock s = Ptr sb"
    and k: "first_free sb = Some k"
  shows "\<exists>t. allocate_inode s = Some (k, t) \<and> inum_ok s k \<and> \<not> i_allocated (inode_of s k)
    \<and> inode_of t k = (inode_of s k)\<lparr>i_allocated := True, i_links_count := 0\<rparr>
    \<and> (\<forall>j. 0 \<le> j \<and> j \<noteq> k \<longrightarrow> inode_of t j = inode_of s j)
    \<and> inode_table_inv t \<and> superblock_synced t
    \<and> only_changes {n. n = 0 \<or> inode_block s n} s t
    \<and> (\<exists>f. altfs_superblock t = Ptr (sb\<lparr>s_first_ino := f\<rparr>))"
proof -
  from inv sb have m: "mounted s" "geometry_ok s" "table_sb s sb" "next_free s 3 (Some k)"
    using k by (auto simp: inode_table_inv_def table_sb_def)
  then have ki: "3 \<le> k" "inum_ok s k" "\<not> i_allocated (inode_of s k)" "s_first_ino sb = k"
    and below: "\<And>j. 3 \<le> j \<Longrightarrow> j < k \<Longrightarrow> i_allocated (inode_of s j)"
    using k by (auto simp: next_free_def first_free_def split: if_splits)
  let ?nd = "(inode_of s k)\<lparr>i_allocated := True, i_links_count := 0\<rparr>"
  obtain r where r: "allocate_inode s = Some (k, take_inode s sb k (case r of Some x \<Rightarrow> x | None \<Rightarrow> s_inodes_count sb))"
    "next_free (upd_inode s k ?nd) (k + 1) r"
    using allocate_inode_run [OF m(1-3) ki(2,4,3)] by blast
  define f where "f = (case r of Some x \<Rightarrow> x | None \<Rightarrow> s_inodes_count sb)"
  let ?t = "take_inode s sb k f"
  have cnt: "s_inodes_count sb = INODE_BLOCK_COUNT s * 18" "superblock_ok sb"
    using m(3) by (simp_all add: table_sb_def)
  have x: "3 \<le> f \<and> f \<le> s_inodes_count sb" "first_free (sb\<lparr>s_first_ino := f\<rparr>) = r"
    using r(2) ki(1,2) by (auto simp: f_def next_free_def first_free_def inum_ok_def cnt split: option.splits)
  then have ok: "superblock_ok (sb\<lparr>s_first_ino := f\<rparr>)"
    using cnt(2) by (auto simp: superblock_ok_def in_ssize_def)
  note facts = take_inode_facts [OF m(1) ki(2), where sb = sb and f = f]
  have same: "i_allocated (inode_of ?t j) = i_allocated (inode_of (upd_inode s k ?nd) j)" if "0 \<le> j" for j
    using that facts(1,2) m(1) by (cases "j = k") (simp_all add: mem_simps)
  have "next_free (upd_inode s k ?nd) 3 r"
    by (rule next_free_extend [OF r(2)]) (use ki(1) below m(1) in \<open>auto simp: mem_simps\<close>)
  then have "next_free ?t 3 r"
    using same by (subst next_free_cong [where s = "upd_inode s k ?nd"])
      (simp_all add: take_inode_def Let_def)
  moreover have "table_sb ?t (sb\<lparr>s_first_ino := f\<rparr>)"
    using m(3) ok facts(4) only_changes_geometry(2) [OF facts(3)] by (simp add: table_sb_def)
  ultimately have "inode_table_inv ?t"
    using m(1,2) x(2) only_changes_geometry [OF facts(3)] by (auto simp: inode_table_inv_def)
  then show ?thesis using r(1) facts ki ok by (auto simp: f_def [symmetric])
qed

lemma allocate_inode_full:
  assumes "altfs_superblock s = Ptr sb" "first_free sb = None"
  shows "allocate_inode s = Some (-1, s)"
  using assms by (simp add: allocate_inode_def first_free_def split: if_splits)


section \<open>The contract of the inode table\<close>

text \<open>What the directory and file code relies on: reads give what was last written under the same
  number, writes touch no other inode, and numbers out of range are refused without any effect.\<close>

locale inode_store =
  fixes get :: "int \<Rightarrow> 's \<Rightarrow> 'n option option"
    and wr :: "int \<Rightarrow> 'n \<Rightarrow> 's \<Rightarrow> (bool \<times> 's) option"
    and ready :: "'s \<Rightarrow> bool"
    and valid :: "'s \<Rightarrow> int \<Rightarrow> bool"
    and tbl :: "'s \<Rightarrow> int \<Rightarrow> 'n"
    and ok :: "'n \<Rightarrow> bool"
  assumes get_valid: "ready s \<Longrightarrow> valid s k \<Longrightarrow> get k s = Some (Some (tbl s k))"
    and get_invalid: "ready s \<Longrightarrow> \<not> valid s k \<Longrightarrow> get k s = Some None"
    and wr_valid: "ready s \<Longrightarrow> valid s k \<Longrightarrow> ok nd \<Longrightarrow>
      \<exists>t. wr k nd s = Some (True, t) \<and> ready t \<and> (\<forall>j. valid t j = valid s j)
        \<and> (\<forall>j. valid s j \<longrightarrow> tbl t j = (if j = k then nd else tbl s j))"
    and wr_invalid: "ready s \<Longrightarrow> \<not> valid s k \<Longrightarrow> wr k nd s = Some (False, s)"
begin

lemma wr_get:
  assumes "ready s" "valid s k" "ok nd" "wr k nd s = Some (r, t)" "valid s j"
  shows "r \<and> get j t = Some (Some (if j = k then nd else tbl s j))"
  using wr_valid [OF assms(1-3)] assms(4,5) get_valid [of t j] by auto

lemma wr_ready:
  assumes "ready s" "ok nd" "wr k nd s = Some (r, t)"
  shows "ready t \<and> (\<forall>j. valid t j = valid s j)"
  using wr_valid [of s k nd] wr_invalid [of s k nd] assms by (cases "valid s k") auto

text \<open>Two inodes can be written in either order.\<close>

lemma wr_wr_commute:
  assumes s: "ready s" "valid s j" "valid s k" "j \<noteq> k" "ok x" "ok y"
    and "wr j x s = Some (r1, t1)" "wr k y t1 = Some (r2, t2)"
    and "wr k y s = Some (q1, u1)" "wr j x u1 = Some (q2, u2)" and "valid s i"
  shows "tbl t2 i = tbl u2 i"
proof -
  have t1: "ready t1" "\<And>i. valid t1 i = valid s i" "\<And>i. valid s i \<Longrightarrow> tbl t1 i = (if i = j then x else tbl s i)"
    using wr_valid [OF s(1,2,5)] assms(7) by auto
  have u1: "ready u1" "\<And>i. valid u1 i = valid s i" "\<And>i. valid s i \<Longrightarrow> tbl u1 i = (if i = k then y else tbl s i)"
    using wr_valid [OF s(1,3,6)] assms(9) by auto
  have "tbl t2 i = (if i = k then y else tbl t1 i)"
    using wr_valid [of t1 k y] t1 s(3,6) assms(8,11) by auto
  moreover have "tbl u2 i = (if i = j then x else tbl u1 i)"
    using wr_valid [of u1 j x] u1 s(2,5) assms(10,11) by auto
  ultimately show ?thesis using t1(3) u1(3) assms(4,11) by auto
qed

text \<open>The second of two writes to an inode wins.\<close>

lemma wr_wr_same:
  assumes "ready s" "valid s k" "ok x" "ok y" "wr k x s = Some (r1, t)" "wr k y t = Some (r2, u)" "valid s i"
  shows "tbl u i = (if i = k then y else tbl s i)"
  using wr_valid [OF assms(1-3)] wr_valid [of t k y] assms(2,4-7) by auto

end

interpretation inode_table: inode_store get_inode write_inode table_ready inum_ok inode_of inode_ok
proof unfold_locales
  fix s k nd
  assume "table_ready s" "inum_ok s k" "inode_ok nd"
  then show "\<exists>t. write_inode k nd s = Some (True, t) \<and> table_ready t \<and> (\<forall>j. inum_ok t j = inum_ok s j)
      \<and> (\<forall>j. inum_ok s j \<longrightarrow> inode_of t j = (if j = k then nd else inode_of s j))"
    by (auto simp: run mem_simps table_ready_def)
qed (simp_all add: run)

end
