(* ===== verification/Block_Release.thy ===== *)
theory Block_Release
  imports Inode_Table
begin

text \<open>
  Releasing the blocks of a file (\<open>free_indirect_blocks\<close>, \<open>free_data_blocks_in_inode\<close>,
  \<open>free_inode\<close> of \<open>src/inode_ops.c\<close>). The blocks below an indirect block form a tree;
  \<open>tree_blocks\<close> lists them. The result is that exactly these blocks join the free ones: no block
  of the file is lost and none is freed twice.
\<close>

definition children :: "altfs \<Rightarrow> int \<Rightarrow> int list" where
  "children s b = takeWhile (\<lambda>a. a \<noteq> 0) (map (addr_at (disk_block s b)) [0..511])"

primrec tree_blocks :: "altfs \<Rightarrow> nat \<Rightarrow> int \<Rightarrow> int list" where
  "tree_blocks s 0 b = [b]"
| "tree_blocks s (Suc n) b = concat (map (tree_blocks s n) (children s b)) @ [b]"

lemma tree_root: "b \<in> set (tree_blocks s n b)"
  by (cases n) auto

lemma children_cong: "disk_block t b = disk_block s b \<Longrightarrow> children t b = children s b"
  by (simp add: children_def)

lemma tree_blocks_cong:
  "(\<And>x. x \<in> set (tree_blocks s n b) \<Longrightarrow> disk_block t x = disk_block s x) \<Longrightarrow>
   tree_blocks t n b = tree_blocks s n b"
proof (induction n arbitrary: b)
  case (Suc n)
  then have "children t b = children s b" by (intro children_cong) simp
  moreover have "tree_blocks t n c = tree_blocks s n c" if "c \<in> set (children s b)" for c
    using that Suc.prems by (intro Suc.IH) auto
  ultimately show ?case by (simp cong: map_cong)
qed simp

lemma children_length: "length (children s b) \<le> 512"
  using length_takeWhile_le [of _ "map (addr_at (disk_block s b)) [0..511]"] by (simp add: children_def)

lemma children_nth:
  assumes "0 \<le> i" "i < int (length (children s b))"
  shows "children s b ! nat i = addr_at (disk_block s b) i" "addr_at (disk_block s b) i \<noteq> 0"
proof -
  have "nat i < length (children s b)" "nat i < 512"
    using assms children_length [of s b] by auto
  then show "children s b ! nat i = addr_at (disk_block s b) i"
    using assms(1) by (simp add: children_def takeWhile_nth nth_upto)
  moreover have "children s b ! nat i \<in> set (children s b)"
    using \<open>nat i < length (children s b)\<close> by simp
  then have "children s b ! nat i \<noteq> 0" by (auto simp: children_def dest: set_takeWhileD)
  ultimately show "addr_at (disk_block s b) i \<noteq> 0" by simp
qed

lemma children_end:
  assumes "length (children s b) < 512"
  shows "addr_at (disk_block s b) (int (length (children s b))) = 0"
  using nth_length_takeWhile [of "\<lambda>a. a \<noteq> 0" "map (addr_at (disk_block s b)) [0..511]"] assms
  by (simp add: children_def [symmetric] nth_upto)

section \<open>Freeing a set of blocks\<close>

text \<open>\<open>freed s F xs t\<close>: from \<open>s\<close>, where the blocks in \<open>F\<close> are free, to \<open>t\<close> the blocks \<open>xs\<close> have
  been freed and nothing else happened.\<close>

definition freed :: "altfs \<Rightarrow> int set \<Rightarrow> int list \<Rightarrow> altfs \<Rightarrow> bool" where
  "freed s F xs t \<longleftrightarrow> freelist t (F \<union> set xs) \<and> only_changes (insert 0 (F \<union> set xs)) s t
     \<and> head_only s t \<and> (superblock_synced s \<longrightarrow> superblock_synced t)"

text \<open>Blocks in use that can be freed one after the other.\<close>

definition releasable :: "altfs \<Rightarrow> int set \<Rightarrow> int list \<Rightarrow> bool" where
  "releasable s F xs \<longleftrightarrow> distinct xs \<and> set xs \<inter> F = {} \<and> (\<forall>x \<in> set xs. data_block s x)"

lemma releasable_append:
  "releasable s F (xs @ ys) \<longleftrightarrow> releasable s F xs \<and> releasable s (F \<union> set xs) ys"
  by (auto simp: releasable_def)

lemma freed_refl: "freelist s F \<Longrightarrow> freed s F [] s"
  by (auto simp: freed_def freelist_def intro: head_only_refl)

lemma freed_trans:
  assumes "freed s F xs t" "freed t (F \<union> set xs) ys u"
  shows "freed s F (xs @ ys) u"
proof -
  have "only_changes (insert 0 (F \<union> set (xs @ ys))) s u"
    by (rule only_changes_trans_same [where t = t];
        rule only_changes_mono) (use assms in \<open>auto simp: freed_def\<close>)
  then show ?thesis using assms by (auto simp: freed_def Un_assoc intro: head_only_trans)
qed

lemma freed_block:
  assumes "freed s F xs t" "x \<notin> F" "x \<notin> set xs" "x \<noteq> 0"
  shows "disk_block t x = disk_block s x"
  using assms by (auto simp: freed_def only_changes_def)

lemma freed_geometry:
  assumes "freed s F xs t"
  shows "data_block t n = data_block s n" "mounted t = mounted s" "geometry_ok t = geometry_ok s"
    "valid_block t n = valid_block s n" "INODE_BLOCK_COUNT t = INODE_BLOCK_COUNT s"
  using assms only_changes_geometry by (auto simp: freed_def)

lemma releasable_cong: "freed s F xs t \<Longrightarrow> releasable t G ys = releasable s G ys"
  by (simp add: releasable_def freed_geometry)

lemma free_data_block_freed:
  "freelist s F \<Longrightarrow> F \<noteq> {} \<Longrightarrow> releasable s F [b] \<Longrightarrow>
   \<exists>t. free_data_block b s = Some (True, t) \<and> freed s F [b] t"
  using free_data_block_free [of s F b] by (auto simp: releasable_def freed_def)

lemma freed_freelist: "freed s F xs t \<Longrightarrow> freelist t (F \<union> set xs)"
  by (simp add: freed_def)

text \<open>A tree that is not touched stays the same tree.\<close>

lemma freed_tree:
  assumes "freed s F xs t" "releasable s (F \<union> set xs) (tree_blocks s n b)" "freelist s F"
  shows "tree_blocks t n b = tree_blocks s n b"
proof (rule tree_blocks_cong)
  fix x assume x: "x \<in> set (tree_blocks s n b)"
  then have "x \<noteq> 0"
    using assms(2,3) data_block_valid [of s x] by (auto simp: releasable_def freelist_def)
  then show "disk_block t x = disk_block s x"
    using x assms(2) by (intro freed_block [OF assms(1)]) (auto simp: releasable_def)
qed

text \<open>One level of the recursion: a block with its children, where each child can be freed.\<close>

definition release_step :: "nat \<Rightarrow> int \<Rightarrow> altfs \<Rightarrow> (bool \<times> altfs) option" where
  "release_step n b s = (if n = 0 then free_data_block b s else free_indirect_blocks n b s)"

text \<open>A loop over the addresses of an indirect block up to the first 0; \<open>f\<close> is what it does with
  an address.\<close>

definition release_loop :: "(int \<Rightarrow> altfs \<Rightarrow> (altfs, 'r) ctl option) \<Rightarrow> buf \<Rightarrow> altfs \<Rightarrow> (altfs, 'r) ctl option" where
  "release_loop f data_blocks s = for_loop 0 512
     (\<lambda>i s. if addr_at data_blocks i = 0 then Some (Break s) else f (addr_at data_blocks i) s) s"

lemma release_loop_run:
  assumes s: "freelist s F" "F \<noteq> {}"
    and rel: "releasable s F (concat (map (tree_blocks s n) (children s b)))"
    and step: "\<And>c u G. freelist u G \<Longrightarrow> G \<noteq> {} \<Longrightarrow> releasable u G (tree_blocks u n c) \<Longrightarrow>
       \<exists>t. f c u = Some (Next t) \<and> freed u G (tree_blocks u n c) t"
  shows "\<exists>t. release_loop f (disk_block s b) s = Some (Next t)
    \<and> freed s F (concat (map (tree_blocks s n) (children s b))) t"
proof -
  let ?cs = "children s b" and ?T = "tree_blocks s n"
  define B where "B = disk_block s b"
  define I where "I = (\<lambda>i t. i \<le> int (length ?cs) \<and> freed s F (concat (map ?T (take (nat i) ?cs))) t)"
  define Q where "Q = freed s F (concat (map ?T ?cs))"
  define body where "body = (\<lambda>i s. if addr_at B i = 0 then Some (Break s) else f (addr_at B i) s)"
  have "(\<exists>t. for_loop 0 512 body s = Some (Next t) \<and> Q t)
      \<or> (\<exists>r t. for_loop 0 512 body s = Some (Return r t) \<and> False)"
  proof (rule for_loop_rule [where I = I and R = "\<lambda>_ _. False"])
    show "I 0 s" using freed_refl [OF s(1)] by (simp add: I_def)
    fix i t assume i: "0 \<le> i" "i < (512 :: int)" and I: "I i t"
    let ?xs = "concat (map ?T (take (nat i) ?cs))"
    have fr: "freed s F ?xs t" "i \<le> int (length ?cs)" using I by (simp_all add: I_def)
    show "(\<exists>t'. body i t = Some (Next t') \<and> I (i + 1) t') \<or> (\<exists>t'. body i t = Some (Break t') \<and> Q t')
        \<or> (\<exists>r t'. body i t = Some (Return r t') \<and> False)"
    proof (cases "i = int (length ?cs)")
      case True
      then have "addr_at B i = 0" using children_end [of s b] i B_def by simp
      moreover have "Q t" using fr True by (simp add: Q_def)
      ultimately show ?thesis by (simp add: body_def)
    next
      case False
      then have lt: "nat i < length ?cs" and c: "?cs ! nat i = addr_at B i" "addr_at B i \<noteq> 0"
        using fr(2) i children_nth [of i s b] by (auto simp: B_def)
      let ?c = "?cs ! nat i"
      have split: "take (nat (i + 1)) ?cs = take (nat i) ?cs @ [?c]"
        using lt i by (simp add: nat_add_distrib take_Suc_conv_app_nth)
      have "concat (map ?T ?cs) = ?xs @ ?T ?c @ concat (map ?T (drop (Suc (nat i)) ?cs))"
        using arg_cong [OF id_take_nth_drop [OF lt], of "\<lambda>l. concat (map ?T l)"] by simp
      with rel have relc: "releasable s (F \<union> set ?xs) (?T ?c)" by (simp only: releasable_append)
      have Tc: "tree_blocks t n ?c = ?T ?c" by (rule freed_tree [OF fr(1) relc s(1)])
      obtain u where u: "f ?c t = Some (Next u)" "freed t (F \<union> set ?xs) (?T ?c) u"
        using step [of t "F \<union> set ?xs" ?c] freed_freelist [OF fr(1)] s(2) relc Tc
          releasable_cong [OF fr(1)] by auto
      have "I (i + 1) u"
        using freed_trans [OF fr(1) u(2)] lt i by (simp add: I_def split)
      then show ?thesis using u(1) c by (simp add: body_def)
    qed
  next
    show "Q t" if "I 512 t" for t
    proof -
      have "length ?cs = 512" using that children_length [of s b] by (simp add: I_def)
      then show ?thesis using that by (simp add: I_def Q_def)
    qed
  qed simp
  then show ?thesis unfolding release_loop_def B_def [symmetric] body_def [symmetric] Q_def by blast
qed

lemma free_indirect_blocks_step:
  "free_indirect_blocks (Suc n) b s = do {
     (ok, buffer) \<leftarrow> altfs_read_block b (Some zero_buf) s;
     if \<not> ok then Some (False, s)
     else do {
       data_blocks \<leftarrow> buffer;
       c \<leftarrow> release_loop (\<lambda>c s. do {
              (ok, s) \<leftarrow> release_step n c s;
              Some (if ok then Next s else Return False s)
            }) data_blocks s;
       case c of
         Return r s \<Rightarrow> Some (r, s)
       | Next s \<Rightarrow> free_data_block b s
       | Break s \<Rightarrow> free_data_block b s
     }
   }"
  by (simp add: release_loop_def release_step_def Let_def cong: if_cong)

theorem release_step_run:
  assumes "freelist s F" "F \<noteq> {}" "releasable s F (tree_blocks s n b)"
  shows "\<exists>t. release_step n b s = Some (True, t) \<and> freed s F (tree_blocks s n b) t"
  using assms
proof (induction n arbitrary: b s F)
  case 0
  then show ?case using free_data_block_freed [of s F b] by (simp add: release_step_def)
next
  case (Suc n)
  let ?xs = "concat (map (tree_blocks s n) (children s b))"
  from Suc.prems(3) have rel: "releasable s F ?xs" "releasable s (F \<union> set ?xs) [b]"
    by (simp_all only: tree_blocks.simps releasable_append)
  obtain t where t: "release_loop (\<lambda>c s. do {
          (ok, s) \<leftarrow> release_step n c s;
          Some (if ok then Next s else Return False s :: (altfs, bool) ctl)
        }) (disk_block s b) s = Some (Next t)" "freed s F ?xs t"
    using release_loop_run [OF Suc.prems(1,2) rel(1), of "\<lambda>c s. do {
          (ok, s) \<leftarrow> release_step n c s;
          Some (if ok then Next s else Return False s :: (altfs, bool) ctl)
        }"] Suc.IH by fastforce
  obtain u where u: "free_data_block b t = Some (True, u)" "freed t (F \<union> set ?xs) [b] u"
    using free_data_block_freed [of t "F \<union> set ?xs" b] freed_freelist [OF t(2)] Suc.prems(2) rel(2)
      releasable_cong [OF t(2)] by auto
  have "mounted s" "data_block s b"
    using Suc.prems(1) rel(2) by (simp_all add: freelist_def releasable_def)
  then have "free_indirect_blocks (Suc n) b s = Some (True, u)"
    using t(1) u(1) data_block_valid [of s b]
    by (simp only: free_indirect_blocks_step) (simp add: run)
  then show ?case
    using freed_trans [OF t(2) u(2)] by (simp add: release_step_def del: free_indirect_blocks.simps)
qed


section \<open>Freeing an inode\<close>

definition direct_list :: "inode \<Rightarrow> int list" where
  "direct_list nd = takeWhile (\<lambda>a. a \<noteq> 0) (i_direct_blocks nd)"

definition tree_if :: "altfs \<Rightarrow> nat \<Rightarrow> int \<Rightarrow> int list" where
  "tree_if s n b = (if b = 0 then [] else tree_blocks s n b)"

text \<open>All blocks that belong to a file: data blocks and indirect blocks.\<close>

definition inode_blocks :: "altfs \<Rightarrow> inode \<Rightarrow> int list" where
  "inode_blocks s nd = direct_list nd @ tree_if s 1 (i_single_indirect nd)
     @ tree_if s 2 (i_double_indirect nd) @ tree_if s 3 (i_triple_indirect nd)"

lemma free_direct_blocks_run:
  assumes s: "freelist s F" "F \<noteq> {}" and rel: "releasable s F (direct_list nd)"
    and len: "length (i_direct_blocks nd) = 12"
  shows "\<exists>t. free_direct_blocks nd s = Some (Next t) \<and> freed s F (direct_list nd) t"
proof -
  let ?ds = "direct_list nd"
  let ?body = "\<lambda>i s. let block_num = i_direct_blocks nd ! nat i in
          if block_num \<noteq> 0 then do {
            (ok, s) \<leftarrow> free_data_block block_num s;
            Some (if ok then Next s else Return False s)
          }
          else Some (Break s) :: (altfs, bool) ctl option"
  have le: "length ?ds \<le> 12"
    using length_takeWhile_le [of _ "i_direct_blocks nd"] by (simp add: direct_list_def len)
  define I where "I = (\<lambda>i t. i \<le> int (length ?ds) \<and> freed s F (take (nat i) ?ds) t)"
  have "(\<exists>t. for_loop 0 12 ?body s = Some (Next t) \<and> freed s F ?ds t)
      \<or> (\<exists>r t. for_loop 0 12 ?body s = Some (Return r t) \<and> False)"
  proof (rule for_loop_rule [where I = I and R = "\<lambda>_ _. False"])
    show "I 0 s" using freed_refl [OF s(1)] by (simp add: I_def)
    fix i t assume i: "0 \<le> i" "i < (12 :: int)" and I: "I i t"
    have fr: "freed s F (take (nat i) ?ds) t" "i \<le> int (length ?ds)" using I by (simp_all add: I_def)
    show "(\<exists>t'. ?body i t = Some (Next t') \<and> I (i + 1) t')
        \<or> (\<exists>t'. ?body i t = Some (Break t') \<and> freed s F ?ds t')
        \<or> (\<exists>r t'. ?body i t = Some (Return r t') \<and> False)"
    proof (cases "i = int (length ?ds)")
      case True
      then have "i_direct_blocks nd ! nat i = 0"
        using nth_length_takeWhile [of "\<lambda>a. a \<noteq> 0" "i_direct_blocks nd"] i
        by (simp add: direct_list_def len)
      then show ?thesis using fr True by simp
    next
      case False
      then have lt: "nat i < length ?ds" using fr(2) i by auto
      have d: "i_direct_blocks nd ! nat i = ?ds ! nat i"
        using lt by (simp add: direct_list_def takeWhile_nth)
      have nz: "?ds ! nat i \<noteq> 0"
        using nth_mem [OF lt] by (auto simp: direct_list_def dest: set_takeWhileD)
      have split: "take (nat (i + 1)) ?ds = take (nat i) ?ds @ [?ds ! nat i]"
        using lt i by (simp add: nat_add_distrib take_Suc_conv_app_nth)
      have "?ds = take (nat i) ?ds @ [?ds ! nat i] @ drop (Suc (nat i)) ?ds"
        using id_take_nth_drop [OF lt] by simp
      with rel have "releasable s (F \<union> set (take (nat i) ?ds)) [?ds ! nat i]"
        by (metis releasable_append)
      then obtain u where u: "free_data_block (?ds ! nat i) t = Some (True, u)"
        "freed t (F \<union> set (take (nat i) ?ds)) [?ds ! nat i] u"
        using free_data_block_freed [of t "F \<union> set (take (nat i) ?ds)" "?ds ! nat i"]
          freed_freelist [OF fr(1)] s(2) releasable_cong [OF fr(1)] by auto
      have "I (i + 1) u" using freed_trans [OF fr(1) u(2)] lt i by (simp add: I_def split)
      then show ?thesis using u(1) d nz by simp
    qed
  next
    show "freed s F ?ds t" if "I 12 t" for t
      using that le by (simp add: I_def)
  qed simp
  then show ?thesis by (simp add: free_direct_blocks_def)
qed

text \<open>One indirect block of the inode, where it is there.\<close>

lemma release_tree_if:
  assumes st: "freed s F xs t" and s: "freelist s F" "F \<noteq> {}"
    and rel: "releasable s F (xs @ tree_if s (Suc n) b)"
  shows "\<exists>u. (if b \<noteq> 0 then free_indirect_blocks (Suc n) b t else Some (True, t)) = Some (True, u)
    \<and> freed s F (xs @ tree_if s (Suc n) b) u"
proof (cases "b = 0")
  case True
  then show ?thesis using st by (simp add: tree_if_def)
next
  case False
  then have rel': "releasable s (F \<union> set xs) (tree_blocks s (Suc n) b)"
    using rel by (simp only: tree_if_def releasable_append if_False)
  have T: "tree_blocks t (Suc n) b = tree_blocks s (Suc n) b" by (rule freed_tree [OF st rel' s(1)])
  obtain u where "release_step (Suc n) b t = Some (True, u)" "freed t (F \<union> set xs) (tree_blocks s (Suc n) b) u"
    using release_step_run [OF freed_freelist [OF st], of "Suc n" b] s(2) rel' releasable_cong [OF st]
    unfolding T by auto
  then show ?thesis
    using False freed_trans [OF st, of "tree_blocks s (Suc n) b" u]
    by (simp add: release_step_def tree_if_def del: free_indirect_blocks.simps tree_blocks.simps)
qed

lemma Suc_2: "Suc 2 = (3 :: nat)"
  by simp

lemma free_data_blocks_in_inode_run:
  assumes s: "freelist s F" "F \<noteq> {}" and rel: "releasable s F (inode_blocks s nd)"
    and len: "length (i_direct_blocks nd) = 12"
  shows "\<exists>t. free_data_blocks_in_inode nd s = Some (True, t) \<and> freed s F (inode_blocks s nd) t"
proof -
  let ?a = "direct_list nd" and ?b = "tree_if s (Suc 0) (i_single_indirect nd)"
    and ?c = "tree_if s (Suc 1) (i_double_indirect nd)" and ?d = "tree_if s (Suc 2) (i_triple_indirect nd)"
  have eq: "inode_blocks s nd = ((?a @ ?b) @ ?c) @ ?d"
    by (simp add: inode_blocks_def numeral_2_eq_2 numeral_3_eq_3)
  from rel have r: "releasable s F ?a" "releasable s F (?a @ ?b)" "releasable s F ((?a @ ?b) @ ?c)"
    "releasable s F (((?a @ ?b) @ ?c) @ ?d)"
    by (simp_all only: eq releasable_append [of s F "?a @ ?b @ ?c"] append_assoc) (simp_all add: releasable_append)
  obtain t1 where t1: "free_direct_blocks nd s = Some (Next t1)" "freed s F ?a t1"
    using free_direct_blocks_run [OF s r(1) len] by blast
  obtain t2 where t2: "(if i_single_indirect nd \<noteq> 0 then free_indirect_blocks (Suc 0) (i_single_indirect nd) t1
      else Some (True, t1)) = Some (True, t2)" "freed s F (?a @ ?b) t2"
    using release_tree_if [OF t1(2) s r(2)] by blast
  obtain t3 where t3: "(if i_double_indirect nd \<noteq> 0 then free_indirect_blocks (Suc 1) (i_double_indirect nd) t2
      else Some (True, t2)) = Some (True, t3)" "freed s F ((?a @ ?b) @ ?c) t3"
    using release_tree_if [OF t2(2) s r(3)] by blast
  obtain t4 where t4: "(if i_triple_indirect nd \<noteq> 0 then free_indirect_blocks (Suc 2) (i_triple_indirect nd) t3
      else Some (True, t3)) = Some (True, t4)" "freed s F (((?a @ ?b) @ ?c) @ ?d) t4"
    using release_tree_if [OF t3(2) s r(4)] by blast
  have "free_data_blocks_in_inode nd s = Some (True, t4)"
    unfolding free_data_blocks_in_inode_def
    by (simp only: t1(1) t2(1) [unfolded One_nat_def [symmetric]] t3(1) [unfolded Suc_1] t4(1) [unfolded Suc_2]
        Option.bind.bind_lunit Let_def finish.simps prod.case simp_thms if_True if_False)
  then show ?thesis using t4(2) eq by auto
qed


lemma inode_ok_cleared [simp]: "inode_ok nd \<Longrightarrow> inode_ok (cleared_inode nd)"
  by (simp add: inode_ok_def cleared_inode_def)

text \<open>The state after the inode has been cleared on the disk and the superblock updated.\<close>

definition clear_inode :: "altfs \<Rightarrow> superblock \<Rightarrow> int \<Rightarrow> altfs" where
  "clear_inode s sb k =
     (let sb' = sb\<lparr>s_first_ino := min k (s_first_ino sb)\<rparr>
      in sync_superblock (upd_inode s k (cleared_inode (inode_of s k))\<lparr>altfs_superblock := Ptr sb'\<rparr>) sb')"

lemma clear_inode_facts:
  assumes "mounted s" "inum_ok s k"
  shows "inode_of (clear_inode s sb k) k = cleared_inode (inode_of s k)"
    and "\<And>j. 0 \<le> j \<Longrightarrow> j \<noteq> k \<Longrightarrow> inode_of (clear_inode s sb k) j = inode_of s j"
    and "only_changes {n. n = 0 \<or> inode_block s n} s (clear_inode s sb k)"
    and "altfs_superblock (clear_inode s sb k) = Ptr (sb\<lparr>s_first_ino := min k (s_first_ino sb)\<rparr>)"
    and "superblock_ok (sb\<lparr>s_first_ino := min k (s_first_ino sb)\<rparr>) \<Longrightarrow> superblock_synced (clear_inode s sb k)"
proof -
  show "only_changes {n. n = 0 \<or> inode_block s n} s (clear_inode s sb k)"
    using assms(1) inum_block [OF assms(2)]
    by (auto simp: only_changes_def clear_inode_def Let_def mem_simps upd_inode_def)
qed (use assms inum_ok_nonneg [OF assms(2)] in
    \<open>auto simp: clear_inode_def Let_def mem_simps intro: superblock_synced_sync\<close>)

lemma next_free_clear:
  assumes old: "next_free s 3 (first_free sb)" and k: "3 \<le> k" "inum_ok s k"
    and cnt: "s_inodes_count sb = INODE_BLOCK_COUNT s * 18" "INODE_BLOCK_COUNT t = INODE_BLOCK_COUNT s"
    and off: "\<not> i_allocated (inode_of t k)"
    and same: "\<And>j. inum_ok s j \<Longrightarrow> j \<noteq> k \<Longrightarrow> inode_of t j = inode_of s j"
  shows "next_free t 3 (first_free (sb\<lparr>s_first_ino := min k (s_first_ino sb)\<rparr>))"
proof -
  have kc: "k < s_inodes_count sb" using k by (simp add: cnt inum_ok_def)
  have first: "3 \<le> s_first_ino sb" "\<And>j. 3 \<le> j \<Longrightarrow> j < s_first_ino sb \<Longrightarrow> i_allocated (inode_of s j)"
    using old kc k by (auto simp: next_free_def first_free_def cnt inum_ok_def split: if_splits)
  have "\<not> i_allocated (inode_of s (s_first_ino sb))" if "s_first_ino sb < k"
    using old that kc by (auto simp: next_free_def first_free_def)
  then show ?thesis
    using first k kc off same by (auto simp: next_free_def first_free_def inum_ok_def cnt min_def)
qed

theorem free_inode_releases:
  assumes inv: "inode_table_inv s" and F: "freelist s F" "F \<noteq> {}" and k: "3 \<le> k" "inum_ok s k"
    and rel: "releasable s F (inode_blocks s (inode_of s k))"
  shows "\<exists>t. free_inode k s = Some (True, t)
    \<and> freelist t (F \<union> set (inode_blocks s (inode_of s k)))
    \<and> inode_of t k = cleared_inode (inode_of s k)
    \<and> (\<forall>j. inum_ok s j \<and> j \<noteq> k \<longrightarrow> inode_of t j = inode_of s j)
    \<and> inode_table_inv t \<and> superblock_synced t
    \<and> only_changes (insert 0 (F \<union> set (inode_blocks s (inode_of s k))) \<union> {n. inode_block s n}) s t"
proof -
  let ?nd = "inode_of s k" and ?n = "1 + k div 18"
  obtain sb where sb: "mounted s" "geometry_ok s" "table_sb s sb" "next_free s 3 (first_free sb)"
    using inv by (auto simp: inode_table_inv_def)
  have len: "length (i_direct_blocks ?nd) = 12"
    using inode_ok_inode_of [of s k] by (simp add: inode_ok_def)
  obtain t where t: "free_data_blocks_in_inode ?nd s = Some (True, t)" "freed s F (inode_blocks s ?nd) t"
    using free_data_blocks_in_inode_run [OF F rel len] by blast
  note geo = freed_geometry [OF t(2)] and Ft = freed_freelist [OF t(2)]
  have notF: "n \<notin> F \<union> set (inode_blocks s ?nd)" if "inode_block s n" for n
    using that freelist_not_inode_block [OF F(1)] rel by (auto simp: releasable_def dest: data_block_not_inode)
  then have disk: "disk_block t n = disk_block s n" if "inode_block s n" for n
    using that by (intro freed_block [OF t(2)]) (auto simp: inode_block_def)
  have same: "inode_of t j = inode_of s j" if "inum_ok s j" for j
    by (rule inode_of_cong) (rule disk [OF inum_block [OF that]])
  obtain h where ht: "altfs_superblock t = Ptr (sb\<lparr>s_freelist_head := h\<rparr>)"
    using t(2) sb(3) by (auto simp: freed_def head_only_def table_sb_def)
  define sbt where "sbt = sb\<lparr>s_freelist_head := h\<rparr>"
  have tsb: "table_sb t sbt" "first_free sbt = first_free sb" "mounted t" "geometry_ok t"
    using sb Ft ht by (auto simp: table_sb_def freelist_def geo sbt_def first_free_def)
  have kt: "inum_ok t k" using k(2) by (simp add: inum_ok_def geo)
  let ?u = "clear_inode t sbt k"
  note facts = clear_inode_facts [OF tsb(3) kt, where sb = sbt]
  have ok: "superblock_ok (sbt\<lparr>s_first_ino := min k (s_first_ino sbt)\<rparr>)"
    using tsb(1) k by (auto simp: table_sb_def superblock_ok_def in_ssize_def min_def)
  have nv: "valid_block s ?n" "valid_block t ?n" "valid_block t 0"
    using inode_block_valid [OF sb(2) inum_block [OF k(2)]] geometry_valid_0 tsb(4) by (simp_all add: geo)
  have "free_inode k s = Some (True, ?u)"
    using sb t(1) k(2) nv tsb(1,3) same [OF k(2)] disk [OF inum_block [OF k(2)]]
    by (simp add: free_inode_def run inode_of_def [of s k, symmetric])
      (simp add: clear_inode_def upd_inode_def run table_sb_def Let_def)
  moreover have "freelist ?u (F \<union> set (inode_blocks s ?nd))"
    by (rule freelist_unaffected [OF Ft facts(3) _ _ facts(4) ok])
      (use freelist_not_inode_block [OF Ft] tsb(1) in \<open>auto simp: table_sb_def\<close>)
  moreover have "inode_of ?u k = cleared_inode ?nd"
    using facts(1) same [OF k(2)] by simp
  moreover have "inode_of ?u j = inode_of s j" if "inum_ok s j" "j \<noteq> k" for j
    using that facts(2) [of j] same [of j] by (auto simp: inum_ok_def)
  moreover have "next_free ?u 3 (first_free (sbt\<lparr>s_first_ino := min k (s_first_ino sbt)\<rparr>))"
    by (rule next_free_clear [where s = s])
      (use sb k tsb(1,2) calculation(3,4) only_changes_geometry(2) [OF facts(3)] in
        \<open>auto simp: table_sb_def geo cleared_inode_def\<close>)
  moreover have "table_sb ?u (sbt\<lparr>s_first_ino := min k (s_first_ino sbt)\<rparr>)"
    using tsb(1) ok facts(4) only_changes_geometry(2) [OF facts(3)] by (simp add: table_sb_def)
  moreover have "only_changes (insert 0 (F \<union> set (inode_blocks s ?nd)) \<union> {n. inode_block s n}) s ?u"
  proof -
    have "only_changes (insert 0 (F \<union> set (inode_blocks s ?nd))) s t" using t(2) by (simp add: freed_def)
    from only_changes_trans [OF this facts(3)] show ?thesis
      by (rule only_changes_mono) (auto simp: inode_block_def geo)
  qed
  ultimately show ?thesis
    using facts(5) [OF ok] tsb(3,4) only_changes_geometry [OF facts(3)]
    by (auto simp: inode_table_inv_def)
qed

end
