(* ===== verification/Inode_Data_Block_Ops.thy ===== *)
theory Inode_Data_Block_Ops
  imports Block_Release
begin

text \<open>
  \<open>src/inode_data_block_ops.c\<close>: adding a data block at the end of a file, replacing one in the
  middle and cutting a file off. Each of the three functions works on the direct blocks of the
  inode and on its single, double and triple indirect blocks; every area is a definition of its
  own. The inode is an in-out argument: it is returned with the new state.
\<close>

section \<open>Cells of the inode and of indirect blocks\<close>

definition direct_set :: "inode \<Rightarrow> int \<Rightarrow> int \<Rightarrow> inode option" where
  "direct_set node i v =
     (if 0 \<le> i \<and> i < int (length (i_direct_blocks node))
      then Some (node\<lparr>i_direct_blocks := (i_direct_blocks node)[nat i := v]\<rparr>) else None)"

text \<open>The block is read, one address in it replaced, and the block written back.\<close>

definition write_addr :: "int \<Rightarrow> int \<Rightarrow> int \<Rightarrow> altfs \<Rightarrow> (bool \<times> altfs) option" where
  "write_addr n i v s = do {
     p \<leftarrow> read_data_block n s;
     b \<leftarrow> p;
     b \<leftarrow> arr_set b i v;
     write_data_block n (Some b) s
   }"

definition one_more_block :: "inode \<Rightarrow> inode" where
  "one_more_block node = node\<lparr>i_blocks_num := i_blocks_num node + 1\<rparr>"

section \<open>Adding a data block\<close>

text \<open>A new indirect block for a field of the inode, where it is needed.\<close>

definition new_root :: "bool \<Rightarrow> int \<Rightarrow> altfs \<Rightarrow> (bool \<times> int \<times> altfs) option" where
  "new_root needed old s =
     (if needed then do {
        (n, s) \<leftarrow> allocate_data_block s;
        Some (n \<noteq> -1, if n = -1 then old else n, s)
      }
      else Some (True, old, s))"

text \<open>A new indirect block below block \<open>parent\<close>, whose contents are \<open>arr\<close>, where it is needed.\<close>

definition new_child :: "bool \<Rightarrow> int \<Rightarrow> int \<Rightarrow> buf \<Rightarrow> altfs \<Rightarrow> (bool \<times> buf \<times> altfs) option" where
  "new_child needed parent idx arr s =
     (if needed then do {
        (n, s) \<leftarrow> allocate_data_block s;
        if n = -1 then Some (False, arr, s)
        else do {
          arr \<leftarrow> arr_set arr idx n;
          (ok, s) \<leftarrow> write_data_block parent (Some arr) s;
          Some (ok, arr, s)
        }
      }
      else Some (True, arr, s))"

definition add_to_direct :: "inode \<Rightarrow> int \<Rightarrow> int \<Rightarrow> altfs \<Rightarrow> (bool \<times> inode \<times> altfs) option" where
  "add_to_direct node logical_block_num data_block_num s = do {
     node \<leftarrow> direct_set node logical_block_num data_block_num;
     Some (True, one_more_block node, s)
   }"

definition add_to_single :: "inode \<Rightarrow> int \<Rightarrow> int \<Rightarrow> altfs \<Rightarrow> (bool \<times> inode \<times> altfs) option" where
  "add_to_single node logical_block_num data_block_num s = do {
     (ok, n, s) \<leftarrow> new_root (logical_block_num = 0) (i_single_indirect node) s;
     let node = node\<lparr>i_single_indirect := n\<rparr>;
     if \<not> ok then Some (False, node, s)
     else do {
       (ok, s) \<leftarrow> write_addr n logical_block_num data_block_num s;
       Some (ok, if ok then one_more_block node else node, s)
     }
   }"

definition add_to_double :: "inode \<Rightarrow> int \<Rightarrow> int \<Rightarrow> altfs \<Rightarrow> (bool \<times> inode \<times> altfs) option" where
  "add_to_double node logical_block_num data_block_num s = do {
     (ok, root, s) \<leftarrow> new_root (logical_block_num = 0) (i_double_indirect node) s;
     let node = node\<lparr>i_double_indirect := root\<rparr>;
     if \<not> ok then Some (False, node, s)
     else do {
       let double_i_idx = c_div logical_block_num NUM_OF_ADDRESSES_PER_BLOCK;
       let inner_idx = c_mod logical_block_num NUM_OF_ADDRESSES_PER_BLOCK;
       p \<leftarrow> read_data_block root s;
       arr \<leftarrow> p;
       (ok, arr, s) \<leftarrow> new_child (inner_idx = 0) root double_i_idx arr s;
       if \<not> ok then Some (False, node, s)
       else do {
         single \<leftarrow> arr_get arr double_i_idx;
         if single \<le> 0 then Some (False, node, s)
         else do {
           (ok, s) \<leftarrow> write_addr single inner_idx data_block_num s;
           Some (ok, if ok then one_more_block node else node, s)
         }
       }
     }
   }"

definition add_to_triple :: "inode \<Rightarrow> int \<Rightarrow> int \<Rightarrow> altfs \<Rightarrow> (bool \<times> inode \<times> altfs) option" where
  "add_to_triple node logical_block_num data_block_num s = do {
     (ok, root, s) \<leftarrow> new_root (logical_block_num = 0) (i_triple_indirect node) s;
     let node = node\<lparr>i_triple_indirect := root\<rparr>;
     if \<not> ok then Some (False, node, s)
     else do {
       p \<leftarrow> read_data_block root s;
       triple_arr \<leftarrow> p;
       let triple_i_idx = c_div logical_block_num NUM_OF_DOUBLE_INDIRECT_BLOCK_ADDR;
       let double_i_idx = c_mod (c_div logical_block_num NUM_OF_ADDRESSES_PER_BLOCK) NUM_OF_ADDRESSES_PER_BLOCK;
       let inner_idx = c_mod logical_block_num NUM_OF_ADDRESSES_PER_BLOCK;
       (ok, triple_arr, s) \<leftarrow>
         new_child (c_mod logical_block_num NUM_OF_DOUBLE_INDIRECT_BLOCK_ADDR = 0) root triple_i_idx triple_arr s;
       if \<not> ok then Some (False, node, s)
       else do {
         double \<leftarrow> arr_get triple_arr triple_i_idx;
         p \<leftarrow> read_data_block double s;
         double_arr \<leftarrow> p;
         (ok, double_arr, s) \<leftarrow> new_child (inner_idx = 0) double double_i_idx double_arr s;
         if \<not> ok then Some (False, node, s)
         else do {
           single \<leftarrow> arr_get double_arr double_i_idx;
           if single \<le> 0 then Some (False, node, s)
           else do {
             (ok, s) \<leftarrow> write_addr single inner_idx data_block_num s;
             Some (ok, if ok then one_more_block node else node, s)
           }
         }
       }
     }
   }"

definition add_datablock_to_inode :: "inode \<Rightarrow> int \<Rightarrow> altfs \<Rightarrow> (bool \<times> inode \<times> altfs) option" where
  "add_datablock_to_inode node data_block_num s =
     (let l = i_blocks_num node in
      if l < NUM_OF_DIRECT_BLOCKS then add_to_direct node l data_block_num s
      else let l = l - NUM_OF_DIRECT_BLOCKS in
        if l < NUM_OF_SINGLE_INDIRECT_BLOCK_ADDR then add_to_single node l data_block_num s
        else let l = l - NUM_OF_SINGLE_INDIRECT_BLOCK_ADDR in
          if l < NUM_OF_DOUBLE_INDIRECT_BLOCK_ADDR then add_to_double node l data_block_num s
          else let l = l - NUM_OF_DOUBLE_INDIRECT_BLOCK_ADDR in
            if l < NUM_OF_TRIPLE_INDIRECT_BLOCK_ADDR then add_to_triple node l data_block_num s
            else Some (False, node, s))"

section \<open>Replacing a data block\<close>

text \<open>Where the previous indirect block is cached, the changed block is written to
  \<open>data_block_num\<close>, as in the code (line 266 and line 319). The result holds the flag, the new
  value of \<open>*prev_indirect_block\<close> and the state.\<close>

definition overwrite_cached :: "int \<Rightarrow> int \<Rightarrow> int \<Rightarrow> altfs \<Rightarrow> (bool \<times> int \<times> altfs) option" where
  "overwrite_cached inner_idx data_block_num prev s = do {
     p \<leftarrow> read_data_block prev s;
     b \<leftarrow> p;
     b \<leftarrow> arr_set b inner_idx data_block_num;
     (ok, s) \<leftarrow> write_data_block data_block_num (Some b) s;
     Some (ok, prev, s)
   }"

definition overwrite_double :: "inode \<Rightarrow> int \<Rightarrow> int \<Rightarrow> int \<Rightarrow> altfs \<Rightarrow> (bool \<times> int \<times> altfs) option" where
  "overwrite_double node logical_block_num data_block_num prev s =
     (if i_double_indirect node = 0 then Some (False, prev, s)
      else let double_i_idx = c_div logical_block_num NUM_OF_ADDRESSES_PER_BLOCK;
               inner_idx = c_mod logical_block_num NUM_OF_ADDRESSES_PER_BLOCK
           in if inner_idx \<noteq> 0 \<and> prev \<noteq> 0 then overwrite_cached inner_idx data_block_num prev s
              else do {
                n \<leftarrow> read_addr (i_double_indirect node) double_i_idx s;
                if n \<le> 0 then Some (False, prev, s)
                else do {
                  (ok, s) \<leftarrow> write_addr n inner_idx data_block_num s;
                  Some (ok, n, s)
                }
              })"

definition overwrite_triple :: "inode \<Rightarrow> int \<Rightarrow> int \<Rightarrow> int \<Rightarrow> altfs \<Rightarrow> (bool \<times> int \<times> altfs) option" where
  "overwrite_triple node logical_block_num data_block_num prev s =
     (if i_triple_indirect node = 0 then Some (False, prev, s)
      else let triple_i_idx = c_div logical_block_num NUM_OF_DOUBLE_INDIRECT_BLOCK_ADDR;
               double_i_idx = c_mod (c_div logical_block_num NUM_OF_ADDRESSES_PER_BLOCK) NUM_OF_ADDRESSES_PER_BLOCK;
               inner_idx = c_mod logical_block_num NUM_OF_ADDRESSES_PER_BLOCK
           in if inner_idx \<noteq> 0 \<and> prev \<noteq> 0 then overwrite_cached inner_idx data_block_num prev s
              else do {
                n \<leftarrow> read_addr (i_triple_indirect node) triple_i_idx s;
                if n \<le> 0 then Some (False, prev, s)
                else do {
                  m \<leftarrow> read_addr n double_i_idx s;
                  if m \<le> 0 then Some (False, prev, s)
                  else do {
                    (ok, s) \<leftarrow> write_addr m inner_idx data_block_num s;
                    Some (ok, prev, s)
                  }
                }
              })"

definition overwrite_datablock_to_inode ::
  "inode \<Rightarrow> int \<Rightarrow> int \<Rightarrow> int \<Rightarrow> altfs \<Rightarrow> (bool \<times> inode \<times> int \<times> altfs) option" where
  "overwrite_datablock_to_inode node l data_block_num prev s =
     (if l > i_blocks_num node then Some (False, node, prev, s)
      else if l < NUM_OF_DIRECT_BLOCKS then do {
        node \<leftarrow> direct_set node l data_block_num;
        Some (True, node, prev, s)
      }
      else let l = l - NUM_OF_DIRECT_BLOCKS in
        if l < NUM_OF_SINGLE_INDIRECT_BLOCK_ADDR then
          (if i_single_indirect node = 0 then Some (False, node, prev, s)
           else do {
             (ok, s) \<leftarrow> write_addr (i_single_indirect node) l data_block_num s;
             Some (ok, node, prev, s)
           })
        else let l = l - NUM_OF_SINGLE_INDIRECT_BLOCK_ADDR in
          do {
            (ok, prev, s) \<leftarrow>
              (if l < NUM_OF_DOUBLE_INDIRECT_BLOCK_ADDR then overwrite_double node l data_block_num prev s
               else overwrite_triple node (l - NUM_OF_DOUBLE_INDIRECT_BLOCK_ADDR) data_block_num prev s);
            Some (ok, node, prev, s)
          })"

section \<open>Cutting a file off\<close>

text \<open>Frees the tree below \<open>p_block_num\<close>; what the nested calls return is ignored.
  \<open>indirectionlevel\<close> is 1, 2 or 3 in the calls of the program.\<close>

primrec remove_datablocks_utility :: "nat \<Rightarrow> int \<Rightarrow> altfs \<Rightarrow> (bool \<times> altfs) option" where
  "remove_datablocks_utility 0 p_block_num s = None"
| "remove_datablocks_utility (Suc n) p_block_num s =
     (if p_block_num \<le> 0 then Some (False, s)
      else do {
        p \<leftarrow> read_data_block p_block_num s;
        buffer \<leftarrow> p;
        c \<leftarrow> for_loop 0 NUM_OF_SINGLE_INDIRECT_BLOCK_ADDR
          (\<lambda>i s. if addr_at buffer i = 0 then Some (Break s)
            else do {
              (_, s) \<leftarrow> (if n = 0 then free_data_block (addr_at buffer i) s
                         else remove_datablocks_utility n (addr_at buffer i) s);
              Some (Next s :: (altfs, unit) ctl)
            }) s;
        let (_, s) = finish () c;
        (_, s) \<leftarrow> free_data_block p_block_num s;
        Some (True, s)
      })"

definition free_direct_range :: "int \<Rightarrow> int \<Rightarrow> inode \<Rightarrow> altfs \<Rightarrow> (inode \<times> altfs, bool) ctl option" where
  "free_direct_range from to node s =
     for_loop from (min NUM_OF_DIRECT_BLOCKS to)
       (\<lambda>i (node, s). do {
          n \<leftarrow> direct_get node i;
          (ok, s) \<leftarrow> free_data_block n s;
          if \<not> ok then Some (Return False (node, s))
          else do {
            node \<leftarrow> direct_set node i 0;
            Some (Next (node, s))
          }
        }) (node, s)"

text \<open>The loop over the addresses of one indirect block, \<open>for (; j < to && j < 512; j++)\<close>.\<close>

definition free_addr_range :: "int \<Rightarrow> int \<Rightarrow> buf \<Rightarrow> altfs \<Rightarrow> (buf \<times> altfs, bool) ctl option" where
  "free_addr_range from to arr s =
     for_loop from (min to NUM_OF_SINGLE_INDIRECT_BLOCK_ADDR)
       (\<lambda>i (arr, s). do {
          n \<leftarrow> arr_get arr i;
          (ok, s) \<leftarrow> free_data_block n s;
          if \<not> ok then Some (Return False (arr, s))
          else do {
            arr \<leftarrow> arr_set arr i 0;
            Some (Next (arr, s))
          }
        }) (arr, s)"

definition cut_at :: "int \<Rightarrow> inode \<Rightarrow> inode" where
  "cut_at starting_block_num node = node\<lparr>i_blocks_num := starting_block_num\<rparr>"

text \<open>The part shared by the first two cases: the double and the triple indirect tree are removed
  where the file reaches them. \<open>ending\<close> counts from the start of the double indirect area.\<close>

definition remove_double_triple ::
  "int \<Rightarrow> int \<Rightarrow> inode \<Rightarrow> altfs \<Rightarrow> (bool \<times> inode \<times> altfs) option" where
  "remove_double_triple starting ending node s = do {
     (ok, s) \<leftarrow> remove_datablocks_utility 2 (i_double_indirect node) s;
     if \<not> ok then Some (False, node, s)
     else do {
       let node = node\<lparr>i_double_indirect := 0\<rparr>;
       if ending \<le> NUM_OF_DOUBLE_INDIRECT_BLOCK_ADDR then Some (True, cut_at starting node, s)
       else do {
         (ok, s) \<leftarrow> remove_datablocks_utility 3 (i_triple_indirect node) s;
         if \<not> ok then Some (False, node, s)
         else Some (True, cut_at starting (node\<lparr>i_triple_indirect := 0\<rparr>), s)
       }
     }
   }"

definition remove_from_direct :: "int \<Rightarrow> inode \<Rightarrow> altfs \<Rightarrow> (bool \<times> inode \<times> altfs) option" where
  "remove_from_direct starting node s = do {
     let ending = i_blocks_num node;
     c \<leftarrow> free_direct_range starting ending node s;
     let (ok, node, s) = finish True c;
     if \<not> ok then Some (False, node, s)
     else if ending \<le> NUM_OF_DIRECT_BLOCKS then Some (True, cut_at starting node, s)
     else do {
       (ok, s) \<leftarrow> remove_datablocks_utility 1 (i_single_indirect node) s;
       if \<not> ok then Some (False, node, s)
       else do {
         let node = node\<lparr>i_single_indirect := 0\<rparr>;
         let ending = ending - NUM_OF_DIRECT_BLOCKS;
         if ending \<le> NUM_OF_SINGLE_INDIRECT_BLOCK_ADDR then Some (True, cut_at starting node, s)
         else remove_double_triple starting (ending - NUM_OF_SINGLE_INDIRECT_BLOCK_ADDR) node s
       }
     }
   }"

text \<open>Here \<open>logical\<close> counts from the start of the single indirect area. The code removes the
  double indirect tree before it subtracts \<open>NUM_OF_SINGLE_INDIRECT_BLOCK_ADDR\<close>.\<close>

definition remove_from_single :: "int \<Rightarrow> int \<Rightarrow> inode \<Rightarrow> altfs \<Rightarrow> (bool \<times> inode \<times> altfs) option" where
  "remove_from_single starting logical node s =
     (if i_single_indirect node = 0 then Some (False, node, s)
      else do {
        p \<leftarrow> read_data_block (i_single_indirect node) s;
        arr \<leftarrow> p;
        let ending = i_blocks_num node - NUM_OF_DIRECT_BLOCKS;
        c \<leftarrow> free_addr_range logical ending arr s;
        let (ok, arr, s) = finish True c;
        if \<not> ok then Some (False, node, s)
        else do {
          (ok, s) \<leftarrow> write_data_block (i_single_indirect node) (Some arr) s;
          if \<not> ok then Some (False, node, s)
          else if ending \<le> NUM_OF_SINGLE_INDIRECT_BLOCK_ADDR then Some (True, cut_at starting node, s)
          else remove_double_triple starting (ending - NUM_OF_SINGLE_INDIRECT_BLOCK_ADDR) node s
        }
      })"

text \<open>One round of the loop over a double indirect block. The loop variable \<open>j\<close> ends at \<open>last\<close>.\<close>

definition remove_single_below ::
  "int \<Rightarrow> int \<Rightarrow> buf \<Rightarrow> int \<Rightarrow> int \<times> altfs \<Rightarrow> (int \<times> altfs, bool) ctl option" where
  "remove_single_below double_i_idx inner_idx double_arr i = (\<lambda>(ending, s). do {
     let j = (if i = double_i_idx then inner_idx else 0);
     data_block_num \<leftarrow> arr_get double_arr i;
     if data_block_num \<le> 0 then Some (Return False (ending, s))
     else do {
       p \<leftarrow> read_data_block data_block_num s;
       arr \<leftarrow> p;
       c \<leftarrow> free_addr_range j ending arr s;
       let (ok, arr, s) = finish True c;
       if \<not> ok then Some (Return False (ending, s))
       else do {
         let last = max j (min ending NUM_OF_SINGLE_INDIRECT_BLOCK_ADDR);
         (ok, s) \<leftarrow> write_data_block data_block_num (Some arr) s;
         if \<not> ok then Some (Return False (ending, s))
         else if last = ending then Some (Break (ending, s))
         else do {
           let ending = ending - NUM_OF_SINGLE_INDIRECT_BLOCK_ADDR;
           if \<not> (i = double_i_idx \<and> last > 0) then do {
             (ok, s) \<leftarrow> free_data_block data_block_num s;
             Some (if ok then Next (ending, s) else Return False (ending, s))
           }
           else Some (Next (ending, s))
         }
       }
     }
   })"

definition remove_from_double :: "int \<Rightarrow> int \<Rightarrow> inode \<Rightarrow> altfs \<Rightarrow> (bool \<times> inode \<times> altfs) option" where
  "remove_from_double starting logical node s =
     (if i_double_indirect node = 0 then Some (False, node, s)
      else do {
        let double_i_idx = c_div logical NUM_OF_ADDRESSES_PER_BLOCK;
        let inner_idx = c_mod logical NUM_OF_ADDRESSES_PER_BLOCK;
        p \<leftarrow> read_data_block (i_double_indirect node) s;
        double_arr \<leftarrow> p;
        let ending = i_blocks_num node - (NUM_OF_SINGLE_INDIRECT_BLOCK_ADDR + NUM_OF_DIRECT_BLOCKS)
                       - NUM_OF_SINGLE_INDIRECT_BLOCK_ADDR * double_i_idx;
        c \<leftarrow> for_loop double_i_idx NUM_OF_SINGLE_INDIRECT_BLOCK_ADDR
               (remove_single_below double_i_idx inner_idx double_arr) (ending, s);
        let (ok, ending, s) = finish True c;
        if \<not> ok then Some (False, node, s)
        else if ending \<le> NUM_OF_DOUBLE_INDIRECT_BLOCK_ADDR then Some (True, cut_at starting node, s)
        else do {
          (ok, s) \<leftarrow> remove_datablocks_utility 3 (i_triple_indirect node) s;
          if \<not> ok then Some (False, node, s)
          else Some (True, cut_at starting (node\<lparr>i_triple_indirect := 0\<rparr>), s)
        }
      })"

text \<open>The triple indirect area: \<open>remove_single_in_triple\<close> is the body of the loop over \<open>j\<close>,
  \<open>remove_double_below\<close> the one of the loop over \<open>i\<close>. The state of the inner loop carries
  \<open>has_reached_end\<close>.\<close>

definition remove_single_in_triple ::
  "int \<Rightarrow> int \<Rightarrow> buf \<Rightarrow> int \<Rightarrow> bool \<times> int \<times> altfs \<Rightarrow> (bool \<times> int \<times> altfs, bool) ctl option" where
  "remove_single_in_triple double_i_idx inner_idx double_arr j = (\<lambda>(reached, ending, s). do {
     n \<leftarrow> arr_get double_arr j;
     if n \<le> 0 then Some (Return False (reached, ending, s))
     else do {
       let k = (if j = double_i_idx then inner_idx else 0);
       p \<leftarrow> read_data_block n s;
       arr \<leftarrow> p;
       let should_free_single_indirect = (k \<noteq> inner_idx);
       c \<leftarrow> free_addr_range k ending arr s;
       let (ok, arr, s) = finish True c;
       if \<not> ok then Some (Return False (reached, ending, s))
       else do {
         let last = max k (min ending NUM_OF_SINGLE_INDIRECT_BLOCK_ADDR);
         (ok, s) \<leftarrow> write_data_block n (Some arr) s;
         if \<not> ok then Some (Return False (reached, ending, s))
         else if last = ending then Some (Break (True, ending, s))
         else do {
           let ending = ending - NUM_OF_SINGLE_INDIRECT_BLOCK_ADDR;
           if should_free_single_indirect then do {
             (ok, s) \<leftarrow> free_data_block n s;
             Some (if ok then Next (reached, ending, s) else Return False (reached, ending, s))
           }
           else Some (Next (reached, ending, s))
         }
       }
     }
   })"

definition remove_double_below ::
  "int \<Rightarrow> int \<Rightarrow> int \<Rightarrow> buf \<Rightarrow> int \<Rightarrow> int \<times> altfs \<Rightarrow> (int \<times> altfs, bool) ctl option" where
  "remove_double_below triple_i_idx double_i_idx inner_idx triple_arr i = (\<lambda>(ending, s). do {
     data_block_num \<leftarrow> arr_get triple_arr i;
     if data_block_num \<le> 0 then Some (Return False (ending, s))
     else do {
       let j = (if i = triple_i_idx then double_i_idx else 0);
       p \<leftarrow> read_data_block data_block_num s;
       double_arr \<leftarrow> p;
       let should_free_double_indirect = (j \<noteq> double_i_idx);
       c \<leftarrow> for_loop j NUM_OF_SINGLE_INDIRECT_BLOCK_ADDR
              (remove_single_in_triple double_i_idx inner_idx double_arr) (False, ending, s);
       let (ok, reached, ending, s) = finish True c;
       if \<not> ok then Some (Return False (ending, s))
       else if reached then Some (Break (ending, s))
       else if should_free_double_indirect then do {
         (ok, s) \<leftarrow> free_data_block data_block_num s;
         Some (if ok then Next (ending, s) else Return False (ending, s))
       }
       else Some (Next (ending, s))
     }
   })"

definition remove_from_triple :: "int \<Rightarrow> int \<Rightarrow> inode \<Rightarrow> altfs \<Rightarrow> (bool \<times> inode \<times> altfs) option" where
  "remove_from_triple starting logical node s =
     (if i_triple_indirect node = 0 then Some (False, node, s)
      else do {
        let triple_i_idx = c_div logical NUM_OF_DOUBLE_INDIRECT_BLOCK_ADDR;
        let double_i_idx = c_mod (c_div logical NUM_OF_ADDRESSES_PER_BLOCK) NUM_OF_ADDRESSES_PER_BLOCK;
        let inner_idx = c_mod logical NUM_OF_ADDRESSES_PER_BLOCK;
        p \<leftarrow> read_data_block (i_triple_indirect node) s;
        triple_arr \<leftarrow> p;
        let ending = i_blocks_num node
              - (NUM_OF_DOUBLE_INDIRECT_BLOCK_ADDR + NUM_OF_SINGLE_INDIRECT_BLOCK_ADDR + NUM_OF_DIRECT_BLOCKS)
              - (NUM_OF_DOUBLE_INDIRECT_BLOCK_ADDR * triple_i_idx
                 + NUM_OF_SINGLE_INDIRECT_BLOCK_ADDR * double_i_idx);
        c \<leftarrow> for_loop triple_i_idx NUM_OF_SINGLE_INDIRECT_BLOCK_ADDR
               (remove_double_below triple_i_idx double_i_idx inner_idx triple_arr) (ending, s);
        let (ok, ending, s) = finish True c;
        Some (ok, if ok then cut_at starting node else node, s)
      })"

definition remove_datablocks_from_inode ::
  "inode \<Rightarrow> int \<Rightarrow> altfs \<Rightarrow> (bool \<times> inode \<times> altfs) option" where
  "remove_datablocks_from_inode node starting s =
     (if starting \<ge> i_blocks_num node then Some (False, node, s)
      else if starting \<le> NUM_OF_DIRECT_BLOCKS then remove_from_direct starting node s
      else let logical = starting - NUM_OF_DIRECT_BLOCKS in
        if logical \<le> NUM_OF_SINGLE_INDIRECT_BLOCK_ADDR then remove_from_single starting logical node s
        else let logical = logical - NUM_OF_SINGLE_INDIRECT_BLOCK_ADDR in
          if logical \<le> NUM_OF_DOUBLE_INDIRECT_BLOCK_ADDR then remove_from_double starting logical node s
          else let logical = logical - NUM_OF_DOUBLE_INDIRECT_BLOCK_ADDR in
            if logical \<le> NUM_OF_TRIPLE_INDIRECT_BLOCK_ADDR then remove_from_triple starting logical node s
            else Some (False, node, s))"

end
