(* ===== verification/Inode_Cache.thy ===== *)
theory Inode_Cache
  imports AltFS_Prelude
begin

text \<open>
  \<open>src/inode_cache.c\<close>: the cache from paths to inode numbers. All entries form one doubly linked
  list in the order of their last use; the array \<open>map\<close> has for every hash index the entry that was
  set last, and a lookup walks the list of all entries from there. The entries live in an explicit
  store: following a NULL pointer or a pointer to a freed entry is undefined, as is an index outside
  of the array. The operations are proved against the list of the entries: the list is a
  well-formed doubly linked list (\<open>seg\<close>), and a use moves the entry to the front.
\<close>

section \<open>Strings\<close>

text \<open>A C string is the list of its bytes before the NUL.\<close>

type_synonym cstr = "byte list"

definition is_cstr :: "cstr \<Rightarrow> bool" where
  "is_cstr str \<longleftrightarrow> 0 \<notin> set str"

text \<open>\<open>char\<close> is signed, so \<open>c\<close> is the signed value of the byte.\<close>

definition isupper :: "int \<Rightarrow> bool" where
  "isupper c \<longleftrightarrow> 65 \<le> c \<and> c \<le> 90"

definition hash_step :: "64 word \<Rightarrow> byte \<Rightarrow> 64 word" where
  "hash_step hash b = (let c = sint b in
     if isupper c then (push_bit 5 hash + hash) + word_of_int (c + 32) else hash)"

definition hash_func :: "cstr \<Rightarrow> 64 word" where
  "hash_func str = foldl hash_step 5381 str"

section \<open>The cache\<close>

text \<open>The address of an entry is a number that is never given out again; \<open>None\<close> is NULL.\<close>

type_synonym eref = "nat option"

record cache_entry =
  prev_entry :: eref
  next_entry :: eref
  entry_key :: cstr
  entry_value :: int

text \<open>\<open>cmap\<close> is \<open>None\<close> where \<open>map\<close> is NULL. \<open>heap\<close> and \<open>fresh\<close> are the store of the entries.\<close>

record inode_cache =
  csize :: int
  capacity :: int
  cmap :: "(int \<Rightarrow> eref) option"
  cache_head :: eref
  cache_tail :: eref
  heap :: "nat \<rightharpoonup> cache_entry"
  fresh :: nat

definition create_inode_cache :: "int \<Rightarrow> inode_cache" where
  "create_inode_cache cap = \<lparr>csize = 0, capacity = cap, cmap = Some (\<lambda>_. None),
     cache_head = None, cache_tail = None, heap = Map.empty, fresh = 0\<rparr>"

definition entry_at :: "inode_cache \<Rightarrow> eref \<Rightarrow> cache_entry option" where
  "entry_at c p = do { a \<leftarrow> p; heap c a }"

text \<open>An assignment to a field of the entry \<open>p\<close> points to.\<close>

definition set_entry :: "eref \<Rightarrow> (cache_entry \<Rightarrow> cache_entry) \<Rightarrow> inode_cache \<Rightarrow> inode_cache option" where
  "set_entry p f c = do {
     a \<leftarrow> p;
     e \<leftarrow> heap c a;
     Some (c\<lparr>heap := (heap c)(a \<mapsto> f e)\<rparr>)
   }"

text \<open>Freeing an entry that was freed before is undefined.\<close>

definition free_cache_entry :: "eref \<Rightarrow> inode_cache \<Rightarrow> inode_cache option" where
  "free_cache_entry node c = (case node of
     None \<Rightarrow> Some c
   | Some a \<Rightarrow> do {
       _ \<leftarrow> heap c a;
       Some (c\<lparr>heap := (heap c)(a := None)\<rparr>)
     })"

partial_function (option) free_list :: "eref \<Rightarrow> inode_cache \<Rightarrow> inode_cache option" where
  "free_list node c = (case node of
     None \<Rightarrow> Some c
   | Some a \<Rightarrow> do {
       e \<leftarrow> heap c a;
       c \<leftarrow> free_cache_entry node c;
       free_list (next_entry e) c
     })"

definition free_inode_cache :: "inode_cache option \<Rightarrow> inode_cache option option" where
  "free_inode_cache cache = (case cache of
     None \<Rightarrow> Some None
   | Some c \<Rightarrow> do {
       c \<leftarrow> free_list (cache_head c) c;
       Some (Some (c\<lparr>cache_head := None, cmap := None, cache_tail := None\<rparr>))
     })"

definition delete_node :: "eref \<Rightarrow> inode_cache \<Rightarrow> inode_cache option" where
  "delete_node node c = do {
     e \<leftarrow> entry_at c node;
     let c = (if node = cache_head c then c\<lparr>cache_head := next_entry e\<rparr>
              else if node = cache_tail c then c\<lparr>cache_tail := prev_entry e\<rparr>
              else c);
     c \<leftarrow> (if prev_entry e \<noteq> None then set_entry (prev_entry e) (next_entry_update (\<lambda>_. next_entry e)) c
           else Some c);
     e \<leftarrow> entry_at c node;
     c \<leftarrow> (if next_entry e \<noteq> None then set_entry (next_entry e) (prev_entry_update (\<lambda>_. prev_entry e)) c
           else Some c);
     free_cache_entry node c
   }"

text \<open>\<open>hash % capacity\<close> is computed on unsigned 64-bit numbers.\<close>

definition hash_index :: "inode_cache \<Rightarrow> cstr \<Rightarrow> int option" where
  "hash_index c key =
     (if word_of_int (capacity c) = (0 :: 64 word) then None
      else Some (sint (hash_func key mod word_of_int (capacity c))))"

definition map_get :: "inode_cache \<Rightarrow> int \<Rightarrow> eref option" where
  "map_get c i = do {
     m \<leftarrow> cmap c;
     if 0 \<le> i \<and> i < capacity c then Some (m i) else None
   }"

definition map_set :: "int \<Rightarrow> eref \<Rightarrow> inode_cache \<Rightarrow> inode_cache option" where
  "map_set i p c = do {
     m \<leftarrow> cmap c;
     if 0 \<le> i \<and> i < capacity c then Some (c\<lparr>cmap := Some (m(i := p))\<rparr>) else None
   }"

text \<open>The loop \<open>while (curr != NULL)\<close> of the lookups: the address of the first entry with the key,
  \<open>None\<close> where the end of the list is reached.\<close>

partial_function (option) find_entry :: "inode_cache \<Rightarrow> cstr \<Rightarrow> eref \<Rightarrow> eref option" where
  "find_entry c key cur = (case cur of
     None \<Rightarrow> Some None
   | Some a \<Rightarrow> do {
       e \<leftarrow> heap c a;
       if entry_key e = key then Some (Some a) else find_entry c key (next_entry e)
     })"

declare find_entry.simps [code] free_list.simps [code]

definition lookup_entry :: "inode_cache \<Rightarrow> cstr \<Rightarrow> eref option" where
  "lookup_entry c key = do {
     i \<leftarrow> hash_index c key;
     cur \<leftarrow> map_get c i;
     find_entry c key cur
   }"

text \<open>The NULL checks return \<open>-1\<close>, which is \<open>true\<close>.\<close>

definition remove_cache_entry :: "inode_cache option \<Rightarrow> cstr option \<Rightarrow> (bool \<times> inode_cache option) option" where
  "remove_cache_entry cache key = (case (cache, key) of
     (Some c, Some key) \<Rightarrow> do {
       cur \<leftarrow> lookup_entry c key;
       if cur \<noteq> None then do {
         c \<leftarrow> delete_node cur c;
         i \<leftarrow> hash_index c key;
         c \<leftarrow> map_set i None c;
         Some (True, Some c)
       }
       else Some (False, cache)
     }
   | _ \<Rightarrow> Some (True, cache))"

text \<open>The entry is unlinked and linked in before the head.\<close>

definition unlink_entry :: "eref \<Rightarrow> inode_cache \<Rightarrow> inode_cache option" where
  "unlink_entry cur c = do {
     e \<leftarrow> entry_at c cur;
     c \<leftarrow> set_entry (prev_entry e) (next_entry_update (\<lambda>_. next_entry e)) c;
     e \<leftarrow> entry_at c cur;
     if cur = cache_tail c then Some (c\<lparr>cache_tail := prev_entry e\<rparr>)
     else set_entry (next_entry e) (prev_entry_update (\<lambda>_. prev_entry e)) c
   }"

definition link_front :: "eref \<Rightarrow> inode_cache \<Rightarrow> inode_cache option" where
  "link_front cur c = do {
     c \<leftarrow> set_entry cur (prev_entry_update (\<lambda>_. None)) c;
     c \<leftarrow> set_entry cur (next_entry_update (\<lambda>_. cache_head c)) c;
     c \<leftarrow> set_entry (cache_head c) (prev_entry_update (\<lambda>_. cur)) c;
     Some (c\<lparr>cache_head := cur\<rparr>)
   }"

definition move_to_front :: "eref \<Rightarrow> inode_cache \<Rightarrow> inode_cache option" where
  "move_to_front cur c =
     (if cur = cache_head c then Some c
      else do {
        c \<leftarrow> unlink_entry cur c;
        link_front cur c
      })"

text \<open>A new entry before the head; its address.\<close>

definition push_entry :: "cstr \<Rightarrow> int \<Rightarrow> inode_cache \<Rightarrow> (eref \<times> inode_cache) option" where
  "push_entry key v c = do {
     let node = Some (fresh c);
     let c = c\<lparr>heap := (heap c)(fresh c \<mapsto> \<lparr>prev_entry = None, next_entry = cache_head c,
                 entry_key = key, entry_value = v\<rparr>), fresh := fresh c + 1\<rparr>;
     c \<leftarrow> (if cache_head c \<noteq> None then set_entry (cache_head c) (prev_entry_update (\<lambda>_. node)) c else Some c);
     let c = c\<lparr>cache_head := node\<rparr>;
     let c = (if cache_tail c = None then c\<lparr>cache_tail := node\<rparr> else c);
     Some (node, c\<lparr>csize := csize c + 1\<rparr>)
   }"

definition set_cache_entry :: "inode_cache option \<Rightarrow> cstr option \<Rightarrow> int \<Rightarrow> inode_cache option option" where
  "set_cache_entry cache key v = (case (cache, key) of
     (Some c, Some key) \<Rightarrow>
       if key = [] then Some cache
       else do {
         i \<leftarrow> hash_index c key;
         cur \<leftarrow> lookup_entry c key;
         if cur \<noteq> None then do {
           c \<leftarrow> set_entry cur (entry_value_update (\<lambda>_. v)) c;
           c \<leftarrow> move_to_front cur c;
           Some (Some c)
         }
         else do {
           (node, c) \<leftarrow> push_entry key v c;
           c \<leftarrow> (if csize c > capacity c then do {
                   c \<leftarrow> delete_node (cache_tail c) c;
                   Some (c\<lparr>csize := csize c - 1\<rparr>)
                 }
                 else Some c);
           c \<leftarrow> map_set i node c;
           Some (Some c)
         }
       }
   | _ \<Rightarrow> Some cache)"

definition get_cache_entry :: "inode_cache option \<Rightarrow> cstr option \<Rightarrow> (int \<times> inode_cache option) option" where
  "get_cache_entry cache key = (case (cache, key) of
     (Some c, Some key) \<Rightarrow>
       if key = [] then Some (-1, cache)
       else do {
         cur \<leftarrow> lookup_entry c key;
         if cur \<noteq> None then do {
           c \<leftarrow> move_to_front cur c;
           e \<leftarrow> entry_at c cur;
           Some (entry_value e, Some c)
         }
         else Some (-1, cache)
       }
   | _ \<Rightarrow> Some (-1, cache))"

section \<open>Doubly linked lists\<close>

definition first_of :: "nat list \<Rightarrow> eref \<Rightarrow> eref" where
  "first_of xs n = (case xs of [] \<Rightarrow> n | a # _ \<Rightarrow> Some a)"

definition last_of :: "eref \<Rightarrow> nat list \<Rightarrow> eref" where
  "last_of p xs = (if xs = [] then p else Some (last xs))"

lemma first_of_simps [simp]: "first_of [] n = n" "first_of (a # xs) n = Some a"
  by (simp_all add: first_of_def)

lemma last_of_simps [simp]: "last_of p [] = p" "last_of p (xs @ [a]) = Some a" "last_of p (a # xs) = last_of (Some a) xs"
  by (simp_all add: last_of_def)

lemma first_of_append: "first_of (xs @ ys) n = first_of xs (first_of ys n)"
  by (cases xs) auto

lemma last_of_append: "last_of p (xs @ ys) = last_of (last_of p xs) ys"
  by (simp add: last_of_def)

text \<open>\<open>seg h p xs n\<close>: the entries at \<open>xs\<close> are linked in this order, the first one has the
  predecessor \<open>p\<close> and the last one the successor \<open>n\<close>.\<close>

fun seg :: "(nat \<rightharpoonup> cache_entry) \<Rightarrow> eref \<Rightarrow> nat list \<Rightarrow> eref \<Rightarrow> bool" where
  "seg h p [] n \<longleftrightarrow> True"
| "seg h p (a # xs) n \<longleftrightarrow> (case h a of None \<Rightarrow> False | Some e \<Rightarrow>
     prev_entry e = p \<and> next_entry e = first_of xs n) \<and> seg h (Some a) xs n"

lemma seg_append: "seg h p (xs @ ys) n \<longleftrightarrow> seg h p xs (first_of ys n) \<and> seg h (last_of p xs) ys n"
  by (induction xs arbitrary: p) (auto simp: first_of_append split: option.splits)

lemma seg_upd_other [simp]: "a \<notin> set xs \<Longrightarrow> seg (h(a := e)) p xs n = seg h p xs n"
  by (induction xs arbitrary: p) auto

lemma seg_dom: "seg h p xs n \<Longrightarrow> a \<in> set xs \<Longrightarrow> \<exists>e. h a = Some e"
  by (induction xs arbitrary: p) (auto split: option.splits)

lemma seg_set_next:
  assumes "seg h p (xs @ [y]) n" "y \<notin> set xs" "h y = Some e"
  shows "seg (h(y \<mapsto> e\<lparr>next_entry := m\<rparr>)) p (xs @ [y]) m"
  using assms by (auto simp: seg_append)

lemma seg_set_prev:
  assumes "seg h p (z # zs) n" "z \<notin> set zs" "h z = Some e"
  shows "seg (h(z \<mapsto> e\<lparr>prev_entry := q\<rparr>)) q (z # zs) n"
  using assms by auto

lemma seg_entry:
  assumes "seg h p (ys @ a # zs) n"
  obtains e where "h a = Some e" "prev_entry e = last_of p ys" "next_entry e = first_of zs n"
  using assms by (auto simp: seg_append split: option.splits)

text \<open>Assignments through a pointer that may be NULL, where they are skipped.\<close>

definition set_next :: "(nat \<rightharpoonup> cache_entry) \<Rightarrow> eref \<Rightarrow> eref \<Rightarrow> (nat \<rightharpoonup> cache_entry)" where
  "set_next h p n = (case p of None \<Rightarrow> h | Some a \<Rightarrow> h(a := map_option (next_entry_update (\<lambda>_. n)) (h a)))"

definition set_prev :: "(nat \<rightharpoonup> cache_entry) \<Rightarrow> eref \<Rightarrow> eref \<Rightarrow> (nat \<rightharpoonup> cache_entry)" where
  "set_prev h n p = (case n of None \<Rightarrow> h | Some a \<Rightarrow> h(a := map_option (prev_entry_update (\<lambda>_. p)) (h a)))"

lemma set_links_None [simp]: "set_next h None n = h" "set_prev h None p = h"
  by (simp_all add: set_next_def set_prev_def)

lemma set_links_other [simp]:
  "p \<noteq> Some x \<Longrightarrow> set_next h p n x = h x" "q \<noteq> Some x \<Longrightarrow> set_prev h q n x = h x"
  by (auto simp: set_next_def set_prev_def split: option.splits)

lemma set_links_dom [simp]: "dom (set_next h p n) = dom h" "dom (set_prev h p n) = dom h"
  by (auto simp: set_next_def set_prev_def split: option.splits if_splits)

lemma seg_set_links_other [simp]:
  "(\<And>x. p = Some x \<Longrightarrow> x \<notin> set xs) \<Longrightarrow> seg (set_next h p q) r xs n = seg h r xs n"
  "(\<And>x. p = Some x \<Longrightarrow> x \<notin> set xs) \<Longrightarrow> seg (set_prev h p q) r xs n = seg h r xs n"
  by (auto simp: set_next_def set_prev_def split: option.splits)

lemma seg_last_next:
  assumes "seg h p ys n" "distinct ys"
  shows "seg (set_next h (last_of None ys) m) p ys m"
proof (cases ys rule: rev_cases)
  case (snoc us y)
  then obtain e where "h y = Some e" using assms(1) seg_dom by fastforce
  then show ?thesis
    using assms seg_set_next [of h p us y n e m] snoc by (simp add: set_next_def)
qed simp

lemma seg_first_prev:
  assumes "seg h p zs n" "distinct zs"
  shows "seg (set_prev h (first_of zs None) q) q zs n"
proof (cases zs)
  case (Cons z us)
  then obtain e where "h z = Some e" using assms(1) seg_dom by fastforce
  then show ?thesis
    using assms seg_set_prev [of h p z us n e q] Cons by (simp add: set_prev_def)
qed simp

lemma last_of_mem: "last_of None ys = Some x \<Longrightarrow> x \<in> set ys"
  by (auto simp: last_of_def split: if_splits)

lemma first_of_mem: "first_of zs None = Some x \<Longrightarrow> x \<in> set zs"
  by (auto simp: first_of_def split: list.splits)

lemma seg_change_next: "seg h p ys n \<Longrightarrow> ys = [] \<or> n = m \<Longrightarrow> seg h p ys m"
  by auto

text \<open>Taking an entry out of the list, and putting one in at the front.\<close>

lemma unlink_seg:
  assumes "seg h None ys (Some a)" "seg h (Some a) zs None" "distinct (ys @ zs)"
  shows "seg (set_prev (set_next h (last_of None ys) (first_of zs None)) (first_of zs None) (last_of None ys))
           None (ys @ zs) None"
proof -
  let ?h = "set_next h (last_of None ys) (first_of zs None)"
  have "seg ?h None ys (first_of zs None)" using assms seg_last_next by simp
  then have "seg (set_prev ?h (first_of zs None) (last_of None ys)) None ys (first_of zs None)"
    using assms(3) first_of_mem by (subst seg_set_links_other(2)) auto
  moreover have "seg ?h (Some a) zs None"
    using assms(2,3) last_of_mem by (subst seg_set_links_other(1)) auto
  then have "seg (set_prev ?h (first_of zs None) (last_of None ys)) (last_of None ys) zs None"
    using assms(3) seg_first_prev by simp
  ultimately show ?thesis by (simp add: seg_append)
qed

lemma push_seg:
  assumes "seg h None xs None" "distinct xs" "a \<notin> set xs" "prev_entry e = None" "next_entry e = first_of xs None"
  shows "seg ((set_prev h (first_of xs None) (Some a))(a \<mapsto> e)) None (a # xs) None"
  using assms seg_first_prev [of h None xs None "Some a"] by simp

section \<open>The invariant of the cache\<close>

definition entry_pair :: "cache_entry \<Rightarrow> cstr \<times> int" where
  "entry_pair e = (entry_key e, entry_value e)"

text \<open>\<open>cache_list c xs\<close>: the entries of the cache are exactly \<open>xs\<close>, the most recently used first.\<close>

definition cache_list :: "inode_cache \<Rightarrow> nat list \<Rightarrow> bool" where
  "cache_list c xs \<longleftrightarrow> distinct xs \<and> seg (heap c) None xs None \<and> dom (heap c) = set xs
     \<and> cache_head c = first_of xs None \<and> cache_tail c = last_of None xs \<and> (\<forall>a \<in> set xs. a < fresh c)"

text \<open>No slot of the array dangles, and each has an entry that belongs there.\<close>

definition slots_ok :: "inode_cache \<Rightarrow> nat list \<Rightarrow> bool" where
  "slots_ok c xs \<longleftrightarrow> 0 < capacity c \<and> capacity c < 2 ^ 63
     \<and> (\<exists>m. cmap c = Some m \<and> (\<forall>i a. m i = Some a \<longrightarrow> a \<in> set xs
          \<and> (\<forall>kv. map_option entry_pair (heap c a) = Some kv \<longrightarrow> hash_index c (fst kv) = Some i)))"

definition cache_inv :: "inode_cache \<Rightarrow> bool" where
  "cache_inv c \<longleftrightarrow> (\<exists>xs. cache_list c xs \<and> slots_ok c xs \<and> int (length xs) \<le> csize c)"

text \<open>The pairs of a path and an inode number that the cache holds.\<close>

definition cached :: "inode_cache \<Rightarrow> (cstr \<times> int) set" where
  "cached c = entry_pair ` ran (heap c)"

definition same_entries :: "inode_cache \<Rightarrow> inode_cache \<Rightarrow> bool" where
  "same_entries c c' \<longleftrightarrow> (\<forall>a. map_option entry_pair (heap c' a) = map_option entry_pair (heap c a))
     \<and> cmap c' = cmap c \<and> capacity c' = capacity c \<and> csize c' = csize c \<and> fresh c' = fresh c"

lemma same_entries_refl [simp]: "same_entries c c"
  by (simp add: same_entries_def)

lemma cached_alt: "cached c = {kv. \<exists>a. map_option entry_pair (heap c a) = Some kv}"
  by (force simp: cached_def ran_def)

lemma same_entries_cached: "same_entries c c' \<Longrightarrow> cached c' = cached c"
  by (simp add: same_entries_def cached_alt)

lemma create_inv: "0 < n \<Longrightarrow> n < 2 ^ 63 \<Longrightarrow> cache_inv (create_inode_cache n)"
  by (auto simp: cache_inv_def cache_list_def slots_ok_def create_inode_cache_def intro!: exI [of _ "[]"])

lemma create_cached [simp]: "cached (create_inode_cache n) = {}"
  by (simp add: cached_def create_inode_cache_def)

lemma hash_index_run:
  assumes "0 < capacity c" "capacity c < 2 ^ 63"
  shows "\<exists>i. hash_index c key = Some i \<and> 0 \<le> i \<and> i < capacity c"
proof -
  let ?w = "word_of_int (capacity c) :: 64 word"
  let ?r = "hash_func key mod ?w"
  have w: "uint ?w = capacity c" using assms by (simp add: uint_word_of_int)
  then have "?w \<noteq> 0" using assms(1) by auto
  moreover have "uint ?r = uint (hash_func key) mod capacity c" by (simp add: uint_mod w)
  then have r: "0 \<le> uint ?r" "uint ?r < capacity c" using assms(1) by auto
  moreover have "- (2 ^ 63) \<le> uint ?r" by (rule order_trans [OF _ r(1)]) simp
  then have "sint ?r = uint ?r"
    unfolding sint_uint using r(2) assms(2) by (intro signed_take_bit_int_eq_self) auto
  ultimately show ?thesis by (simp add: hash_index_def)
qed


section \<open>Lookups\<close>

definition has_key :: "inode_cache \<Rightarrow> cstr \<Rightarrow> nat \<Rightarrow> bool" where
  "has_key c key a \<longleftrightarrow> map_option entry_key (heap c a) = Some key"

text \<open>The loop ends and finds the first entry with the key.\<close>

lemma find_entry_seg:
  "seg (heap c) p xs None \<Longrightarrow> find_entry c key (first_of xs None) = Some (find (has_key c key) xs)"
proof (induction xs arbitrary: p)
  case Nil
  then show ?case by (simp add: find_entry.simps)
next
  case (Cons a xs)
  then obtain e where e: "heap c a = Some e" "next_entry e = first_of xs None"
    by (auto split: option.splits)
  have "find_entry c key (first_of xs None) = Some (find (has_key c key) xs)"
    using Cons.prems by (intro Cons.IH [of "Some a"]) simp
  moreover have "has_key c key a \<longleftrightarrow> entry_key e = key" using e(1) by (simp add: has_key_def)
  ultimately show ?case using e by (simp add: find_entry.simps [of _ _ "Some a"])
qed

text \<open>The part of the list a lookup that starts at a slot sees.\<close>

definition from_slot :: "eref \<Rightarrow> nat list \<Rightarrow> nat list" where
  "from_slot p xs = (case p of None \<Rightarrow> [] | Some a \<Rightarrow> dropWhile (\<lambda>x. x \<noteq> a) xs)"

lemma from_slot_first: "(\<And>a. p = Some a \<Longrightarrow> a \<in> set xs) \<Longrightarrow> first_of (from_slot p xs) None = p"
proof (cases p)
  case (Some a)
  assume "\<And>a. p = Some a \<Longrightarrow> a \<in> set xs"
  then have "dropWhile (\<lambda>x. x \<noteq> a) xs \<noteq> []" using Some by auto
  then show ?thesis using Some hd_dropWhile [of "\<lambda>x. x \<noteq> a" xs]
    by (auto simp: from_slot_def first_of_def split: list.splits)
qed (simp add: from_slot_def)

lemma from_slot_suffix: "\<exists>ys. xs = ys @ from_slot p xs \<or> from_slot p xs = []"
  by (cases p) (auto simp: from_slot_def intro: exI [of _ "takeWhile _ xs"] takeWhile_dropWhile_id [symmetric])

lemma from_slot_seg: "seg h None xs None \<Longrightarrow> \<exists>p. seg h p (from_slot q xs) None"
  using from_slot_suffix [of xs q] by (metis seg.simps(1) seg_append)

lemma from_slot_subset: "set (from_slot p xs) \<subseteq> set xs"
  by (cases p) (auto simp: from_slot_def dest: set_dropWhileD)

definition slot_of :: "inode_cache \<Rightarrow> cstr \<Rightarrow> eref" where
  "slot_of c key = the (cmap c) (the (hash_index c key))"

lemma lookup_entry_run:
  assumes "cache_list c xs" "slots_ok c xs"
  shows "lookup_entry c key = Some (find (has_key c key) (from_slot (slot_of c key) xs))"
proof -
  obtain m where m: "cmap c = Some m" "\<And>i a. m i = Some a \<Longrightarrow> a \<in> set xs"
    using assms(2) by (auto simp: slots_ok_def)
  obtain i where i: "hash_index c key = Some i" "0 \<le> i" "i < capacity c"
    using hash_index_run assms(2) by (metis slots_ok_def)
  have s: "slot_of c key = m i" by (simp add: slot_of_def m(1) i(1))
  obtain p where "seg (heap c) p (from_slot (m i) xs) None"
    using from_slot_seg assms(1) by (metis cache_list_def)
  from find_entry_seg [OF this] show ?thesis
    using from_slot_first [of "m i" xs] m i by (simp add: lookup_entry_def map_get_def s)
qed

lemma find_has_key:
  assumes "cache_list c xs" "find (has_key c key) (from_slot p xs) = Some a"
  obtains e where "a \<in> set xs" "heap c a = Some e" "entry_key e = key"
proof -
  obtain i where "i < length (from_slot p xs)" "from_slot p xs ! i = a" "has_key c key a"
    using assms(2) unfolding find_Some_iff by auto
  then have "a \<in> set xs" using from_slot_subset nth_mem by fast
  then show ?thesis using \<open>has_key c key a\<close> that by (auto simp: has_key_def)
qed

section \<open>Moving an entry to the front\<close>

lemma cache_list_split:
  assumes "cache_list c xs" "a \<in> set xs"
  obtains ys zs e where "xs = ys @ a # zs" "a \<notin> set ys" "a \<notin> set zs" "distinct (ys @ zs)"
    "heap c a = Some e" "prev_entry e = last_of None ys" "next_entry e = first_of zs None"
    "seg (heap c) None ys (Some a)" "seg (heap c) (Some a) zs None"
proof -
  obtain ys zs where xs: "xs = ys @ a # zs" using assms(2) by (auto simp: in_set_conv_decomp)
  then have s: "seg (heap c) None (ys @ a # zs) None" "distinct (ys @ a # zs)"
    using assms(1) by (auto simp: cache_list_def)
  then obtain e where e: "heap c a = Some e" "prev_entry e = last_of None ys" "next_entry e = first_of zs None"
    by (elim seg_entry)
  show ?thesis by (rule that [OF xs _ _ _ e]) (use s in \<open>auto simp: seg_append\<close>)
qed

lemma remove1_split: "a \<notin> set ys \<Longrightarrow> remove1 a (ys @ a # zs) = ys @ zs"
  by (simp add: remove1_append)

lemma set_links_pair [simp]:
  "map_option entry_pair (set_next h p n x) = map_option entry_pair (h x)"
  "map_option entry_pair (set_prev h p n x) = map_option entry_pair (h x)"
  by (cases "h x"; auto simp: set_next_def set_prev_def entry_pair_def split: option.splits)+

lemma set_entry_next:
  "heap c y \<noteq> None \<Longrightarrow>
   set_entry (Some y) (next_entry_update (\<lambda>_. n)) c = Some (c\<lparr>heap := set_next (heap c) (Some y) n\<rparr>)"
  by (auto simp: set_entry_def set_next_def)

lemma set_entry_prev:
  "heap c y \<noteq> None \<Longrightarrow>
   set_entry (Some y) (prev_entry_update (\<lambda>_. n)) c = Some (c\<lparr>heap := set_prev (heap c) (Some y) n\<rparr>)"
  by (auto simp: set_entry_def set_prev_def)

text \<open>The heap after the entry between \<open>ys\<close> and \<open>zs\<close> is taken out.\<close>

definition unlinked :: "(nat \<rightharpoonup> cache_entry) \<Rightarrow> nat list \<Rightarrow> nat list \<Rightarrow> (nat \<rightharpoonup> cache_entry)" where
  "unlinked h ys zs =
     set_prev (set_next h (last_of None ys) (first_of zs None)) (first_of zs None) (last_of None ys)"

lemma unlinked_pair [simp]: "map_option entry_pair (unlinked h ys zs x) = map_option entry_pair (h x)"
  by (simp add: unlinked_def)

lemma unlinked_dom [simp]: "dom (unlinked h ys zs) = dom h"
  by (simp add: unlinked_def)

lemma unlinked_other [simp]:
  assumes "x \<notin> set ys" "x \<notin> set zs"
  shows "unlinked h ys zs x = h x"
proof -
  have "first_of zs None \<noteq> Some x" "last_of None ys \<noteq> Some x"
    using assms first_of_mem last_of_mem by blast+
  then show ?thesis by (simp add: unlinked_def)
qed

lemma unlink_entry_run:
  assumes "cache_list c (ys @ a # zs)" "ys \<noteq> []"
  shows "unlink_entry (Some a) c =
     Some (c\<lparr>heap := unlinked (heap c) ys zs, cache_tail := last_of None (ys @ zs)\<rparr>)"
proof -
  note cl = assms(1) [unfolded cache_list_def]
  obtain y vs where y: "ys = vs @ [y]" using assms(2) by (cases ys rule: rev_cases) auto
  obtain e where e: "heap c a = Some e" "prev_entry e = Some y" "next_entry e = first_of zs None"
  proof (rule seg_entry [of "heap c" None ys a zs None])
    show "seg (heap c) None (ys @ a # zs) None" using cl by simp
  qed (simp add: y)
  have dom: "heap c x \<noteq> None" if "x \<in> set ys \<or> x \<in> set zs" for x using cl that by (auto simp: dom_def)
  let ?h = "set_next (heap c) (Some y) (first_of zs None)"
  have ha: "?h a = Some e" using cl e(1) by (auto simp: y)
  have 1: "set_entry (prev_entry e) (next_entry_update (\<lambda>_. next_entry e)) c = Some (c\<lparr>heap := ?h\<rparr>)"
    using dom by (simp add: e set_entry_next y)
  show ?thesis
  proof (cases zs)
    case Nil
    then have "cache_tail c = Some a" using cl by (simp add: last_of_append)
    then show ?thesis using 1 ha by (simp add: unlink_entry_def entry_at_def e unlinked_def Nil y)
  next
    case (Cons z ws)
    have "cache_tail c = last_of None (ys @ zs)" "cache_tail c \<noteq> Some a"
      using cl by (auto simp: last_of_def Cons)
    moreover have "z \<noteq> y" using cl by (auto simp: Cons y)
    then have "?h z \<noteq> None" using dom [of z] by (simp add: Cons)
    then have "set_entry (next_entry e) (prev_entry_update (\<lambda>_. prev_entry e)) (c\<lparr>heap := ?h\<rparr>)
      = Some (c\<lparr>heap := unlinked (heap c) ys zs\<rparr>)"
      by (simp add: e Cons set_entry_prev unlinked_def y)
    ultimately show ?thesis using 1 ha by (simp add: unlink_entry_def entry_at_def e(1))
  qed
qed

lemma link_front_run:
  assumes "cache_head c = Some b" "heap c a = Some e" "heap c b \<noteq> None" "a \<noteq> b"
  shows "link_front (Some a) c = Some (c\<lparr>
     heap := (set_prev (heap c) (Some b) (Some a))(a \<mapsto> e\<lparr>prev_entry := None, next_entry := Some b\<rparr>),
     cache_head := Some a\<rparr>)"
  using assms by (auto simp: link_front_def set_entry_def set_prev_def fun_upd_twist)

lemma move_to_front_run:
  assumes "cache_list c xs" "a \<in> set xs"
  shows "\<exists>c'. move_to_front (Some a) c = Some c' \<and> cache_list c' (a # remove1 a xs) \<and> same_entries c c'"
proof -
  obtain ys zs e where xs: "xs = ys @ a # zs" and nin: "a \<notin> set ys" "a \<notin> set zs"
    and d: "distinct (ys @ zs)" and e: "heap c a = Some e"
    and s: "seg (heap c) None ys (Some a)" "seg (heap c) (Some a) zs None"
    using cache_list_split [OF assms] by metis
  note cl = assms(1) [unfolded cache_list_def xs]
  show ?thesis
  proof (cases ys)
    case Nil
    then show ?thesis using assms(1) cl by (auto simp: xs move_to_front_def)
  next
    case (Cons b us)
    let ?h = "unlinked (heap c) ys zs"
    let ?e = "e\<lparr>prev_entry := None, next_entry := Some b\<rparr>"
    define c1 where "c1 = c\<lparr>heap := ?h, cache_tail := last_of None (ys @ zs)\<rparr>"
    define c2 where "c2 = c1\<lparr>heap := (set_prev ?h (Some b) (Some a))(a \<mapsto> ?e), cache_head := Some a\<rparr>"
    have ne: "a \<noteq> b" using nin by (simp add: Cons)
    have hd: "cache_head c1 = Some b" using cl by (simp add: c1_def Cons)
    have "b \<in> dom ?h" using cl by (simp only: unlinked_dom) (simp add: Cons)
    then have "?h b \<noteq> None" by (simp only: domIff not_False_eq_True)
    then have "link_front (Some a) c1 = Some c2"
      using link_front_run [OF hd, of a e] ne e nin by (simp add: c1_def c2_def)
    then have "move_to_front (Some a) c = Some c2"
      using unlink_entry_run [of c ys a zs] assms(1) ne hd
      by (simp add: move_to_front_def xs Cons c1_def)
    moreover have "seg ((set_prev ?h (first_of (ys @ zs) None) (Some a))(a \<mapsto> ?e)) None (a # ys @ zs) None"
      by (rule push_seg) (use unlink_seg [OF s d] d nin in \<open>auto simp: unlinked_def Cons\<close>)
    then have "cache_list c2 (a # ys @ zs)"
      using cl by (auto simp: cache_list_def c2_def c1_def Cons)
    moreover have "same_entries c c2"
      using e by (auto simp: same_entries_def c2_def c1_def entry_pair_def)
    ultimately show ?thesis using nin(1) by (simp add: xs remove1_split)
  qed
qed

section \<open>The operations on the list\<close>

lemma hash_index_cong: "capacity c' = capacity c \<Longrightarrow> hash_index c' key = hash_index c key"
  by (simp add: hash_index_def)

lemma same_entries_slots:
  "same_entries c c' \<Longrightarrow> slots_ok c xs \<Longrightarrow> set xs = set ys \<Longrightarrow> slots_ok c' ys"
  by (simp add: same_entries_def slots_ok_def hash_index_cong [of c' c])

text \<open>\<open>get_cache_entry\<close>: a hit moves the entry to the front and returns its value, a miss changes
  nothing.\<close>

lemma get_entry_run:
  assumes "cache_list c xs" "slots_ok c xs" "key \<noteq> []"
  shows "case find (has_key c key) (from_slot (slot_of c key) xs) of
      None \<Rightarrow> get_cache_entry (Some c) (Some key) = Some (-1, Some c)
    | Some a \<Rightarrow> \<exists>e c'. heap c a = Some e \<and> entry_key e = key
        \<and> get_cache_entry (Some c) (Some key) = Some (entry_value e, Some c')
        \<and> cache_list c' (a # remove1 a xs) \<and> same_entries c c'"
proof (cases "find (has_key c key) (from_slot (slot_of c key) xs)")
  case None
  then show ?thesis using lookup_entry_run [OF assms(1,2)] assms(3) by (simp add: get_cache_entry_def)
next
  case (Some a)
  obtain e where e: "a \<in> set xs" "heap c a = Some e" "entry_key e = key"
    using find_has_key [OF assms(1) Some] .
  obtain c' where c': "move_to_front (Some a) c = Some c'" "cache_list c' (a # remove1 a xs)" "same_entries c c'"
    using move_to_front_run [OF assms(1) e(1)] by blast
  then obtain e' where e': "heap c' a = Some e'" "entry_pair e' = entry_pair e"
    using e(2) unfolding same_entries_def by (metis map_option_eq_Some option.simps(9))
  then have "get_cache_entry (Some c) (Some key) = Some (entry_value e, Some c')"
    using Some lookup_entry_run [OF assms(1,2)] assms(3) c'(1)
    by (simp add: get_cache_entry_def entry_at_def entry_pair_def)
  then show ?thesis using Some e c' by auto
qed

lemma remove1_set: "distinct xs \<Longrightarrow> a \<in> set xs \<Longrightarrow> set (a # remove1 a xs) = set xs"
  by (auto simp: set_remove1_eq)

lemma get_cache_inv:
  assumes "cache_inv c" "key \<noteq> []"
  shows "\<exists>v c'. get_cache_entry (Some c) (Some key) = Some (v, Some c') \<and> cache_inv c'
    \<and> cached c' = cached c \<and> csize c' = csize c \<and> capacity c' = capacity c \<and> (v = -1 \<or> (key, v) \<in> cached c)"
proof -
  obtain xs where xs: "cache_list c xs" "slots_ok c xs" "int (length xs) \<le> csize c"
    using assms(1) by (auto simp: cache_inv_def)
  show ?thesis
  proof (cases "find (has_key c key) (from_slot (slot_of c key) xs)")
    case None
    then show ?thesis using get_entry_run [OF xs(1,2) assms(2)] assms(1) by simp
  next
    case (Some a)
    then obtain e c' where c': "heap c a = Some e" "entry_key e = key"
      "get_cache_entry (Some c) (Some key) = Some (entry_value e, Some c')"
      "cache_list c' (a # remove1 a xs)" "same_entries c c'"
      using get_entry_run [OF xs(1,2) assms(2)] by auto
    have a: "a \<in> set xs" using find_has_key [OF xs(1) Some] by blast
    have "distinct xs" using xs(1) by (simp add: cache_list_def)
    then have "slots_ok c' (a # remove1 a xs)"
      using same_entries_slots [OF c'(5) xs(2)] remove1_set [OF _ a] by simp
    moreover have "length (a # remove1 a xs) = length xs" using a length_pos_if_in_set [OF a] by (simp add: length_remove1)
    ultimately have "cache_inv c'" using c'(4,5) xs(3) unfolding cache_inv_def same_entries_def by metis
    moreover have "(key, entry_value e) \<in> cached c"
      using c'(1,2) by (auto simp: cached_def ran_def entry_pair_def image_iff)
    ultimately show ?thesis
      using c'(3,5) same_entries_cached [OF c'(5)] by (auto simp: same_entries_def)
  qed
qed

text \<open>A new entry.\<close>

lemma push_entry_run:
  assumes "cache_list c xs"
  shows "\<exists>c'. push_entry key v c = Some (Some (fresh c), c') \<and> cache_list c' (fresh c # xs)
    \<and> (\<forall>a. map_option entry_pair (heap c' a) =
         (if a = fresh c then Some (key, v) else map_option entry_pair (heap c a)))
    \<and> cmap c' = cmap c \<and> capacity c' = capacity c \<and> csize c' = csize c + 1 \<and> fresh c' = fresh c + 1"
proof -
  note cl = assms [unfolded cache_list_def]
  let ?e = "\<lparr>prev_entry = None, next_entry = cache_head c, entry_key = key, entry_value = v\<rparr>"
  let ?c = "c\<lparr>heap := (set_prev (heap c) (first_of xs None) (Some (fresh c)))(fresh c \<mapsto> ?e),
    fresh := fresh c + 1, cache_head := Some (fresh c),
    cache_tail := last_of None (fresh c # xs), csize := csize c + 1\<rparr>"
  have new: "fresh c \<notin> set xs" using cl by auto
  have "push_entry key v c = Some (Some (fresh c), ?c)"
  proof (cases xs)
    case Nil
    then show ?thesis using cl by (simp add: push_entry_def Let_def)
  next
    case (Cons b us)
    have "b \<in> dom (heap c)" "fresh c \<noteq> b" using cl new by (auto simp: Cons)
    then have "set_entry (Some b) (prev_entry_update (\<lambda>_. Some (fresh c))) (c\<lparr>heap := (heap c)(fresh c \<mapsto> ?e), fresh := fresh c + 1\<rparr>)
      = Some (c\<lparr>heap := (set_prev (heap c) (Some b) (Some (fresh c)))(fresh c \<mapsto> ?e), fresh := fresh c + 1\<rparr>)"
      by (auto simp: set_entry_def set_prev_def fun_upd_twist)
    then show ?thesis using cl by (simp add: push_entry_def Let_def Cons last_of_def)
  qed
  moreover have "seg ((set_prev (heap c) (first_of xs None) (Some (fresh c)))(fresh c \<mapsto> ?e)) None (fresh c # xs) None"
    by (rule push_seg) (use cl new in auto)
  then have "cache_list ?c (fresh c # xs)" using cl new by (auto simp: cache_list_def)
  ultimately show ?thesis by (simp add: entry_pair_def)
qed

lemma seg_value [simp]:
  "h a = Some e \<Longrightarrow> seg (h(a \<mapsto> e\<lparr>entry_value := v\<rparr>)) p xs n = seg h p xs n"
  by (induction xs arbitrary: p) auto

lemma set_value_run:
  assumes "cache_list c xs" "slots_ok c xs" "heap c a = Some e"
  shows "cache_list (c\<lparr>heap := (heap c)(a \<mapsto> e\<lparr>entry_value := v\<rparr>)\<rparr>) xs"
    "slots_ok (c\<lparr>heap := (heap c)(a \<mapsto> e\<lparr>entry_value := v\<rparr>)\<rparr>) xs"
proof -
  let ?c = "c\<lparr>heap := (heap c)(a \<mapsto> e\<lparr>entry_value := v\<rparr>)\<rparr>"
  show "cache_list ?c xs" using assms by (auto simp: cache_list_def)
  have idx: "hash_index ?c = hash_index c" by (rule ext, rule hash_index_cong) simp
  have "hash_index c (fst kv) = Some i"
    if q: "map_option entry_pair (heap ?c x) = Some kv"
      "\<forall>kv. map_option entry_pair (heap c x) = Some kv \<longrightarrow> hash_index c (fst kv) = Some i" for x kv i
    using q assms(3) by (cases "x = a") (auto simp: entry_pair_def)
  then show "slots_ok ?c xs" using assms(2) unfolding slots_ok_def idx by fastforce
qed

lemma cached_update:
  assumes "\<And>x. map_option entry_pair (heap c' x) = (if x = a then Some (key, v) else map_option entry_pair (heap c x))"
  shows "cached c' \<subseteq> insert (key, v) (cached c)" "(key, v) \<in> cached c'"
  using assms by (auto simp: cached_alt split: if_splits)

text \<open>\<open>set_cache_entry\<close> on a key the lookup does not find: the entry is the first one and the slot
  of the key points to it.\<close>

lemma set_entry_miss:
  assumes "cache_list c xs" "slots_ok c xs" "key \<noteq> []" "csize c < capacity c"
    and miss: "find (has_key c key) (from_slot (slot_of c key) xs) = None"
  shows "\<exists>c'. set_cache_entry (Some c) (Some key) v = Some (Some c') \<and> cache_list c' (fresh c # xs)
    \<and> slots_ok c' (fresh c # xs) \<and> slot_of c' key = Some (fresh c)
    \<and> (\<forall>a. map_option entry_pair (heap c' a) =
         (if a = fresh c then Some (key, v) else map_option entry_pair (heap c a)))
    \<and> capacity c' = capacity c \<and> csize c' = csize c + 1
    \<and> (\<forall>k. hash_index c k \<noteq> hash_index c key \<longrightarrow> slot_of c' k = slot_of c k)"
proof -
  obtain c1 where c1: "push_entry key v c = Some (Some (fresh c), c1)" "cache_list c1 (fresh c # xs)"
    "\<And>a. map_option entry_pair (heap c1 a) = (if a = fresh c then Some (key, v) else map_option entry_pair (heap c a))"
    "cmap c1 = cmap c" "capacity c1 = capacity c" "csize c1 = csize c + 1"
    using push_entry_run [OF assms(1), of key v] by blast
  obtain m where m: "cmap c = Some m" "0 < capacity c" "capacity c < 2 ^ 63"
    "\<And>i a. m i = Some a \<Longrightarrow> a \<in> set xs \<and> (\<forall>kv. map_option entry_pair (heap c a) = Some kv \<longrightarrow> hash_index c (fst kv) = Some i)"
    using assms(2) by (auto simp: slots_ok_def)
  obtain i where i: "hash_index c key = Some i" "0 \<le> i" "i < capacity c"
    using hash_index_run m(2,3) by metis
  define c2 where "c2 = c1\<lparr>cmap := Some (m(i := Some (fresh c)))\<rparr>"
  have idx: "hash_index c2 = hash_index c" by (rule ext, rule hash_index_cong) (simp add: c2_def c1(5))
  have "set_cache_entry (Some c) (Some key) v = Some (Some c2)"
    using lookup_entry_run [OF assms(1,2)] miss assms(3,4) c1 i m(1)
    by (simp add: set_cache_entry_def map_set_def c2_def)
  moreover have "cache_list c2 (fresh c # xs)" using c1(2) by (simp add: cache_list_def c2_def)
  moreover have "fresh c \<notin> set xs" using assms(1) by (auto simp: cache_list_def)
  then have "slots_ok c2 (fresh c # xs)"
    unfolding slots_ok_def idx using m c1(3,5) i by (simp add: c2_def) (metis prod.sel(1))
  moreover have "slot_of c2 key = Some (fresh c)" by (simp add: slot_of_def idx i(1)) (simp add: c2_def)
  moreover have "slot_of c2 k = slot_of c k" if k: "hash_index c k \<noteq> hash_index c key" for k
  proof -
    obtain j where "hash_index c k = Some j" using hash_index_run m(2,3) by metis
    then show ?thesis using k i(1) m(1) by (simp add: slot_of_def idx) (simp add: c2_def)
  qed
  ultimately show ?thesis using c1(3,5,6) by (intro exI [of _ c2]) (simp add: c2_def)
qed

text \<open>\<open>set_cache_entry\<close> on a key the lookup finds: the entry takes the value and moves to the front.\<close>

lemma set_entry_hit:
  assumes "cache_list c xs" "slots_ok c xs" "key \<noteq> []"
    and hit: "find (has_key c key) (from_slot (slot_of c key) xs) = Some a"
  shows "\<exists>c'. set_cache_entry (Some c) (Some key) v = Some (Some c') \<and> cache_list c' (a # remove1 a xs)
    \<and> slots_ok c' (a # remove1 a xs)
    \<and> (\<forall>x. map_option entry_pair (heap c' x) =
         (if x = a then Some (key, v) else map_option entry_pair (heap c x)))
    \<and> capacity c' = capacity c \<and> csize c' = csize c"
proof -
  obtain e where e: "a \<in> set xs" "heap c a = Some e" "entry_key e = key"
    using find_has_key [OF assms(1) hit] .
  define c1 where "c1 = c\<lparr>heap := (heap c)(a \<mapsto> e\<lparr>entry_value := v\<rparr>)\<rparr>"
  have c1: "cache_list c1 xs" "slots_ok c1 xs"
    using set_value_run [OF assms(1,2) e(2)] by (simp_all add: c1_def)
  obtain c' where c': "move_to_front (Some a) c1 = Some c'" "cache_list c' (a # remove1 a xs)" "same_entries c1 c'"
    using move_to_front_run [OF c1(1) e(1)] by blast
  obtain i where "hash_index c key = Some i" using hash_index_run assms(2) by (metis slots_ok_def)
  then have "set_cache_entry (Some c) (Some key) v = Some (Some c')"
    using lookup_entry_run [OF assms(1,2)] hit assms(3) c'(1) e(2)
    by (simp add: set_cache_entry_def set_entry_def c1_def)
  moreover have "distinct xs" using assms(1) by (simp add: cache_list_def)
  then have "slots_ok c' (a # remove1 a xs)"
    using same_entries_slots [OF c'(3) c1(2)] remove1_set [OF _ e(1)] by simp
  ultimately show ?thesis using c'(2,3) e(2,3)
    by (intro exI [of _ c']) (auto simp: same_entries_def c1_def entry_pair_def)
qed

lemma set_cache_inv:
  assumes "cache_inv c" "key \<noteq> []" "csize c < capacity c"
  shows "\<exists>c'. set_cache_entry (Some c) (Some key) v = Some (Some c') \<and> cache_inv c'
    \<and> cached c' \<subseteq> insert (key, v) (cached c) \<and> (key, v) \<in> cached c'
    \<and> capacity c' = capacity c \<and> csize c' \<le> csize c + 1"
proof -
  obtain xs where xs: "cache_list c xs" "slots_ok c xs" "int (length xs) \<le> csize c"
    using assms(1) by (auto simp: cache_inv_def)
  show ?thesis
  proof (cases "find (has_key c key) (from_slot (slot_of c key) xs)")
    case None
    obtain c' where c': "set_cache_entry (Some c) (Some key) v = Some (Some c')" "cache_list c' (fresh c # xs)"
      "slots_ok c' (fresh c # xs)" "capacity c' = capacity c" "csize c' = csize c + 1"
      and h: "\<And>a. map_option entry_pair (heap c' a) = (if a = fresh c then Some (key, v) else map_option entry_pair (heap c a))"
      using set_entry_miss [OF xs(1,2) assms(2,3) None, of v] by blast
    have "int (length (fresh c # xs)) \<le> csize c'" using xs(3) c'(5) by simp
    then have "cache_inv c'" using c'(2,3) unfolding cache_inv_def by blast
    then show ?thesis using c'(1,4,5) cached_update [OF h] by simp
  next
    case (Some a)
    obtain c' where c': "set_cache_entry (Some c) (Some key) v = Some (Some c')" "cache_list c' (a # remove1 a xs)"
      "slots_ok c' (a # remove1 a xs)" "capacity c' = capacity c" "csize c' = csize c"
      and h: "\<And>x. map_option entry_pair (heap c' x) = (if x = a then Some (key, v) else map_option entry_pair (heap c x))"
      using set_entry_hit [OF xs(1,2) assms(2) Some, of v] by blast
    have a: "a \<in> set xs" using find_has_key [OF xs(1) Some] by blast
    have "length (a # remove1 a xs) = length xs" using length_pos_if_in_set [OF a] a by (simp add: length_remove1)
    then have "cache_inv c'" using c'(2,3,5) xs(3) unfolding cache_inv_def by metis
    then show ?thesis using c'(1,4,5) cached_update [OF h] by simp
  qed
qed

section \<open>Removing an entry\<close>

lemma delete_node_run:
  assumes "cache_list c (ys @ a # zs)"
  shows "\<exists>c'. delete_node (Some a) c = Some c' \<and> heap c' = (unlinked (heap c) ys zs)(a := None)
    \<and> cache_head c' = first_of (ys @ zs) None
    \<and> cache_tail c' = (if ys @ zs = [] then Some a else last_of None (ys @ zs))
    \<and> cmap c' = cmap c \<and> capacity c' = capacity c \<and> csize c' = csize c \<and> fresh c' = fresh c"
proof -
  note cl = assms [unfolded cache_list_def]
  obtain e where e: "heap c a = Some e" "prev_entry e = last_of None ys" "next_entry e = first_of zs None"
  proof (rule seg_entry [of "heap c" None ys a zs None])
    show "seg (heap c) None (ys @ a # zs) None" using cl by simp
  qed simp
  have dom: "heap c x \<noteq> None" if "x \<in> set ys \<or> x \<in> set zs" for x using cl that by (auto simp: dom_def)
  let ?h1 = "set_next (heap c) (last_of None ys) (first_of zs None)"
  define c1 where "c1 = c\<lparr>cache_head := first_of (ys @ zs) None,
    cache_tail := (if ys @ zs = [] then Some a else last_of None (ys @ zs))\<rparr>"
  have hd: "(if Some a = cache_head c then c\<lparr>cache_head := next_entry e\<rparr>
      else if Some a = cache_tail c then c\<lparr>cache_tail := prev_entry e\<rparr> else c) = c1"
    using cl by (cases ys; cases zs rule: rev_cases)
      (auto simp: c1_def e first_of_append last_of_append last_of_def)
  have 1: "(if prev_entry e \<noteq> None then set_entry (prev_entry e) (next_entry_update (\<lambda>_. next_entry e)) c1 else Some c1)
      = Some (c1\<lparr>heap := ?h1\<rparr>)"
  proof (cases ys rule: rev_cases)
    case (snoc us y)
    then show ?thesis using dom [of y] by (simp add: e set_entry_next c1_def)
  qed (simp add: e c1_def)
  have ha: "?h1 a = Some e" using cl e(1) last_of_mem by (subst set_links_other) auto
  have 2: "(if next_entry e \<noteq> None then set_entry (next_entry e) (prev_entry_update (\<lambda>_. prev_entry e)) (c1\<lparr>heap := ?h1\<rparr>)
      else Some (c1\<lparr>heap := ?h1\<rparr>)) = Some (c1\<lparr>heap := unlinked (heap c) ys zs\<rparr>)"
  proof (cases zs)
    case (Cons z us)
    have "last_of None ys \<noteq> Some z" using cl last_of_mem [of ys z] by (auto simp: Cons)
    then have "?h1 z \<noteq> None" using dom [of z] by (simp add: Cons)
    then show ?thesis by (simp add: e Cons set_entry_prev unlinked_def)
  qed (simp add: e unlinked_def)
  have "unlinked (heap c) ys zs a = Some e" using cl e(1) by simp
  then show ?thesis using 1 2 ha
    by (simp only: delete_node_def entry_at_def bind.bind_lunit e(1) hd Let_def)
       (simp add: free_cache_entry_def c1_def)
qed

lemma delete_node_list:
  assumes "cache_list c (ys @ a # zs)" "ys @ zs \<noteq> []"
  shows "\<exists>c'. delete_node (Some a) c = Some c' \<and> cache_list c' (ys @ zs)
    \<and> (\<forall>x. map_option entry_pair (heap c' x) = (if x = a then None else map_option entry_pair (heap c x)))
    \<and> cmap c' = cmap c \<and> capacity c' = capacity c \<and> csize c' = csize c"
proof -
  note cl = assms(1) [unfolded cache_list_def]
  obtain c' where c': "delete_node (Some a) c = Some c'" "heap c' = (unlinked (heap c) ys zs)(a := None)"
    "cache_head c' = first_of (ys @ zs) None" "cache_tail c' = last_of None (ys @ zs)"
    "cmap c' = cmap c" "capacity c' = capacity c" "csize c' = csize c" "fresh c' = fresh c"
    using delete_node_run [OF assms(1)] assms(2) by auto
  have "seg (unlinked (heap c) ys zs) None (ys @ zs) None"
    unfolding unlinked_def by (rule unlink_seg) (use cl in \<open>auto simp: seg_append\<close>)
  then have "seg (heap c') None (ys @ zs) None" using cl by (subst c'(2), subst seg_upd_other) auto
  moreover have "dom (heap c') = set (ys @ zs)" using cl by (auto simp: c'(2))
  ultimately have "cache_list c' (ys @ zs)" using cl c' by (auto simp: cache_list_def)
  then show ?thesis using c'(1,2,5,6,7) by simp
qed

text \<open>An entry that the lookup finds and that is not the only one is removed; the slot of the key is
  cleared, so that the next lookup of the key misses.\<close>

lemma remove_entry_run:
  assumes "cache_list c xs" "slots_ok c xs" "length xs \<ge> 2"
    and hit: "find (has_key c key) (from_slot (slot_of c key) xs) = Some a"
  shows "\<exists>c'. remove_cache_entry (Some c) (Some key) = Some (True, Some c') \<and> cache_list c' (remove1 a xs)
    \<and> slots_ok c' (remove1 a xs) \<and> slot_of c' key = None
    \<and> (\<forall>x. map_option entry_pair (heap c' x) = (if x = a then None else map_option entry_pair (heap c x)))
    \<and> capacity c' = capacity c \<and> csize c' = csize c"
proof -
  obtain e where e: "a \<in> set xs" "heap c a = Some e" "entry_key e = key"
    using find_has_key [OF assms(1) hit] .
  obtain ys zs where xs: "xs = ys @ a # zs" "a \<notin> set ys" "a \<notin> set zs"
    using cache_list_split [OF assms(1) e(1)] by metis
  have "ys @ zs \<noteq> []" using assms(3) by (auto simp: xs(1))
  then obtain c1 where c1: "delete_node (Some a) c = Some c1" "cache_list c1 (ys @ zs)"
    "\<And>x. map_option entry_pair (heap c1 x) = (if x = a then None else map_option entry_pair (heap c x))"
    "cmap c1 = cmap c" "capacity c1 = capacity c" "csize c1 = csize c"
    using delete_node_list [OF assms(1) [unfolded xs(1)]] by blast
  obtain m where m: "cmap c = Some m" "0 < capacity c" "capacity c < 2 ^ 63"
    "\<And>i a. m i = Some a \<Longrightarrow> a \<in> set xs \<and> (\<forall>kv. map_option entry_pair (heap c a) = Some kv \<longrightarrow> hash_index c (fst kv) = Some i)"
    using assms(2) by (auto simp: slots_ok_def)
  obtain i where i: "hash_index c key = Some i" "0 \<le> i" "i < capacity c"
    using hash_index_run m(2,3) by metis
  define c2 where "c2 = c1\<lparr>cmap := Some (m(i := None))\<rparr>"
  have idx: "hash_index c2 = hash_index c" "hash_index c1 = hash_index c"
    by (rule ext, rule hash_index_cong, simp add: c2_def c1(5))+
  have "remove_cache_entry (Some c) (Some key) = Some (True, Some c2)"
    using lookup_entry_run [OF assms(1,2)] hit c1 i m(1)
    by (simp add: remove_cache_entry_def map_set_def c2_def idx)
  moreover have "cache_list c2 (ys @ zs)" using c1(2) by (simp add: cache_list_def c2_def)
  moreover have "j = i" if "m j = Some a" for j
    using m(4) [OF that] e i(1) by (auto simp: entry_pair_def)
  then have "slots_ok c2 (ys @ zs)"
    unfolding slots_ok_def idx using m c1(3,5) xs by (simp add: c2_def) blast
  moreover have "slot_of c2 key = None" by (simp add: slot_of_def idx i(1)) (simp add: c2_def)
  ultimately show ?thesis using c1(3,5,6) xs by (intro exI [of _ c2]) (simp add: c2_def remove1_split)
qed

text \<open>Removing the only entry leaves \<open>tail\<close> pointing to the freed entry.\<close>

lemma remove_only_entry:
  assumes "cache_list c [a]" "slots_ok c [a]" "slot_of c key = Some a" "has_key c key a"
  shows "\<exists>c'. remove_cache_entry (Some c) (Some key) = Some (True, Some c')
    \<and> cache_head c' = None \<and> cache_tail c' = Some a \<and> heap c' a = None"
proof -
  obtain c1 where c1: "delete_node (Some a) c = Some c1" "heap c1 a = None" "cache_head c1 = None"
    "cache_tail c1 = Some a" "cmap c1 = cmap c" "capacity c1 = capacity c"
    using delete_node_run [of c "[]" a "[]"] assms(1) by auto
  obtain m where m: "cmap c = Some m" "0 < capacity c" "capacity c < 2 ^ 63"
    using assms(2) by (auto simp: slots_ok_def)
  obtain i where i: "hash_index c key = Some i" "0 \<le> i" "i < capacity c"
    using hash_index_run m(2,3) by metis
  have idx: "hash_index c1 = hash_index c"
    by (rule ext, rule hash_index_cong, simp add: c1(6))
  show ?thesis
    using lookup_entry_run [OF assms(1,2)] assms(3,4) c1 m i
    by (simp add: remove_cache_entry_def map_set_def from_slot_def idx)
qed

section \<open>Freeing the cache\<close>

lemma free_list_run:
  "seg (heap c) p xs None \<Longrightarrow> distinct xs \<Longrightarrow>
   free_list (first_of xs None) c = Some (c\<lparr>heap := (heap c) |` (- set xs)\<rparr>)"
proof (induction xs arbitrary: p c)
  case Nil
  then show ?case by (simp add: free_list.simps)
next
  case (Cons a xs)
  then obtain e where e: "heap c a = Some e" "next_entry e = first_of xs None"
    by (auto split: option.splits)
  let ?c = "c\<lparr>heap := (heap c)(a := None)\<rparr>"
  have hc: "heap ?c = (heap c)(a := None)" by simp
  have "seg (heap ?c) (Some a) xs None" "distinct xs"
    unfolding hc using Cons.prems by (subst seg_upd_other, simp_all)
  then have "free_list (first_of xs None) ?c = Some (?c\<lparr>heap := (heap ?c) |` (- set xs)\<rparr>)"
    by (rule Cons.IH)
  moreover have "(heap c)(a := None) |` (- set xs) = heap c |` (- set (a # xs))"
    by (auto simp: restrict_map_def fun_eq_iff)
  ultimately show ?case using e by (simp add: free_list.simps [of "Some a"] free_cache_entry_def)
qed

lemma free_inode_cache_run:
  assumes "cache_list c xs"
  shows "free_inode_cache (Some c) =
    Some (Some (c\<lparr>heap := Map.empty, cache_head := None, cmap := None, cache_tail := None\<rparr>))"
proof -
  have "heap c |` (- set xs) = Map.empty"
    using assms by (auto simp: cache_list_def restrict_map_def fun_eq_iff domIff)
  then show ?thesis
    using free_list_run [of c None xs] assms by (simp add: free_inode_cache_def cache_list_def)
qed

section \<open>The contract of the cache\<close>

text \<open>What the path lookup relies on: neither operation is undefined, and a value that is returned
  was set for the same key.\<close>

locale path_cache =
  fixes get :: "'c \<Rightarrow> 'k \<Rightarrow> (int \<times> 'c) option"
    and set_val :: "'c \<Rightarrow> 'k \<Rightarrow> int \<Rightarrow> 'c option"
    and inv :: "'c \<Rightarrow> bool" and content :: "'c \<Rightarrow> ('k \<times> int) set" and room :: "'c \<Rightarrow> int"
    and key_ok :: "'k \<Rightarrow> bool"
  assumes get_law: "inv c \<Longrightarrow> key_ok k \<Longrightarrow> \<exists>v c'. get c k = Some (v, c') \<and> inv c'
      \<and> content c' = content c \<and> room c' = room c \<and> (v = -1 \<or> (k, v) \<in> content c)"
    and set_law: "inv c \<Longrightarrow> key_ok k \<Longrightarrow> 0 < room c \<Longrightarrow> \<exists>c'. set_val c k v = Some c' \<and> inv c'
      \<and> content c' \<subseteq> insert (k, v) (content c) \<and> room c - 1 \<le> room c'"
begin

text \<open>A property of all entries holds of what is answered, and is kept by setting values that have
  it.\<close>

lemma get_keeps:
  assumes "inv c" "key_ok k" "\<forall>(k, v) \<in> content c. P k v"
  obtains v c' where "get c k = Some (v, c')" "inv c'" "v = -1 \<or> P k v"
    "\<forall>(k, v) \<in> content c'. P k v" "room c' = room c"
proof -
  obtain v c' where c': "get c k = Some (v, c')" "inv c'" "content c' = content c" "room c' = room c"
    "v = -1 \<or> (k, v) \<in> content c"
    using get_law [OF assms(1,2)] by blast
  then show ?thesis using assms(3) by (intro that [OF c'(1,2) _ _ c'(4)]) auto
qed

lemma set_keeps:
  assumes "inv c" "key_ok k" "0 < room c" "\<forall>(k, v) \<in> content c. P k v" "P k v"
  obtains c' where "set_val c k v = Some c'" "inv c'" "\<forall>(k, v) \<in> content c'. P k v" "room c - 1 \<le> room c'"
proof -
  obtain c' where c': "set_val c k v = Some c'" "inv c'" "content c' \<subseteq> insert (k, v) (content c)" "room c - 1 \<le> room c'"
    using set_law [OF assms(1-3)] by blast
  then show ?thesis using assms(4,5) by (intro that [OF c'(1,2) _ c'(4)]) auto
qed

end

definition cache_ok :: "inode_cache option \<Rightarrow> bool" where
  "cache_ok p \<longleftrightarrow> (\<exists>c. p = Some c \<and> cache_inv c)"

definition cache_content :: "inode_cache option \<Rightarrow> (cstr \<times> int) set" where
  "cache_content p = (case p of None \<Rightarrow> {} | Some c \<Rightarrow> cached c)"

definition cache_room :: "inode_cache option \<Rightarrow> int" where
  "cache_room p = (case p of None \<Rightarrow> 0 | Some c \<Rightarrow> capacity c - csize c)"

interpretation inode_numbers: path_cache "\<lambda>c k. get_cache_entry c (Some k)" "\<lambda>c k. set_cache_entry c (Some k)"
  cache_ok cache_content cache_room "\<lambda>k. k \<noteq> []"
proof
  fix c :: "inode_cache option" and k :: cstr
  assume "cache_ok c" "k \<noteq> []"
  then obtain d where d: "c = Some d" "cache_inv d" by (auto simp: cache_ok_def)
  then show "\<exists>v c'. get_cache_entry c (Some k) = Some (v, c') \<and> cache_ok c'
      \<and> cache_content c' = cache_content c \<and> cache_room c' = cache_room c \<and> (v = -1 \<or> (k, v) \<in> cache_content c)"
    using get_cache_inv [OF d(2) \<open>k \<noteq> []\<close>] by (fastforce simp: cache_ok_def cache_content_def cache_room_def)
next
  fix c :: "inode_cache option" and k :: cstr and v :: int
  assume "cache_ok c" "k \<noteq> []" "0 < cache_room c"
  then obtain d where d: "c = Some d" "cache_inv d" "csize d < capacity d" by (auto simp: cache_ok_def cache_room_def)
  then show "\<exists>c'. set_cache_entry c (Some k) v = Some c' \<and> cache_ok c'
      \<and> cache_content c' \<subseteq> insert (k, v) (cache_content c) \<and> cache_room c - 1 \<le> cache_room c'"
    using set_cache_inv [OF d(2) \<open>k \<noteq> []\<close> d(3)] by (fastforce simp: cache_ok_def cache_content_def cache_room_def)
qed

section \<open>Sequences of operations\<close>

datatype cache_op = Get cstr | Set cstr int | Remove cstr

fun run_op :: "cache_op \<Rightarrow> inode_cache option \<Rightarrow> (int \<times> inode_cache option) option" where
  "run_op (Get k) c = get_cache_entry c (Some k)"
| "run_op (Set k v) c = do { c \<leftarrow> set_cache_entry c (Some k) v; Some (0, c) }"
| "run_op (Remove k) c = do { (ok, c) \<leftarrow> remove_cache_entry c (Some k); Some (if ok then 1 else 0, c) }"

text \<open>The results of the operations and the cache after them.\<close>

fun run_ops :: "cache_op list \<Rightarrow> inode_cache option \<Rightarrow> (int list \<times> inode_cache option) option" where
  "run_ops [] c = Some ([], c)"
| "run_ops (op # ops) c = do {
     (r, c) \<leftarrow> run_op op c;
     (rs, c) \<leftarrow> run_ops ops c;
     Some (r # rs, c)
   }"

definition op_ok :: "cache_op \<Rightarrow> bool" where
  "op_ok op = (case op of Get k \<Rightarrow> k \<noteq> [] | Set k v \<Rightarrow> k \<noteq> [] | Remove k \<Rightarrow> False)"

definition is_set :: "cache_op \<Rightarrow> bool" where
  "is_set op = (case op of Set k v \<Rightarrow> True | _ \<Rightarrow> False)"

lemma run_op_sound:
  assumes "cache_ok c" "op_ok op" "is_set op \<Longrightarrow> 0 < cache_room c"
  shows "\<exists>r c'. run_op op c = Some (r, c') \<and> cache_ok c'
    \<and> cache_content c' \<subseteq> cache_content c \<union> {(k, v). op = Set k v}
    \<and> cache_room c - (if is_set op then 1 else 0) \<le> cache_room c'
    \<and> (\<forall>k. op = Get k \<longrightarrow> r = -1 \<or> (k, r) \<in> cache_content c)"
proof (cases op)
  case (Get k)
  then have "k \<noteq> []" using assms(2) by (simp add: op_ok_def)
  then show ?thesis using inode_numbers.get_law [OF assms(1)] Get by (fastforce simp: is_set_def)
next
  case (Set k v)
  then have k: "k \<noteq> []" "0 < cache_room c" using assms(2,3) by (simp_all add: op_ok_def is_set_def)
  then obtain c' where "set_cache_entry c (Some k) v = Some c'" "cache_ok c'"
    "cache_content c' \<subseteq> insert (k, v) (cache_content c)" "cache_room c - 1 \<le> cache_room c'"
    using inode_numbers.set_law [OF assms(1)] by blast
  then show ?thesis using Set by (auto simp: is_set_def)
qed (use assms(2) in \<open>simp add: op_ok_def\<close>)

lemma run_ops_sound:
  assumes "cache_ok c" "\<forall>op \<in> set ops. op_ok op" "int (length (filter is_set ops)) \<le> cache_room c"
  shows "\<exists>rs c'. run_ops ops c = Some (rs, c') \<and> cache_ok c' \<and> length rs = length ops
    \<and> (\<forall>i k. i < length ops \<and> ops ! i = Get k \<longrightarrow>
         rs ! i = -1 \<or> (k, rs ! i) \<in> cache_content c \<or> Set k (rs ! i) \<in> set (take i ops))"
  using assms
proof (induction ops arbitrary: c)
  case (Cons op ops)
  have ok: "op_ok op" "is_set op \<Longrightarrow> 0 < cache_room c" using Cons.prems by auto
  obtain r c1 where c1: "run_op op c = Some (r, c1)" "cache_ok c1"
    "cache_content c1 \<subseteq> cache_content c \<union> {(k, v). op = Set k v}"
    "cache_room c - (if is_set op then 1 else 0) \<le> cache_room c1"
    "\<And>k. op = Get k \<Longrightarrow> r = -1 \<or> (k, r) \<in> cache_content c"
    using run_op_sound [OF Cons.prems(1) ok] by blast
  have "int (length (filter is_set ops)) \<le> cache_room c1"
    using Cons.prems(3) c1(4) by (auto split: if_splits)
  then obtain rs c2 where c2: "run_ops ops c1 = Some (rs, c2)" "cache_ok c2" "length rs = length ops"
    "\<And>i k. i < length ops \<Longrightarrow> ops ! i = Get k \<Longrightarrow>
         rs ! i = -1 \<or> (k, rs ! i) \<in> cache_content c1 \<or> Set k (rs ! i) \<in> set (take i ops)"
    using Cons.IH [OF c1(2)] Cons.prems(2) by auto
  have "(r # rs) ! i = -1 \<or> (k, (r # rs) ! i) \<in> cache_content c \<or> Set k ((r # rs) ! i) \<in> set (take i (op # ops))"
    if q: "i < length (op # ops)" "(op # ops) ! i = Get k" for i k
  proof (cases i)
    case 0
    then show ?thesis using c1(5) q by simp
  next
    case (Suc j)
    then show ?thesis using c2(4) [of j k] q c1(3) by auto
  qed
  then show ?case using c1(1) c2(1-3) by (intro exI [of _ "r # rs"] exI [of _ c2]) auto
qed simp

end
