(* ===== verification/Directory_Ops.thy ===== *)
theory Directory_Ops
  imports Inode_Data_Block_Ops Inode_Cache
begin

text \<open>
  \<open>src/directory_ops.c\<close>: the parts of a path, the records of a directory, the lookup of a path
  (\<open>name_i\<close>) with its cache, and the set-up of the root directory. A directory is a file whose
  blocks hold records of 2 bytes of length, 8 bytes of inode number and the name with its NUL.
\<close>

unbundle bit_operations_syntax

section \<open>Paths\<close>

text \<open>The character \<open>'/'\<close>.\<close>

definition slash :: byte where
  [simp]: "slash = 47"

text \<open>The loop from \<open>path_length - 1\<close> down to 0; the argument counts the positions that are left.\<close>

primrec last_index_scan :: "cstr \<Rightarrow> int \<Rightarrow> nat \<Rightarrow> int" where
  "last_index_scan path path_length 0 = -1"
| "last_index_scan path path_length (Suc i) =
     (if path ! i = slash \<and> int i \<noteq> path_length - 1 then int i
      else last_index_scan path path_length i)"

definition get_last_index_of_parent_path :: "cstr \<Rightarrow> int \<Rightarrow> int" where
  "get_last_index_of_parent_path path path_length = last_index_scan path path_length (nat path_length)"

text \<open>The string in \<open>buffer\<close> afterwards, \<open>None\<close> where the function returns false. The callers pass
  the length of the path and a buffer of one byte more.\<close>

definition copy_parent_path :: "cstr \<Rightarrow> cstr option" where
  "copy_parent_path path =
     (let index = get_last_index_of_parent_path path (int (length path)) in
      if index = -1 then None
      else if index = 0 then Some (take 1 path)
      else Some (take (nat index) path))"

definition copy_file_name :: "cstr \<Rightarrow> cstr option" where
  "copy_file_name path =
     (let start_index = get_last_index_of_parent_path path (int (length path));
          end_index = int (length path) in
      if start_index = -1 then None
      else let start_index = start_index + 1;
               end_index = (if path ! nat (end_index - 1) = slash then end_index - 1 else end_index)
           in Some (take (nat (end_index - start_index)) (drop (nat start_index) path)))"

section \<open>Records\<close>

definition MAX_FILE_NAME_LENGTH :: int where [simp]: "MAX_FILE_NAME_LENGTH = 255"
definition RECORD_LENGTH :: int where [simp]: "RECORD_LENGTH = 2"
definition RECORD_INUM :: int where [simp]: "RECORD_INUM = 8"
definition RECORD_FIXED_LEN :: int where [simp]: "RECORD_FIXED_LEN = RECORD_LENGTH + RECORD_INUM"
definition LAST_POSSIBLE_RECORD :: int where [simp]: "LAST_POSSIBLE_RECORD = BLOCK_SIZE - RECORD_FIXED_LEN"

definition S_IFMT :: int where [simp]: "S_IFMT = 61440"
definition S_IFDIR :: int where [simp]: "S_IFDIR = 16384"

definition S_ISDIR :: "int \<Rightarrow> bool" where
  "S_ISDIR mode \<longleftrightarrow> mode AND S_IFMT = S_IFDIR"

text \<open>\<open>S_IRWXU | S_IRWXG | S_IROTH | S_IXOTH\<close>.\<close>

definition DEFAULT_PERMISSIONS :: int where
  [simp]: "DEFAULT_PERMISSIONS = 448 OR 56 OR 4 OR 1"

definition ROOT_INODE_NUM :: int where [simp]: "ROOT_INODE_NUM = 2"
definition CACHE_CAPACITY :: int where [simp]: "CACHE_CAPACITY = 100000"

primrec put_bytes :: "buf \<Rightarrow> int \<Rightarrow> byte list \<Rightarrow> buf" where
  "put_bytes b p [] = b"
| "put_bytes b p (x # xs) = (put_bytes b (p + 1) xs)(p := x)"

text \<open>\<open>strncmp\<close> of the bytes of a block at \<open>p\<close> with as many bytes as the name has; a byte outside of
  the block must not be read.\<close>

primrec name_at :: "buf \<Rightarrow> int \<Rightarrow> cstr \<Rightarrow> bool option" where
  "name_at b p [] = Some True"
| "name_at b p (x # xs) =
     (if 0 \<le> p \<and> p < BLOCK_SIZE then (if b p = x then name_at b (p + 1) xs else Some False) else None)"

text \<open>The loops over the records of a block. A record that is not the last one has a positive
  length, so that the loops end.\<close>

function find_space :: "buf \<Rightarrow> int \<Rightarrow> int \<Rightarrow> int option" where
  "find_space dblock file_name_len curr_pos =
     (if curr_pos \<le> LAST_POSSIBLE_RECORD then
        let record_len = get_le 2 dblock curr_pos in
        if record_len = 0 then
          (if BLOCK_SIZE - curr_pos - RECORD_FIXED_LEN \<ge> file_name_len then Some curr_pos else None)
        else find_space dblock file_name_len (curr_pos + record_len)
      else None)"
  by pat_completeness auto
termination
proof (relation "measure (\<lambda>(_, _, p). nat (BLOCK_SIZE - p))")
  fix b n p r assume "p \<le> LAST_POSSIBLE_RECORD" "r = get_le 2 b p" "r \<noteq> 0"
  then show "((b, n, p + r), b, n, p) \<in> measure (\<lambda>(_, _, p). nat (BLOCK_SIZE - p))"
    using get_le_range [of 2 b p] by simp
qed simp

function find_record :: "buf \<Rightarrow> cstr \<Rightarrow> int \<Rightarrow> int option option" where
  "find_record p_block file_name curr_pos =
     (if curr_pos \<le> LAST_POSSIBLE_RECORD then
        let record_len = get_le 2 p_block curr_pos;
            curr_file_name_len = (record_len - RECORD_FIXED_LEN - 1) mod 65536 in
        if record_len = 0 then Some None
        else do {
          found \<leftarrow> (if curr_file_name_len = int (length file_name)
                    then name_at p_block (curr_pos + RECORD_FIXED_LEN) file_name else Some False);
          if found then Some (Some curr_pos) else find_record p_block file_name (curr_pos + record_len)
        }
      else Some None)"
  by pat_completeness auto
termination
proof (relation "measure (\<lambda>(_, _, p). nat (BLOCK_SIZE - p))")
  fix b n p r l f assume "p \<le> LAST_POSSIBLE_RECORD" "r = get_le 2 b p" "r \<noteq> 0"
  then show "((b, n, p + r), b, n, p) \<in> measure (\<lambda>(_, _, p). nat (BLOCK_SIZE - p))"
    using get_le_range [of 2 b p] by simp
qed simp

declare find_space.simps [simp del] find_record.simps [simp del]

text \<open>A record at \<open>pos\<close>: the length, the inode number and the name with its NUL.\<close>

definition put_record :: "buf \<Rightarrow> int \<Rightarrow> int \<Rightarrow> cstr \<Rightarrow> buf" where
  "put_record b pos child_inum file_name =
     put_bytes (put_le 8 (put_le 2 b pos (RECORD_FIXED_LEN + (int (length file_name) + 1)))
       (pos + RECORD_LENGTH) child_inum) (pos + RECORD_FIXED_LEN) (file_name @ [0])"

section \<open>Directories\<close>

text \<open>\<open>i_child_num\<close> is unsigned.\<close>

definition child_more :: "inode \<Rightarrow> inode" where
  "child_more node = node\<lparr>i_child_num := (i_child_num node + 1) mod 2 ^ 64\<rparr>"

definition child_less :: "inode \<Rightarrow> inode" where
  "child_less node = node\<lparr>i_child_num := (i_child_num node - 1) mod 2 ^ 64\<rparr>"

text \<open>The search for room in the blocks the directory has: one round of the loop. The state is the
  cached indirect block and the disk; the loop returns with the result of the function.\<close>

definition add_to_block ::
  "inode \<Rightarrow> int \<Rightarrow> cstr \<Rightarrow> int \<Rightarrow> int \<times> altfs \<Rightarrow> (int \<times> altfs, bool) ctl option" where
  "add_to_block node child_inum file_name l_block_num = (\<lambda>(prev_block, s). do {
     (p_block_num, prev_block) \<leftarrow> get_disk_block_from_inode_block node l_block_num prev_block s;
     if p_block_num \<le> 0 then Some (Return False (prev_block, s))
     else do {
       p \<leftarrow> read_data_block p_block_num s;
       dblock \<leftarrow> p;
       case find_space dblock (int (length file_name) + 1) 0 of
         None \<Rightarrow> Some (Next (prev_block, s))
       | Some curr_pos \<Rightarrow> do {
           (ok, s) \<leftarrow> write_data_block p_block_num (Some (put_record dblock curr_pos child_inum file_name)) s;
           Some (Return ok (prev_block, s))
         }
     }
   })"

definition add_in_new_block :: "inode \<Rightarrow> int \<Rightarrow> cstr \<Rightarrow> altfs \<Rightarrow> (bool \<times> inode \<times> altfs) option" where
  "add_in_new_block node child_inum file_name s = do {
     (data_block_num, s) \<leftarrow> allocate_data_block s;
     if data_block_num \<le> 0 then Some (False, node, s)
     else do {
       (ok, s) \<leftarrow> write_data_block data_block_num (Some (put_record zero_buf 0 child_inum file_name)) s;
       if \<not> ok then Some (False, node, s)
       else do {
         (ok, node, s) \<leftarrow> add_datablock_to_inode node data_block_num s;
         if \<not> ok then Some (False, node, s)
         else Some (True, child_more (node\<lparr>i_file_size := i_file_size node + BLOCK_SIZE\<rparr>), s)
       }
     }
   }"

definition add_directory_entry :: "inode \<Rightarrow> int \<Rightarrow> cstr \<Rightarrow> altfs \<Rightarrow> (bool \<times> inode \<times> altfs) option" where
  "add_directory_entry dir_inode child_inum file_name s =
     (if \<not> S_ISDIR (i_mode dir_inode) then Some (False, dir_inode, s)
      else if int (length file_name) > MAX_FILE_NAME_LENGTH then Some (False, dir_inode, s)
      else do {
        c \<leftarrow> for_loop 0 (i_blocks_num dir_inode) (add_to_block dir_inode child_inum file_name) (0, s);
        case c of
          Return ok (_, s) \<Rightarrow> Some (ok, if ok then child_more dir_inode else dir_inode, s)
        | Next (_, s) \<Rightarrow> add_in_new_block dir_inode child_inum file_name s
        | Break (_, s) \<Rightarrow> add_in_new_block dir_inode child_inum file_name s
      })"

record fileposition =
  p_block :: "buf option"
  p_plock_num :: int
  offset :: int

definition find_in_block ::
  "cstr \<Rightarrow> inode \<Rightarrow> altfs \<Rightarrow> int \<Rightarrow> int \<times> fileposition \<Rightarrow> (int \<times> fileposition, unit) ctl option" where
  "find_in_block file_name parent_inode s l_block_num = (\<lambda>(prev_block, filepos). do {
     (n, prev_block) \<leftarrow> get_disk_block_from_inode_block parent_inode l_block_num prev_block s;
     let filepos = filepos\<lparr>p_plock_num := n\<rparr>;
     if n \<le> 0 then Some (Return () (prev_block, filepos))
     else do {
       p \<leftarrow> read_data_block n s;
       let filepos = filepos\<lparr>p_block := p\<rparr>;
       b \<leftarrow> p;
       found \<leftarrow> find_record b file_name 0;
       Some (case found of
           Some curr_pos \<Rightarrow> Return () (prev_block, filepos\<lparr>offset := curr_pos\<rparr>)
         | None \<Rightarrow> Next (prev_block, filepos))
     }
   })"

definition get_file_position_in_dir :: "cstr \<Rightarrow> inode \<Rightarrow> altfs \<Rightarrow> fileposition option" where
  "get_file_position_in_dir file_name parent_inode s =
     (let filepos = \<lparr>p_block = None, p_plock_num = -1, offset = -1\<rparr> in
      if \<not> S_ISDIR (i_mode parent_inode) then Some filepos
      else if int (length file_name) > MAX_FILE_NAME_LENGTH then Some filepos
      else do {
        c \<leftarrow> for_loop 0 (i_blocks_num parent_inode) (find_in_block file_name parent_inode s) (0, filepos);
        let (_, _, filepos) = finish () c;
        Some filepos
      })"

text \<open>\<open>now\<close> is what \<open>time\<close> returns. The result of the write is ignored.\<close>

definition remove_directory_entry :: "int \<Rightarrow> inode \<Rightarrow> cstr \<Rightarrow> altfs \<Rightarrow> (bool \<times> inode \<times> altfs) option" where
  "remove_directory_entry now dir_inode file_name s = do {
     file_pos \<leftarrow> get_file_position_in_dir file_name dir_inode s;
     if offset file_pos = -1 then Some (False, dir_inode, s)
     else do {
       b \<leftarrow> p_block file_pos;
       let buffer = memcpy zero_buf 0 b 0 (offset file_pos);
       let rec_len = get_le 2 b (offset file_pos);
       let next_offset = offset file_pos + rec_len;
       let buffer = (if next_offset < BLOCK_SIZE
                     then memcpy buffer (offset file_pos) b next_offset (BLOCK_SIZE - next_offset)
                     else buffer);
       (_, s) \<leftarrow> write_data_block (p_plock_num file_pos) (Some buffer) s;
       Some (True, child_less (dir_inode\<lparr>i_ctime := now, i_mtime := now\<rparr>), s)
     }
   }"

section \<open>The lookup of a path\<close>

lemma last_index_scan_range:
  "last_index_scan path n i = -1 \<or> (0 \<le> last_index_scan path n i \<and> last_index_scan path n i < int i
     \<and> last_index_scan path n i \<noteq> n - 1)"
  by (induction i) auto

lemma last_index_range:
  "get_last_index_of_parent_path path (int (length path)) = -1
   \<or> (0 \<le> get_last_index_of_parent_path path (int (length path))
      \<and> get_last_index_of_parent_path path (int (length path)) < int (length path) - 1)"
  using last_index_scan_range [of path "int (length path)" "length path"]
  by (auto simp: get_last_index_of_parent_path_def)

text \<open>The parent path is shorter: the recursion ends.\<close>

lemma parent_shorter: "copy_parent_path path = Some parent \<Longrightarrow> length parent < length path"
  using last_index_range [of path] by (auto simp: copy_parent_path_def Let_def split: if_splits)

text \<open>The disk and the variable \<open>inodeCache\<close>.\<close>

record fs =
  fs_disk :: altfs
  inodeCache :: "inode_cache option"

text \<open>The inode number the directory \<open>parent_inum\<close> has for the last part of \<open>file_path\<close>.\<close>

definition inum_in_parent :: "cstr \<Rightarrow> int \<Rightarrow> altfs \<Rightarrow> int option option" where
  "inum_in_parent file_path parent_inum s = do {
     p \<leftarrow> get_inode parent_inum s;
     case copy_file_name file_path of
       None \<Rightarrow> Some None
     | Some child_path \<Rightarrow> do {
         inodeObj \<leftarrow> p;
         filepos \<leftarrow> get_file_position_in_dir child_path inodeObj s;
         if offset filepos = -1 then Some None
         else do {
           b \<leftarrow> p_block filepos;
           Some (Some (to_ssize (get_le 8 b (offset filepos + RECORD_LENGTH))))
         }
       }
   }"

function name_i :: "cstr \<Rightarrow> fs \<Rightarrow> (int \<times> fs) option" where
  "name_i file_path st =
     (if length file_path = 1 \<and> file_path ! 0 = slash then Some (ROOT_INODE_NUM, st)
      else do {
        (inum_from_cache, cache) \<leftarrow> get_cache_entry (inodeCache st) (Some file_path);
        let st = st\<lparr>inodeCache := cache\<rparr>;
        if inum_from_cache > 0 then Some (inum_from_cache, st)
        else (case copy_parent_path file_path of
            None \<Rightarrow> Some (-1, st)
          | Some parent_path \<Rightarrow> do {
              (parent_inum, st) \<leftarrow> name_i parent_path st;
              if parent_inum = -1 then Some (-1, st)
              else do {
                found \<leftarrow> inum_in_parent file_path parent_inum (fs_disk st);
                case found of
                  None \<Rightarrow> Some (-1, st)
                | Some inum \<Rightarrow> do {
                    cache \<leftarrow> set_cache_entry (inodeCache st) (Some file_path) inum;
                    Some (inum, st\<lparr>inodeCache := cache\<rparr>)
                  }
              }
            })
      })"
  by pat_completeness auto
termination
  by (relation "measure (\<lambda>(path, _). length path)") (auto dest: parent_shorter)

declare name_i.simps [simp del]

section \<open>Setting up the file system\<close>

text \<open>The root directory before its entries are added.\<close>

definition fresh_root :: "int \<Rightarrow> inode \<Rightarrow> inode" where
  "fresh_root now root_dir = root_dir\<lparr>i_allocated := True,
     i_links_count := (i_links_count root_dir + 1) mod 2 ^ 64,
     i_mode := S_IFDIR OR DEFAULT_PERMISSIONS, i_blocks_num := 0, i_file_size := 0,
     i_atime := now, i_ctime := now, i_mtime := now, i_status_change_time := now, i_child_num := 0\<rparr>"

definition give_up :: "fs \<Rightarrow> (bool \<times> fs) option" where
  "give_up st = do {
     s \<leftarrow> teardown (fs_disk st);
     Some (False, st\<lparr>fs_disk := s\<rparr>)
   }"

definition create_root :: "int \<Rightarrow> inode \<Rightarrow> fs \<Rightarrow> (bool \<times> fs) option" where
  "create_root now root_dir st = do {
     let root_dir = fresh_root now root_dir;
     (ok, root_dir, s) \<leftarrow> add_directory_entry root_dir ROOT_INODE_NUM [46] (fs_disk st);
     let st = st\<lparr>fs_disk := s\<rparr>;
     if \<not> ok then give_up st
     else do {
       (ok, root_dir, s) \<leftarrow> add_directory_entry root_dir ROOT_INODE_NUM [46, 46] (fs_disk st);
       let st = st\<lparr>fs_disk := s\<rparr>;
       if \<not> ok then give_up st
       else do {
         (ok, s) \<leftarrow> write_inode ROOT_INODE_NUM root_dir (fs_disk st);
         let st = st\<lparr>fs_disk := s\<rparr>;
         if \<not> ok then give_up st else Some (True, st)
       }
     }
   }"

text \<open>The cache is created by \<open>malloc\<close>, taken to succeed.\<close>

definition setup_filesystem :: "int \<Rightarrow> fs \<Rightarrow> (bool \<times> fs) option" where
  "setup_filesystem now st = do {
     (ok, s) \<leftarrow> load_superblock (fs_disk st);
     let st = st\<lparr>fs_disk := s\<rparr>;
     if \<not> ok then Some (False, st)
     else do {
       let st = st\<lparr>inodeCache := Some (create_inode_cache CACHE_CAPACITY)\<rparr>;
       p \<leftarrow> get_inode ROOT_INODE_NUM (fs_disk st);
       case p of
         None \<Rightarrow> give_up st
       | Some root_dir \<Rightarrow>
           if i_allocated root_dir \<and> i_child_num root_dir \<ge> 2 then Some (True, st)
           else create_root now root_dir st
     }
   }"

definition remove_from_inode_cache :: "cstr \<Rightarrow> fs \<Rightarrow> (bool \<times> fs) option" where
  "remove_from_inode_cache path st = do {
     (ok, cache) \<leftarrow> remove_cache_entry (inodeCache st) (Some path);
     Some (ok, st\<lparr>inodeCache := cache\<rparr>)
   }"

definition flush_inode_cache :: "bool \<Rightarrow> fs \<Rightarrow> fs option" where
  "flush_inode_cache create st = do {
     cache \<leftarrow> free_inode_cache (inodeCache st);
     Some (st\<lparr>inodeCache := (if create then Some (create_inode_cache CACHE_CAPACITY) else cache)\<rparr>)
   }"

end
