(* ===== verification/Interface_Layer.thy ===== *)
theory Interface_Layer
  imports Directory_Ops
begin

text \<open>
  \<open>src/interface_layer.c\<close>: the operations of the file system on paths, as the FUSE layer calls them.
  They share the state \<open>fs\<close> of the directory layer. Errors are the negative numbers the code returns.
  \<open>now\<close> is what \<open>time\<close> returns during the operation; logging and freeing of inode buffers are
  left out where they cannot fail.
\<close>

unbundle bit_operations_syntax

section \<open>Constants of the C library\<close>

definition ENOENT :: int where [simp]: "ENOENT = 2"
definition EIO :: int where [simp]: "EIO = 5"
definition EACCES :: int where [simp]: "EACCES = 13"
definition ENOTDIR :: int where [simp]: "ENOTDIR = 20"
definition EINVAL :: int where [simp]: "EINVAL = 22"
definition ENOTEMPTY :: int where [simp]: "ENOTEMPTY = 39"
definition EOVERFLOW :: int where [simp]: "EOVERFLOW = 75"
definition EDQUOT :: int where [simp]: "EDQUOT = 122"

definition S_IRUSR :: int where [simp]: "S_IRUSR = 256"
definition S_IWUSR :: int where [simp]: "S_IWUSR = 128"
definition S_IFREG :: int where [simp]: "S_IFREG = 32768"

definition O_WRONLY :: int where [simp]: "O_WRONLY = 1"
definition O_RDONLY :: int where [simp]: "O_RDONLY = 0"
definition O_RDWR :: int where [simp]: "O_RDWR = 2"
definition O_CREAT :: int where [simp]: "O_CREAT = 64"
definition O_TRUNC :: int where [simp]: "O_TRUNC = 512"

text \<open>Whether a mode or a set of flags has one of the bits.\<close>

definition has_bit :: "int \<Rightarrow> int \<Rightarrow> bool" where
  "has_bit m b \<longleftrightarrow> m AND b \<noteq> 0"

section \<open>Attributes\<close>

record stat =
  st_ino :: int
  st_mode :: int
  st_nlink :: int
  st_uid :: int
  st_gid :: int
  st_rdev :: int
  st_size :: int
  st_blksize :: int
  st_blocks :: int
  st_atime :: int
  st_ctime :: int
  st_mtime :: int

definition zero_stat :: stat where
  "zero_stat = \<lparr>st_ino = 0, st_mode = 0, st_nlink = 0, st_uid = 0, st_gid = 0, st_rdev = 0, st_size = 0,
     st_blksize = 0, st_blocks = 0, st_atime = 0, st_ctime = 0, st_mtime = 0\<rparr>"

definition inode_to_stat :: "inode \<Rightarrow> stat \<Rightarrow> stat" where
  "inode_to_stat node st = st\<lparr>st_mode := i_mode node, st_nlink := i_links_count node, st_uid := 0,
     st_gid := 0, st_rdev := 0, st_size := i_file_size node, st_blksize := BLOCK_SIZE,
     st_blocks := i_blocks_num node, st_atime := i_atime node, st_ctime := i_ctime node,
     st_mtime := i_mtime node\<rparr>"

definition altfs_init :: "int \<Rightarrow> fs \<Rightarrow> (bool \<times> fs) option" where
  "altfs_init now st = setup_filesystem now st"

definition altfs_getattr :: "cstr \<Rightarrow> fs \<Rightarrow> (int \<times> stat \<times> fs) option" where
  "altfs_getattr p st = do {
     (inum, st) \<leftarrow> name_i p st;
     if inum = -1 then Some (- ENOENT, zero_stat, st)
     else do {
       r \<leftarrow> get_inode inum (fs_disk st);
       case r of
         None \<Rightarrow> Some (- EIO, zero_stat, st)
       | Some node \<Rightarrow> Some (0, (inode_to_stat node zero_stat)\<lparr>st_ino := inum\<rparr>, st)
     }
   }"

definition altfs_access :: "cstr \<Rightarrow> fs \<Rightarrow> (int \<times> fs) option" where
  "altfs_access p st = do {
     (inum, st) \<leftarrow> name_i p st;
     Some (if inum = -1 then - ENOENT else 0, st)
   }"

section \<open>Creating files and directories\<close>

text \<open>The result of \<open>create_new_file\<close>: the return value, what \<open>*buff\<close> points to afterwards (its
  last argument but one), \<open>*parent_inum\<close>, and the state.\<close>

definition new_node :: "int \<Rightarrow> int \<Rightarrow> inode \<Rightarrow> inode" where
  "new_node now mode node = node\<lparr>i_links_count := 1, i_mode := mode, i_blocks_num := 0, i_file_size := 0,
     i_atime := now, i_mtime := now, i_ctime := now, i_status_change_time := now, i_child_num := 0\<rparr>"

definition add_new_child ::
  "int \<Rightarrow> cstr \<Rightarrow> int \<Rightarrow> int \<Rightarrow> inode \<Rightarrow> fs \<Rightarrow> (int \<times> inode cptr \<times> int \<times> fs) option" where
  "add_new_child now child_name mode parent_inode_num parent_inode st = do {
     (child_inode_num, s) \<leftarrow> allocate_inode (fs_disk st);
     let st = st\<lparr>fs_disk := s\<rparr>;
     if child_inode_num = -1 then Some (- EDQUOT, Null, 0, st)
     else do {
       (ok, parent_inode, s) \<leftarrow> add_directory_entry parent_inode child_inode_num child_name (fs_disk st);
       if \<not> ok then do {
         (_, s) \<leftarrow> free_inode child_inode_num s;
         Some (- EDQUOT, Null, 0, st\<lparr>fs_disk := s\<rparr>)
       }
       else do {
         (ok, s) \<leftarrow> write_inode parent_inode_num (parent_inode\<lparr>i_mtime := now, i_ctime := now\<rparr>) s;
         if \<not> ok then Some (-1, Null, 0, st\<lparr>fs_disk := s\<rparr>)
         else do {
           r \<leftarrow> get_inode child_inode_num s;
           node \<leftarrow> r;
           let node = new_node now mode node;
           (ok, s) \<leftarrow> write_inode child_inode_num node s;
           if \<not> ok then Some (-1, Freed, 0, st\<lparr>fs_disk := s\<rparr>)
           else Some (child_inode_num, Ptr node, parent_inode_num, st\<lparr>fs_disk := s\<rparr>)
         }
       }
     }
   }"

definition create_new_file :: "int \<Rightarrow> cstr \<Rightarrow> int \<Rightarrow> fs \<Rightarrow> (int \<times> inode cptr \<times> int \<times> fs) option" where
  "create_new_file now p mode st =
     (case copy_parent_path p of
        None \<Rightarrow> Some (- ENOENT, Null, 0, st)
      | Some parent_path \<Rightarrow> do {
          (parent_inode_num, st) \<leftarrow> name_i parent_path st;
          if parent_inode_num = -1 then Some (- ENOENT, Null, 0, st)
          else do {
            r \<leftarrow> get_inode parent_inode_num (fs_disk st);
            parent_inode \<leftarrow> r;
            if \<not> S_ISDIR (i_mode parent_inode) then Some (- ENOENT, Null, 0, st)
            else if \<not> has_bit (i_mode parent_inode) S_IWUSR then Some (- EACCES, Null, 0, st)
            else (case copy_file_name p of
                None \<Rightarrow> Some (-1, Null, 0, st)
              | Some child_name \<Rightarrow> add_new_child now child_name mode parent_inode_num parent_inode st)
          }
        })"

definition is_empty_dir :: "inode \<Rightarrow> bool" where
  "is_empty_dir dir_inode \<longleftrightarrow> \<not> i_child_num dir_inode > 2"

definition altfs_mkdir :: "int \<Rightarrow> cstr \<Rightarrow> int \<Rightarrow> fs \<Rightarrow> (bool \<times> fs) option" where
  "altfs_mkdir now p mode st = do {
     (inum, st) \<leftarrow> name_i p st;
     if inum \<noteq> -1 then Some (False, st)
     else do {
       (dir_inode_num, dir_inode, parent_inum, st) \<leftarrow> create_new_file now p (S_IFDIR OR mode) st;
       if dir_inode_num \<le> -1 then do {
         _ \<leftarrow> altfs_free_memory dir_inode;
         Some (False, st)
       }
       else do {
         node \<leftarrow> deref dir_inode;
         (ok, node, s) \<leftarrow> add_directory_entry node dir_inode_num [46] (fs_disk st);
         let st = st\<lparr>fs_disk := s\<rparr>;
         if \<not> ok then Some (False, st)
         else do {
           (ok, node, s) \<leftarrow> add_directory_entry node parent_inum [46, 46] (fs_disk st);
           let st = st\<lparr>fs_disk := s\<rparr>;
           if \<not> ok then Some (False, st)
           else do {
             (ok, s) \<leftarrow> write_inode dir_inode_num node (fs_disk st);
             Some (ok, st\<lparr>fs_disk := s\<rparr>)
           }
         }
       }
     }
   }"

text \<open>The argument \<open>dev\<close> is not used.\<close>

definition altfs_mknod :: "int \<Rightarrow> cstr \<Rightarrow> int \<Rightarrow> int \<Rightarrow> fs \<Rightarrow> (bool \<times> fs) option" where
  "altfs_mknod now p mode dev st = do {
     (inum, st) \<leftarrow> name_i p st;
     if inum \<noteq> -1 then Some (False, st)
     else do {
       (inum, node, _, st) \<leftarrow> create_new_file now p mode st;
       _ \<leftarrow> altfs_free_memory node;
       Some (\<not> inum \<le> -1, st)
     }
   }"

section \<open>Listing a directory\<close>

text \<open>The function \<open>filler\<close> belongs to libfuse; the model records the calls of it, with the bytes of
  the name (its NUL included) and the attributes.\<close>

definition read_bytes :: "buf \<Rightarrow> int \<Rightarrow> int \<Rightarrow> byte list option" where
  "read_bytes b p n = (if 0 \<le> p \<and> p + n \<le> BLOCK_SIZE then Some (map b [p..p + n - 1]) else None)"

function list_records :: "buf \<Rightarrow> int \<Rightarrow> altfs \<Rightarrow> (byte list \<times> stat) list option" where
  "list_records dblock off s =
     (if off < LAST_POSSIBLE_RECORD then
        let rec_len = get_le 2 dblock off;
            file_inum = to_ssize (get_le 8 dblock (off + RECORD_LENGTH));
            name_len = (rec_len - RECORD_FIXED_LEN) mod 65536 in
        if rec_len = 0 then Some []
        else do {
          file_name \<leftarrow> read_bytes dblock (off + RECORD_FIXED_LEN) name_len;
          r \<leftarrow> get_inode file_inum s;
          file_inode \<leftarrow> r;
          rest \<leftarrow> list_records dblock (off + rec_len) s;
          Some ((file_name, (inode_to_stat file_inode zero_stat)\<lparr>st_ino := file_inum\<rparr>) # rest)
        }
      else Some [])"
  by pat_completeness auto
termination
proof (relation "measure (\<lambda>(_, p, _). nat (BLOCK_SIZE - p))")
  fix b p s r i n f c x assume "p < LAST_POSSIBLE_RECORD" "r = get_le 2 b p" "r \<noteq> 0"
  then show "((b, p + r, s), b, p, s) \<in> measure (\<lambda>(_, p, _). nat (BLOCK_SIZE - p))"
    using get_le_range [of 2 b p] by simp
qed simp

declare list_records.simps [simp del]

definition list_block ::
  "inode \<Rightarrow> altfs \<Rightarrow> int \<Rightarrow> int \<times> (byte list \<times> stat) list \<Rightarrow> (int \<times> (byte list \<times> stat) list, unit) ctl option" where
  "list_block node s i_block_num = (\<lambda>(prev, calls). do {
     (dblock_num, prev) \<leftarrow> get_disk_block_from_inode_block node i_block_num prev s;
     p \<leftarrow> read_data_block dblock_num s;
     dblock \<leftarrow> p;
     new \<leftarrow> list_records dblock 0 s;
     Some (Next (prev, calls @ new))
   })"

definition altfs_readdir :: "cstr \<Rightarrow> fs \<Rightarrow> (int \<times> (byte list \<times> stat) list \<times> fs) option" where
  "altfs_readdir p st = do {
     (inum, st) \<leftarrow> name_i p st;
     if inum = -1 then Some (- ENOENT, [], st)
     else do {
       r \<leftarrow> get_inode inum (fs_disk st);
       node \<leftarrow> r;
       if \<not> S_ISDIR (i_mode node) then Some (- ENOTDIR, [], st)
       else do {
         c \<leftarrow> for_loop 0 (i_blocks_num node) (list_block node (fs_disk st)) (0, []);
         let (_, _, calls) = finish () c;
         Some (0, calls, st)
       }
     }
   }"

section \<open>Removing a name\<close>

definition unlink_node :: "int \<Rightarrow> int \<Rightarrow> inode \<Rightarrow> altfs \<Rightarrow> altfs option" where
  "unlink_node now inum node s = do {
     let node = node\<lparr>i_links_count := (i_links_count node - 1) mod 2 ^ 64\<rparr>;
     if i_links_count node = 0 then do {
       (_, s) \<leftarrow> free_inode inum s;
       Some s
     }
     else do {
       (_, s) \<leftarrow> write_inode inum (node\<lparr>i_status_change_time := now\<rparr>) s;
       Some s
     }
   }"

definition unlink_child ::
  "int \<Rightarrow> cstr \<Rightarrow> cstr \<Rightarrow> cstr \<Rightarrow> int \<Rightarrow> inode \<Rightarrow> fs \<Rightarrow> (int \<times> fs) option" where
  "unlink_child now p child_name parent_path inum node st = do {
     (parent_inum, st) \<leftarrow> name_i parent_path st;
     if parent_inum = -1 then Some (-1, st)
     else do {
       r \<leftarrow> get_inode parent_inum (fs_disk st);
       parent \<leftarrow> r;
       (ok, parent, s) \<leftarrow> remove_directory_entry now parent child_name (fs_disk st);
       if \<not> ok then Some (-1, st\<lparr>fs_disk := s\<rparr>)
       else do {
         s \<leftarrow> unlink_node now inum node s;
         (_, s) \<leftarrow> write_inode parent_inum parent s;
         (ok, st) \<leftarrow> remove_from_inode_cache p (st\<lparr>fs_disk := s\<rparr>);
         st \<leftarrow> (if \<not> ok then flush_inode_cache True st else Some st);
         Some (0, st)
       }
     }
   }"

definition altfs_unlink :: "int \<Rightarrow> cstr \<Rightarrow> fs \<Rightarrow> (int \<times> fs) option" where
  "altfs_unlink now p st = do {
     (inum, st) \<leftarrow> name_i p st;
     if inum = -1 then Some (- ENOENT, st)
     else if inum = ROOT_INODE_NUM then Some (- EACCES, st)
     else (case copy_file_name p of
         None \<Rightarrow> Some (-1, st)
       | Some child_name \<Rightarrow> (case copy_parent_path p of
             None \<Rightarrow> Some (- EINVAL, st)
           | Some parent_path \<Rightarrow> do {
               r \<leftarrow> get_inode inum (fs_disk st);
               node \<leftarrow> r;
               if S_ISDIR (i_mode node) \<and> \<not> is_empty_dir node then Some (- ENOTEMPTY, st)
               else unlink_child now p child_name parent_path inum node st
             }))
   }"

section \<open>Reading a file\<close>

text \<open>The caller's buffer has room for \<open>room\<close> bytes. \<open>memcpy\<close> into it and out of it, within
  the bounds of both arrays; \<open>size_t\<close> sums wrap around.\<close>

definition copy_to_user :: "int \<Rightarrow> buf \<Rightarrow> int \<Rightarrow> buf \<Rightarrow> int \<Rightarrow> int \<Rightarrow> buf option" where
  "copy_to_user room buff p src q n =
     (if 0 \<le> n \<and> 0 \<le> q \<and> q + n \<le> BLOCK_SIZE \<and> p + n \<le> room then Some (memcpy buff p src q n) else None)"

definition copy_from_user :: "int \<Rightarrow> buf \<Rightarrow> int \<Rightarrow> buf \<Rightarrow> int \<Rightarrow> int \<Rightarrow> buf option" where
  "copy_from_user room dst p buff q n =
     (if 0 \<le> n \<and> 0 \<le> p \<and> p + n \<le> BLOCK_SIZE \<and> q + n \<le> room then Some (memcpy dst p buff q n) else None)"

text \<open>One round of the loop over the blocks of a read of several blocks. The state is the cached
  indirect block, \<open>buff\<close> and \<open>bytes_read\<close>.\<close>

definition read_round ::
  "inode \<Rightarrow> int \<Rightarrow> int \<Rightarrow> int \<Rightarrow> int \<Rightarrow> int \<Rightarrow> altfs \<Rightarrow> int \<Rightarrow> int \<times> buf \<times> int
     \<Rightarrow> (int \<times> buf \<times> int, unit) ctl option" where
  "read_round node room start_i_block start_block_offset end_block_offset blocks_to_read s i =
     (\<lambda>(prev_block, buff, bytes_read). do {
        (dblock_num, prev_block) \<leftarrow> get_disk_block_from_inode_block node (start_i_block + i) prev_block s;
        if dblock_num \<le> 0 then Some (Return () (prev_block, buff, bytes_read))
        else do {
          p \<leftarrow> read_data_block dblock_num s;
          case p of
            None \<Rightarrow> Some (Return () (prev_block, buff, bytes_read))
          | Some buf_read \<Rightarrow>
              if i = 0 then do {
                let bytes_to_read = BLOCK_SIZE - start_block_offset;
                buff \<leftarrow> copy_to_user room buff 0 buf_read start_block_offset bytes_to_read;
                Some (Next (prev_block, buff, bytes_read + bytes_to_read))
              }
              else if i = blocks_to_read - 1 then do {
                buff \<leftarrow> copy_to_user room buff bytes_read buf_read 0 (end_block_offset + 1);
                Some (Next (prev_block, buff, bytes_read + (end_block_offset + 1)))
              }
              else do {
                buff \<leftarrow> copy_to_user room buff bytes_read buf_read 0 BLOCK_SIZE;
                Some (Next (prev_block, buff, bytes_read + BLOCK_SIZE))
              }
        }
      })"

text \<open>What the blocks give: \<open>buff\<close> and \<open>bytes_read\<close>; \<open>bytes_read\<close> is \<open>None\<close> where
  the function returns \<open>-1\<close>.\<close>

definition read_blocks ::
  "inode \<Rightarrow> int \<Rightarrow> int \<Rightarrow> int \<Rightarrow> buf \<Rightarrow> altfs \<Rightarrow> (int option \<times> buf) option" where
  "read_blocks node room nbytes pos buff s = do {
     let last = (pos + nbytes - 1) mod 2 ^ 64;
     let start_i_block = c_div pos BLOCK_SIZE;
     let start_block_offset = c_mod pos BLOCK_SIZE;
     let end_i_block = last div BLOCK_SIZE;
     let end_block_offset = last mod BLOCK_SIZE;
     let blocks_to_read = end_i_block - start_i_block + 1;
     if blocks_to_read = 1 then do {
       (dblock_num, _) \<leftarrow> get_disk_block_from_inode_block node start_i_block 0 s;
       if dblock_num \<le> 0 then Some (None, buff)
       else do {
         p \<leftarrow> read_data_block dblock_num s;
         case p of
           None \<Rightarrow> Some (None, buff)
         | Some buf_read \<Rightarrow> do {
             buff \<leftarrow> copy_to_user room buff 0 buf_read start_block_offset nbytes;
             Some (Some nbytes, buff)
           }
       }
     }
     else do {
       c \<leftarrow> for_loop 0 blocks_to_read
              (read_round node room start_i_block start_block_offset end_block_offset blocks_to_read s)
              (0, buff, 0);
       case c of
         Return _ (_, buff, _) \<Rightarrow> Some (None, buff)
       | Next (_, buff, bytes_read) \<Rightarrow> Some (Some bytes_read, buff)
       | Break (_, buff, bytes_read) \<Rightarrow> Some (Some bytes_read, buff)
     }
   }"

definition altfs_read ::
  "int \<Rightarrow> cstr \<Rightarrow> buf \<Rightarrow> int \<Rightarrow> int \<Rightarrow> fs \<Rightarrow> (int \<times> buf \<times> fs) option" where
  "altfs_read now p buff nbytes pos st =
     (if nbytes = 0 then Some (0, buff, st)
      else if pos < 0 then Some (- EINVAL, buff, st)
      else do {
        let room = nbytes;
        let buff = memcpy buff 0 zero_buf 0 nbytes;
        (inum, st) \<leftarrow> name_i p st;
        if inum = -1 then Some (- ENOENT, buff, st)
        else do {
          r \<leftarrow> get_inode inum (fs_disk st);
          node \<leftarrow> r;
          if i_file_size node = 0 then Some (0, buff, st)
          else if pos \<ge> i_file_size node then Some (- EOVERFLOW, buff, st)
          else do {
            let nbytes = (if (pos + nbytes) mod 2 ^ 64 > i_file_size node mod 2 ^ 64
                          then (i_file_size node - pos) mod 2 ^ 64 else nbytes);
            (read, buff) \<leftarrow> read_blocks node room nbytes pos buff (fs_disk st);
            case read of
              None \<Rightarrow> Some (-1, buff, st)
            | Some bytes_read \<Rightarrow> do {
                (_, s) \<leftarrow> write_inode inum (node\<lparr>i_atime := now\<rparr>) (fs_disk st);
                Some (to_ssize bytes_read, buff, st\<lparr>fs_disk := s\<rparr>)
              }
          }
        }
      })"

end
