(* ===== verification/Interface_Files.thy ===== *)
theory Interface_Files
  imports Interface_Layer
begin

text \<open>
  \<open>src/interface_layer.c\<close>, continued: writing, truncating and opening a file, changing its mode,
  renaming it, and the shutdown. The bytes of the caller are a buffer of \<open>nbytes\<close> bytes.
\<close>

section \<open>Writing a file\<close>

text \<open>What a return in the middle gives: \<open>(bytes_written == 0) ? -1 : bytes_written\<close>.\<close>

definition written_or_error :: "int \<Rightarrow> int" where
  "written_or_error bytes_written = (if bytes_written = 0 then -1 else to_ssize bytes_written)"

text \<open>The bytes that go into the first block; \<open>size_t\<close> sums wrap around.\<close>

definition first_bytes :: "int \<Rightarrow> int \<Rightarrow> int" where
  "first_bytes start_block_offset nbytes =
     (if (start_block_offset + nbytes) mod 2 ^ 64 > BLOCK_SIZE then BLOCK_SIZE - start_block_offset
      else to_ssize nbytes)"

text \<open>What a block that is read first becomes, and \<open>bytes_written\<close>.\<close>

definition edit_block ::
  "buf \<Rightarrow> int \<Rightarrow> int \<Rightarrow> int \<Rightarrow> int \<Rightarrow> int \<Rightarrow> int \<Rightarrow> buf \<Rightarrow> (buf \<times> int) option" where
  "edit_block buff nbytes start_block_offset end_block_offset start_i_block i bytes_written buf_read =
     (if i = start_i_block then do {
        let to_write = first_bytes start_block_offset nbytes;
        b \<leftarrow> copy_from_user nbytes buf_read start_block_offset buff 0 to_write;
        Some (b, bytes_written + to_write)
      }
      else do {
        b \<leftarrow> copy_from_user nbytes buf_read 0 buff bytes_written (end_block_offset + 1);
        Some (b, bytes_written + (end_block_offset + 1))
      })"

text \<open>One round of the loop over the blocks the file has already.\<close>

definition write_old_block ::
  "inode \<Rightarrow> buf \<Rightarrow> int \<Rightarrow> int \<Rightarrow> int \<Rightarrow> int \<Rightarrow> int \<Rightarrow> int \<Rightarrow> int \<times> int \<times> altfs
     \<Rightarrow> (int \<times> int \<times> altfs, int) ctl option" where
  "write_old_block node buff nbytes start_i_block start_block_offset end_i_block end_block_offset i =
     (\<lambda>(prev_block, bytes_written, s). do {
        (dblock_num, prev_block) \<leftarrow> get_disk_block_from_inode_block node i prev_block s;
        if dblock_num \<le> 0
        then Some (Return (written_or_error bytes_written) (prev_block, bytes_written, s))
        else if i \<noteq> start_i_block \<and> i \<noteq> end_i_block then do {
          overwrite_buf \<leftarrow> copy_from_user nbytes zero_buf 0 buff bytes_written BLOCK_SIZE;
          let bytes_written = bytes_written + BLOCK_SIZE;
          (written, s) \<leftarrow> write_data_block dblock_num (Some overwrite_buf) s;
          Some (if written then Next (prev_block, bytes_written, s)
                else Return (written_or_error bytes_written) (prev_block, bytes_written, s))
        }
        else do {
          p \<leftarrow> read_data_block dblock_num s;
          case p of
            None \<Rightarrow> Some (Return (written_or_error bytes_written) (prev_block, bytes_written, s))
          | Some buf_read \<Rightarrow> do {
              (buf_read, bytes_written) \<leftarrow>
                edit_block buff nbytes start_block_offset end_block_offset start_i_block i bytes_written buf_read;
              (written, s) \<leftarrow> write_data_block dblock_num (Some buf_read) s;
              Some (if \<not> written then Return (written_or_error bytes_written) (prev_block, bytes_written, s)
                    else if i = end_i_block then Break (prev_block, bytes_written, s)
                    else Next (prev_block, bytes_written, s))
            }
        }
      })"

text \<open>The bytes of the \<open>i\<close>-th added block, and \<open>bytes_written\<close>.\<close>

definition fill_new_block ::
  "buf \<Rightarrow> int \<Rightarrow> int \<Rightarrow> int \<Rightarrow> int \<Rightarrow> int \<Rightarrow> int \<Rightarrow> int \<Rightarrow> (buf \<times> int) option" where
  "fill_new_block buff nbytes start_block_offset end_block_offset starting_block new_blocks_to_be_added
     i bytes_written =
     (if starting_block \<ge> 1 \<and> i = starting_block then do {
        let to_write = first_bytes start_block_offset nbytes;
        b \<leftarrow> copy_from_user nbytes zero_buf start_block_offset buff 0 to_write;
        Some (b, bytes_written + to_write)
      }
      else if i = new_blocks_to_be_added then do {
        b \<leftarrow> copy_from_user nbytes zero_buf 0 buff bytes_written (end_block_offset + 1);
        Some (b, bytes_written + (end_block_offset + 1))
      }
      else if i \<ge> starting_block then do {
        b \<leftarrow> copy_from_user nbytes zero_buf 0 buff bytes_written BLOCK_SIZE;
        Some (b, bytes_written + BLOCK_SIZE)
      }
      else Some (zero_buf, bytes_written))"

text \<open>One round of the loop that adds blocks.\<close>

definition write_new_block ::
  "buf \<Rightarrow> int \<Rightarrow> int \<Rightarrow> int \<Rightarrow> int \<Rightarrow> int \<Rightarrow> int \<Rightarrow> inode \<times> int \<times> altfs
     \<Rightarrow> (inode \<times> int \<times> altfs, unit) ctl option" where
  "write_new_block buff nbytes start_block_offset end_block_offset starting_block new_blocks_to_be_added i =
     (\<lambda>(node, bytes_written, s). do {
        (new_block_num, s) \<leftarrow> allocate_data_block s;
        if new_block_num \<le> 0 then Some (Break (node, bytes_written, s))
        else do {
          (ok, node, s) \<leftarrow> add_datablock_to_inode node new_block_num s;
          if \<not> ok then Some (Break (node, bytes_written, s))
          else do {
            (overwrite_buf, bytes_written) \<leftarrow>
              fill_new_block buff nbytes start_block_offset end_block_offset starting_block
                new_blocks_to_be_added i bytes_written;
            if i \<ge> starting_block then do {
              (ok, s) \<leftarrow> write_data_block new_block_num (Some overwrite_buf) s;
              Some (if ok then Next (node, bytes_written, s) else Break (node, bytes_written, s))
            }
            else Some (Next (node, bytes_written, s))
          }
        }
      })"

text \<open>The two loops. A return from the first one ends the function with its value, before the inode
  is changed.\<close>

definition write_blocks ::
  "inode \<Rightarrow> buf \<Rightarrow> int \<Rightarrow> int \<Rightarrow> altfs \<Rightarrow> (inode \<times> int \<times> altfs, int) ctl option" where
  "write_blocks node buff nbytes pos s = do {
     let last = (pos + nbytes - 1) mod 2 ^ 64;
     let start_i_block = c_div pos BLOCK_SIZE;
     let start_block_offset = c_mod pos BLOCK_SIZE;
     let end_i_block = last div BLOCK_SIZE;
     let end_block_offset = last mod BLOCK_SIZE;
     let new_blocks_to_be_added = end_i_block - i_blocks_num node + 1;
     let starting_block = start_i_block - i_blocks_num node + 1;
     c \<leftarrow> for_loop start_i_block (i_blocks_num node)
            (write_old_block node buff nbytes start_i_block start_block_offset end_i_block end_block_offset)
            (0, 0, s);
     case c of
       Return r (_, bytes_written, s) \<Rightarrow> Some (Return r (node, bytes_written, s))
     | _ \<Rightarrow> do {
         let (_, _, bytes_written, s) = finish 0 c;
         c \<leftarrow> for_loop 1 (new_blocks_to_be_added + 1)
                (write_new_block buff nbytes start_block_offset end_block_offset starting_block
                  new_blocks_to_be_added)
                (node, bytes_written, s);
         let (_, x) = finish () c;
         Some (Next x)
       }
   }"

text \<open>The inode after \<open>bytes_written\<close> bytes went in at \<open>pos\<close>.\<close>

definition written_node :: "int \<Rightarrow> int \<Rightarrow> int \<Rightarrow> inode \<Rightarrow> inode" where
  "written_node now pos bytes_written node =
     (let bytes_to_add = to_ssize ((pos + bytes_written) - i_file_size node);
          node = node\<lparr>i_file_size := i_file_size node + (if bytes_to_add > 0 then bytes_to_add else 0)\<rparr>
      in if bytes_written > 0 then node\<lparr>i_mtime := now, i_status_change_time := now\<rparr> else node)"

definition altfs_write :: "int \<Rightarrow> cstr \<Rightarrow> buf \<Rightarrow> int \<Rightarrow> int \<Rightarrow> fs \<Rightarrow> (int \<times> fs) option" where
  "altfs_write now p buff nbytes pos st =
     (if nbytes = 0 then Some (0, st)
      else if pos < 0 then Some (- EINVAL, st)
      else do {
        (inum, st) \<leftarrow> name_i p st;
        if inum = -1 then Some (- ENOENT, st)
        else do {
          r \<leftarrow> get_inode inum (fs_disk st);
          node \<leftarrow> r;
          c \<leftarrow> write_blocks node buff nbytes pos (fs_disk st);
          case c of
            Return v (_, _, s) \<Rightarrow> Some (v, st\<lparr>fs_disk := s\<rparr>)
          | _ \<Rightarrow> do {
              let (_, node, bytes_written, s) = finish 0 c;
              (ok, s) \<leftarrow> write_inode inum (written_node now pos bytes_written node) s;
              Some (if ok then to_ssize bytes_written else -1, st\<lparr>fs_disk := s\<rparr>)
            }
        }
      })"

section \<open>Truncating a file\<close>

text \<open>The last block of the shortened file: its bytes after \<open>len - 1\<close> become 0.\<close>

definition zero_tail :: "inode \<Rightarrow> int \<Rightarrow> int \<Rightarrow> altfs \<Rightarrow> (bool \<times> altfs) option" where
  "zero_tail node i_block_num len s = do {
     (d_block_num, _) \<leftarrow> get_disk_block_from_inode_block node i_block_num 0 s;
     if d_block_num \<le> 0 then Some (False, s)
     else do {
       data_block \<leftarrow> read_data_block d_block_num s;
       let block_offset = c_mod (len - 1) BLOCK_SIZE;
       if block_offset \<noteq> BLOCK_SIZE - 1 then do {
         b \<leftarrow> data_block;
         (_, s) \<leftarrow> write_data_block d_block_num
           (Some (memcpy b (block_offset + 1) zero_buf 0 (BLOCK_SIZE - block_offset - 1))) s;
         Some (True, s)
       }
       else Some (True, s)
     }
   }"

definition shorten :: "int \<Rightarrow> inode \<Rightarrow> int \<Rightarrow> altfs \<Rightarrow> (int \<times> altfs) option" where
  "shorten inum node len s = do {
     let i_block_num = (if len = 0 then -1 else c_div (len - 1) BLOCK_SIZE);
     (_, node, s) \<leftarrow> (if i_blocks_num node > i_block_num + 1
                      then remove_datablocks_from_inode node (i_block_num + 1) s else Some (True, node, s));
     if i_block_num = -1 then do {
       (_, s) \<leftarrow> write_inode inum (node\<lparr>i_file_size := 0\<rparr>) s;
       Some (0, s)
     }
     else do {
       (ok, s) \<leftarrow> zero_tail node i_block_num len s;
       if \<not> ok then Some (-1, s)
       else do {
         (_, s) \<leftarrow> write_inode inum (node\<lparr>i_file_size := len\<rparr>) s;
         Some (0, s)
       }
     }
   }"

text \<open>\<open>calloc\<close> is taken to succeed.\<close>

definition altfs_truncate :: "int \<Rightarrow> cstr \<Rightarrow> int \<Rightarrow> fs \<Rightarrow> (int \<times> fs) option" where
  "altfs_truncate now p len st = do {
     (inum, st) \<leftarrow> name_i p st;
     if inum = -1 then Some (- ENOENT, st)
     else do {
       r \<leftarrow> get_inode inum (fs_disk st);
       node \<leftarrow> r;
       if \<not> has_bit (i_mode node) S_IWUSR then Some (- EACCES, st)
       else if len < 0 then Some (- EINVAL, st)
       else if len = 0 \<and> i_file_size node = 0 then Some (0, st)
       else if len > i_file_size node then do {
         let bytes_to_add = len - i_file_size node;
         (written, st) \<leftarrow> altfs_write now p zero_buf bytes_to_add (i_file_size node) st;
         Some (if written = bytes_to_add then 0 else -1, st)
       }
       else do {
         (v, s) \<leftarrow> shorten inum node len (fs_disk st);
         Some (v, st\<lparr>fs_disk := s\<rparr>)
       }
     }
   }"

section \<open>Opening a file\<close>

text \<open>The checks and the truncation, with the inode number found or created. The inode read before the
  truncation is written back after it.\<close>

definition open_node :: "int \<Rightarrow> cstr \<Rightarrow> int \<Rightarrow> int \<Rightarrow> bool \<Rightarrow> fs \<Rightarrow> (int \<times> fs) option" where
  "open_node now p oflag inum created st = do {
     r \<leftarrow> get_inode inum (fs_disk st);
     node \<leftarrow> r;
     if (has_bit oflag O_RDONLY \<or> has_bit oflag O_RDWR) \<and> \<not> has_bit (i_mode node) S_IRUSR
     then Some (- EACCES, st)
     else if (has_bit oflag O_WRONLY \<or> has_bit oflag O_RDWR) \<and> \<not> has_bit (i_mode node) S_IWUSR
     then Some (- EACCES, st)
     else if has_bit oflag O_TRUNC \<and> has_bit (i_mode node) S_IWUSR then do {
       (v, st) \<leftarrow> altfs_truncate now p 0 st;
       if v = -1 then Some (-1, st)
       else if \<not> created then do {
         (_, s) \<leftarrow> write_inode inum (node\<lparr>i_ctime := now, i_mtime := now\<rparr>) (fs_disk st);
         Some (inum, st\<lparr>fs_disk := s\<rparr>)
       }
       else Some (inum, st)
     }
     else Some (inum, st)
   }"

definition altfs_open :: "int \<Rightarrow> cstr \<Rightarrow> int \<Rightarrow> fs \<Rightarrow> (int \<times> fs) option" where
  "altfs_open now p oflag st = do {
     (inum, st) \<leftarrow> name_i p st;
     if inum = -1 \<and> has_bit oflag O_CREAT then do {
       (inum, node, _, st) \<leftarrow> create_new_file now p (S_IFREG OR DEFAULT_PERMISSIONS) st;
       if inum \<le> -1 then Some (inum, st)
       else do {
         _ \<leftarrow> altfs_free_memory node;
         open_node now p oflag inum True st
       }
     }
     else if inum = -1 then Some (- ENOENT, st)
     else open_node now p oflag inum False st
   }"

definition altfs_close :: "int \<Rightarrow> int" where
  "altfs_close file_descriptor = 0"

definition altfs_chmod :: "cstr \<Rightarrow> int \<Rightarrow> fs \<Rightarrow> (int \<times> fs) option" where
  "altfs_chmod p mode st = do {
     (inum, st) \<leftarrow> name_i p st;
     if inum = -1 then Some (- ENOENT, st)
     else do {
       r \<leftarrow> get_inode inum (fs_disk st);
       case r of
         None \<Rightarrow> Some (-1, st)
       | Some node \<Rightarrow> do {
           (ok, s) \<leftarrow> write_inode inum (node\<lparr>i_mode := mode\<rparr>) (fs_disk st);
           Some (if ok then 0 else -1, st\<lparr>fs_disk := s\<rparr>)
         }
     }
   }"

section \<open>Renaming\<close>

text \<open>The two halves: the entry in the new parent, then the removal from the old one. They return 0
  where the function goes on.\<close>

definition link_target :: "int \<Rightarrow> cstr \<Rightarrow> cstr \<Rightarrow> fs \<Rightarrow> (int \<times> fs) option" where
  "link_target now from to st =
     (case copy_parent_path to of
        None \<Rightarrow> Some (-1, st)
      | Some to_parent_path \<Rightarrow> do {
          (to_parent_inode_num, st) \<leftarrow> name_i to_parent_path st;
          if to_parent_inode_num = -1 then Some (-1, st)
          else do {
            r \<leftarrow> get_inode to_parent_inode_num (fs_disk st);
            to_parent_inode \<leftarrow> r;
            if \<not> S_ISDIR (i_mode to_parent_inode) then Some (-1, st)
            else (case copy_file_name to of
                None \<Rightarrow> Some (-1, st)
              | Some to_child_name \<Rightarrow> do {
                  (inum, st) \<leftarrow> name_i from st;
                  (ok, to_parent_inode, s) \<leftarrow>
                    add_directory_entry to_parent_inode inum to_child_name (fs_disk st);
                  let st = st\<lparr>fs_disk := s\<rparr>;
                  if \<not> ok then Some (- EDQUOT, st)
                  else do {
                    (ok, s) \<leftarrow> write_inode to_parent_inode_num
                      (to_parent_inode\<lparr>i_mtime := now, i_ctime := now\<rparr>) (fs_disk st);
                    Some (if ok then 0 else -1, st\<lparr>fs_disk := s\<rparr>)
                  }
                })
          }
        })"

definition unlink_source :: "int \<Rightarrow> cstr \<Rightarrow> fs \<Rightarrow> (int \<times> fs) option" where
  "unlink_source now from st =
     (case copy_parent_path from of
        None \<Rightarrow> Some (-1, st)
      | Some from_parent_path \<Rightarrow> do {
          (from_parent_inode_num, st) \<leftarrow> name_i from_parent_path st;
          if from_parent_inode_num = -1 then Some (-1, st)
          else do {
            r \<leftarrow> get_inode from_parent_inode_num (fs_disk st);
            (case copy_file_name from of
                None \<Rightarrow> Some (-1, st)
              | Some from_child_name \<Rightarrow> do {
                  from_parent_inode \<leftarrow> r;
                  (ok, from_parent_inode, s) \<leftarrow>
                    remove_directory_entry now from_parent_inode from_child_name (fs_disk st);
                  let st = st\<lparr>fs_disk := s\<rparr>;
                  if \<not> ok then Some (-1, st)
                  else do {
                    (ok, s) \<leftarrow> write_inode from_parent_inode_num
                      (from_parent_inode\<lparr>i_mtime := now, i_ctime := now\<rparr>) (fs_disk st);
                    Some (if ok then 0 else -1, st\<lparr>fs_disk := s\<rparr>)
                  }
                })
          }
        })"

definition altfs_rename :: "int \<Rightarrow> cstr \<Rightarrow> cstr \<Rightarrow> fs \<Rightarrow> (int \<times> fs) option" where
  "altfs_rename now from to st = do {
     (v, st) \<leftarrow> altfs_access from st;
     if v \<noteq> 0 then Some (- ENOENT, st)
     else do {
       (v, st) \<leftarrow> altfs_access to st;
       (v, st) \<leftarrow> (if v = 0 then altfs_unlink now to st else Some (0, st));
       if v \<noteq> 0 then Some (v, st)
       else do {
         (v, st) \<leftarrow> link_target now from to st;
         if v \<noteq> 0 then Some (v, st)
         else do {
           (v, st) \<leftarrow> unlink_source now from st;
           if v \<noteq> 0 then Some (v, st)
           else do {
             st \<leftarrow> flush_inode_cache True st;
             Some (0, st)
           }
         }
       }
     }
   }"

definition altfs_destroy :: "fs \<Rightarrow> fs option" where
  "altfs_destroy st = do {
     st \<leftarrow> flush_inode_cache False st;
     s \<leftarrow> teardown (fs_disk st);
     Some (st\<lparr>fs_disk := s\<rparr>)
   }"

end
