(* ===== verification/FUSE_Layer.thy ===== *)
theory FUSE_Layer
  imports Interface_Files
begin

text \<open>
  \<open>src/fuse_layer.c\<close>: the callbacks that libfuse calls, which pass a request on to the interface layer
  and turn its result into an \<open>int\<close>, and the start. \<open>src/mkfs.c\<close>: the program that formats a disk.
  The arguments that the callbacks ignore are left out. \<open>fuse_main\<close> is libfuse and an argument of
  the start; what \<open>getopt\<close> returns is an argument of the formatting program.
\<close>

unbundle bit_operations_syntax

section \<open>The callbacks\<close>

text \<open>A \<open>ssize_t\<close> that is returned as an \<open>int\<close> keeps its low 32 bits.\<close>

definition to_int :: "int \<Rightarrow> int" where
  "to_int v = (v + 2 ^ 31) mod 2 ^ 32 - 2 ^ 31"

lemma to_int_id [simp]: "- (2 ^ 31) \<le> v \<Longrightarrow> v < 2 ^ 31 \<Longrightarrow> to_int v = v"
  by (simp add: to_int_def)

definition status :: "bool \<times> fs \<Rightarrow> int \<times> fs" where
  "status = (\<lambda>(ok, st). (if ok then 0 else -1, st))"

definition my_access :: "cstr \<Rightarrow> fs \<Rightarrow> (int \<times> fs) option" where
  "my_access p st = do { (v, st) \<leftarrow> altfs_access p st; Some (to_int v, st) }"

definition my_chown :: "cstr \<Rightarrow> int" where
  "my_chown p = 0"

definition my_chmod :: "cstr \<Rightarrow> int \<Rightarrow> fs \<Rightarrow> (int \<times> fs) option" where
  "my_chmod p mode st = do { (v, st) \<leftarrow> altfs_chmod p mode st; Some (to_int v, st) }"

definition my_create :: "int \<Rightarrow> cstr \<Rightarrow> int \<Rightarrow> int \<Rightarrow> fs \<Rightarrow> (int \<times> fs) option" where
  "my_create now p mode flags st = do {
     r \<leftarrow> (if has_bit flags O_CREAT then altfs_mknod now p (S_IFREG OR mode) (-1) st
           else altfs_mknod now p (S_IFREG OR 509) (-1) st);
     Some (status r)
   }"

definition my_getattr :: "cstr \<Rightarrow> fs \<Rightarrow> (int \<times> stat \<times> fs) option" where
  "my_getattr p st = do { (v, a, st) \<leftarrow> altfs_getattr p st; Some (to_int v, a, st) }"

definition my_open :: "int \<Rightarrow> cstr \<Rightarrow> int \<Rightarrow> fs \<Rightarrow> (int \<times> fs) option" where
  "my_open now p flags st = do {
     (inum, st) \<leftarrow> altfs_open now p flags st;
     Some (if inum \<le> -1 then to_int inum else 0, st)
   }"

definition my_read :: "int \<Rightarrow> cstr \<Rightarrow> buf \<Rightarrow> int \<Rightarrow> int \<Rightarrow> fs \<Rightarrow> (int \<times> buf \<times> fs) option" where
  "my_read now p buff n pos st = do {
     (nbytes, buff, st) \<leftarrow> altfs_read now p buff n pos st;
     Some (to_int nbytes, buff, st)
   }"

definition my_readdir :: "cstr \<Rightarrow> fs \<Rightarrow> (int \<times> (byte list \<times> stat) list \<times> fs) option" where
  "my_readdir p st = do { (v, calls, st) \<leftarrow> altfs_readdir p st; Some (to_int v, calls, st) }"

definition my_rmdir :: "int \<Rightarrow> cstr \<Rightarrow> fs \<Rightarrow> (int \<times> fs) option" where
  "my_rmdir now p st = do { (v, st) \<leftarrow> altfs_unlink now p st; Some (to_int v, st) }"

definition my_mkdir :: "int \<Rightarrow> cstr \<Rightarrow> int \<Rightarrow> fs \<Rightarrow> (int \<times> fs) option" where
  "my_mkdir now p mode st = do { r \<leftarrow> altfs_mkdir now p mode st; Some (status r) }"

definition my_mknod :: "int \<Rightarrow> cstr \<Rightarrow> int \<Rightarrow> int \<Rightarrow> fs \<Rightarrow> (int \<times> fs) option" where
  "my_mknod now p mode dev st = do { r \<leftarrow> altfs_mknod now p mode dev st; Some (status r) }"

definition my_utimens :: "cstr \<Rightarrow> int" where
  "my_utimens p = 0"

definition my_truncate :: "int \<Rightarrow> cstr \<Rightarrow> int \<Rightarrow> fs \<Rightarrow> (int \<times> fs) option" where
  "my_truncate now p pos st = do { (v, st) \<leftarrow> altfs_truncate now p pos st; Some (to_int v, st) }"

definition my_unlink :: "int \<Rightarrow> cstr \<Rightarrow> fs \<Rightarrow> (int \<times> fs) option" where
  "my_unlink now p st = do { (v, st) \<leftarrow> altfs_unlink now p st; Some (to_int v, st) }"

definition my_write :: "int \<Rightarrow> cstr \<Rightarrow> buf \<Rightarrow> int \<Rightarrow> int \<Rightarrow> fs \<Rightarrow> (int \<times> fs) option" where
  "my_write now p buff n pos st = do { (v, st) \<leftarrow> altfs_write now p buff n pos st; Some (to_int v, st) }"

definition my_rename :: "int \<Rightarrow> cstr \<Rightarrow> cstr \<Rightarrow> fs \<Rightarrow> (int \<times> fs) option" where
  "my_rename now from to st = do { (v, st) \<leftarrow> altfs_rename now from to st; Some (to_int v, st) }"

definition my_destroy :: "fs \<Rightarrow> fs option" where
  "my_destroy st = altfs_destroy st"

text \<open>The start; the exit code and the state when the program ends.\<close>

definition fuse_start :: "(fs \<Rightarrow> (int \<times> fs) option) \<Rightarrow> int \<Rightarrow> fs \<Rightarrow> (int \<times> fs) option" where
  "fuse_start fuse_main now st = do {
     (ok, st) \<leftarrow> altfs_init now st;
     if \<not> ok then Some (0, st) else fuse_main st
   }"

section \<open>The formatting program\<close>

datatype opt = Opt_E | Opt_F | Opt_h | Opt_unknown

text \<open>The loop over the options: the flags \<open>E\<close> and \<open>F\<close>, or the exit code of an early return.\<close>

fun parse_options :: "opt list \<Rightarrow> bool \<Rightarrow> bool \<Rightarrow> int + (bool \<times> bool)" where
  "parse_options [] E F = Inr (E, F)"
| "parse_options (Opt_E # os) E F = parse_options os True F"
| "parse_options (Opt_F # os) E F = parse_options os E True"
| "parse_options (Opt_h # os) E F = Inl 0"
| "parse_options (Opt_unknown # os) E F = Inl 1"

definition mkfs_main :: "bool \<Rightarrow> opt list \<Rightarrow> altfs \<Rightarrow> (int \<times> altfs) option" where
  "mkfs_main calloc_ok opts s =
     (case parse_options opts False False of
        Inl code \<Rightarrow> Some (code, s)
      | Inr (E, F) \<Rightarrow> do {
          let F = (if \<not> E \<and> \<not> F then True else F);
          (ok, s) \<leftarrow> altfs_makefs_options calloc_ok E F s;
          if \<not> ok then Some (0, s)
          else do {
            (_, s) \<leftarrow> altfs_dealloc_memory s;
            Some (0, s)
          }
        })"

end
