(* ===== verification/Directory_Records.thy ===== *)
theory Directory_Records
  imports Directory_Ops
begin

text \<open>
  The records of one block of a directory. \<open>holds b rs\<close> says that the block is the list \<open>rs\<close> of
  names and inode numbers, written one after the other and followed by zeroes. The search for a name
  is a search in that list, adding a record appends to it, and removing one takes it out and closes
  the gap.
\<close>

section \<open>Records\<close>

type_synonym dirent = "cstr \<times> int"

definition rec_size :: "dirent \<Rightarrow> int" where
  "rec_size r = 11 + int (length (fst r))"

lemma rec_size_pos: "0 < rec_size r" "11 \<le> rec_size r"
  by (simp_all add: rec_size_def)

definition recs_size :: "dirent list \<Rightarrow> int" where
  "recs_size rs = sum_list (map rec_size rs)"

lemma recs_size_simps [simp]:
  "recs_size [] = 0" "recs_size (r # rs) = rec_size r + recs_size rs"
  "recs_size (rs @ rs') = recs_size rs + recs_size rs'"
  by (simp_all add: recs_size_def)

lemma recs_size_nonneg: "0 \<le> recs_size rs"
  by (induction rs) (simp_all add: rec_size_def)

text \<open>A name and an inode number that a record can hold.\<close>

definition dirent_ok :: "dirent \<Rightarrow> bool" where
  "dirent_ok r \<longleftrightarrow> length (fst r) \<le> 255 \<and> is_cstr (fst r) \<and> in_ssize (snd r)"

primrec bytes_at :: "buf \<Rightarrow> int \<Rightarrow> byte list \<Rightarrow> bool" where
  "bytes_at b p [] \<longleftrightarrow> True"
| "bytes_at b p (x # xs) \<longleftrightarrow> b p = x \<and> bytes_at b (p + 1) xs"

definition record_at :: "buf \<Rightarrow> int \<Rightarrow> dirent \<Rightarrow> bool" where
  "record_at b p r \<longleftrightarrow> dirent_ok r \<and> get_le 2 b p = rec_size r
     \<and> to_ssize (get_le 8 b (p + 2)) = snd r \<and> bytes_at b (p + 10) (fst r @ [0])"

primrec recs :: "buf \<Rightarrow> int \<Rightarrow> dirent list \<Rightarrow> bool" where
  "recs b p [] \<longleftrightarrow> True"
| "recs b p (r # rs) \<longleftrightarrow> record_at b p r \<and> recs b (p + rec_size r) rs"

definition zero_from :: "buf \<Rightarrow> int \<Rightarrow> bool" where
  "zero_from b p \<longleftrightarrow> (\<forall>i. p \<le> i \<and> i < 4096 \<longrightarrow> b i = 0)"

definition holds :: "buf \<Rightarrow> dirent list \<Rightarrow> bool" where
  "holds b rs \<longleftrightarrow> recs b 0 rs \<and> recs_size rs \<le> 4096 \<and> zero_from b (recs_size rs)"

lemma recs_append: "recs b p (rs @ rs') \<longleftrightarrow> recs b p rs \<and> recs b (p + recs_size rs) rs'"
  by (induction rs arbitrary: p) (auto simp: algebra_simps)

section \<open>Blocks with the same bytes\<close>

lemma get_le_shift:
  "(\<And>i. p \<le> i \<Longrightarrow> i < p + int n \<Longrightarrow> b' i = b (i + d)) \<Longrightarrow> get_le n b' p = get_le n b (p + d)"
proof (induction n arbitrary: p)
  case (Suc n)
  have "get_le n b' (p + 1) = get_le n b (p + 1 + d)" by (rule Suc.IH) (auto intro: Suc.prems)
  moreover have "b' p = b (p + d)" by (rule Suc.prems) auto
  ultimately show ?case by (simp add: algebra_simps)
qed simp

lemma bytes_at_shift:
  "(\<And>i. p \<le> i \<Longrightarrow> i < p + int (length xs) \<Longrightarrow> b' i = b (i + d)) \<Longrightarrow> bytes_at b' p xs = bytes_at b (p + d) xs"
proof (induction xs arbitrary: p)
  case (Cons x xs)
  have "bytes_at b' (p + 1) xs = bytes_at b (p + 1 + d) xs" by (rule Cons.IH) (auto intro: Cons.prems)
  moreover have "b' p = b (p + d)" by (rule Cons.prems) auto
  ultimately show ?case by (simp add: algebra_simps)
qed simp

lemma record_at_shift:
  assumes "\<And>i. p \<le> i \<Longrightarrow> i < p + rec_size r \<Longrightarrow> b' i = b (i + d)"
  shows "record_at b' p r = record_at b (p + d) r"
proof -
  have "get_le 2 b' p = get_le 2 b (p + d)"
    by (rule get_le_shift) (auto intro!: assms simp: rec_size_def)
  moreover have "get_le 8 b' (p + 2) = get_le 8 b (p + 2 + d)"
    by (rule get_le_shift) (auto intro!: assms simp: rec_size_def)
  moreover have "bytes_at b' (p + 10) (fst r @ [0]) = bytes_at b (p + 10 + d) (fst r @ [0])"
    by (rule bytes_at_shift) (auto intro!: assms simp: rec_size_def)
  ultimately show ?thesis by (simp add: record_at_def algebra_simps del: bytes_at.simps)
qed

lemma recs_shift:
  "(\<And>i. p \<le> i \<Longrightarrow> i < p + recs_size rs \<Longrightarrow> b' i = b (i + d)) \<Longrightarrow> recs b' p rs = recs b (p + d) rs"
proof (induction rs arbitrary: p)
  case (Cons r rs)
  have "record_at b' p r = record_at b (p + d) r"
    by (rule record_at_shift) (use Cons.prems recs_size_nonneg [of rs] in auto)
  moreover have "recs b' (p + rec_size r) rs = recs b (p + rec_size r + d) rs"
    by (rule Cons.IH) (use Cons.prems rec_size_pos(1) [of r] in auto)
  ultimately show ?case by (simp add: algebra_simps)
qed simp

lemmas recs_cong = recs_shift [where d = 0, simplified]

section \<open>Searching\<close>

lemma get_le_zero:
  "zero_from b p \<Longrightarrow> p + int n \<le> 4096 \<Longrightarrow> get_le n b p = 0"
  using get_le_cong [of p n b zero_buf] by (simp add: zero_from_def)

lemma find_space_run:
  assumes "recs b p rs" "zero_from b (p + recs_size rs)" "1 \<le> n"
  shows "find_space b n p = (if p + recs_size rs + 10 + n \<le> 4096 then Some (p + recs_size rs) else None)"
  using assms
proof (induction rs arbitrary: p)
  case Nil
  then show ?case
    using get_le_zero [of b p 2] by (subst find_space.simps) auto
next
  case (Cons r rs)
  have "get_le 2 b p = rec_size r" using Cons.prems(1) by (simp add: record_at_def)
  moreover have "find_space b n (p + rec_size r) = (if p + rec_size r + recs_size rs + 10 + n \<le> 4096
      then Some (p + rec_size r + recs_size rs) else None)"
    using Cons.prems by (intro Cons.IH) (auto simp: algebra_simps)
  moreover have "11 \<le> rec_size r" "0 \<le> recs_size rs" by (rule rec_size_pos recs_size_nonneg)+
  ultimately show ?case using Cons.prems(3) by (subst find_space.simps) (auto simp: Let_def algebra_simps)
qed

lemma name_at_run:
  "bytes_at b p (ys @ [0]) \<Longrightarrow> length xs = length ys \<Longrightarrow> 0 \<le> p \<Longrightarrow> p + int (length ys) \<le> 4096 \<Longrightarrow>
   name_at b p xs = Some (xs = ys)"
proof (induction xs arbitrary: p ys)
  case (Cons x xs)
  then obtain y zs where ys: "ys = y # zs" by (cases ys) auto
  with Cons show ?case by auto
qed simp

text \<open>The position of the first record with a name.\<close>

fun rec_pos :: "int \<Rightarrow> dirent list \<Rightarrow> cstr \<Rightarrow> int option" where
  "rec_pos p [] name = None"
| "rec_pos p (r # rs) name = (if fst r = name then Some p else rec_pos (p + rec_size r) rs name)"

lemma find_record_run:
  assumes "recs b p rs" "zero_from b (p + recs_size rs)" "p + recs_size rs \<le> 4096" "0 \<le> p"
  shows "find_record b name p = Some (rec_pos p rs name)"
  using assms
proof (induction rs arbitrary: p)
  case Nil
  then show ?case using get_le_zero [of b p 2] by (subst find_record.simps) auto
next
  case (Cons r rs)
  have r: "get_le 2 b p = rec_size r" "dirent_ok r" "bytes_at b (p + 10) (fst r @ [0])"
    using Cons.prems(1) by (simp_all add: record_at_def)
  have p: "p + rec_size r \<le> 4096" "11 \<le> rec_size r" using Cons.prems(3) recs_size_nonneg [of rs] rec_size_pos(2) by auto
  have len: "(rec_size r - 11) mod 65536 = int (length (fst r))"
    using r(2) by (simp add: rec_size_def dirent_ok_def)
  have "find_record b name (p + rec_size r) = Some (rec_pos (p + rec_size r) rs name)"
    using Cons.prems p(2) by (intro Cons.IH) (auto simp: algebra_simps)
  moreover have "name_at b (p + 10) name = Some (name = fst r)" if "length (fst r) = length name"
    using name_at_run [OF r(3), of name] that p Cons.prems(4) by (simp add: rec_size_def)
  ultimately show ?case using r(1) p len by (subst find_record.simps) auto
qed

lemma rec_pos_split:
  "rec_pos p rs name = Some q \<Longrightarrow>
   \<exists>xs r ys. rs = xs @ r # ys \<and> fst r = name \<and> name \<notin> fst ` set xs \<and> q = p + recs_size xs"
proof (induction rs arbitrary: p)
  case (Cons r rs)
  show ?case
  proof (cases "fst r = name")
    case True
    then show ?thesis using Cons.prems by (intro exI [of _ "[]"]) auto
  next
    case False
    then obtain xs r' ys where "rs = xs @ r' # ys" "fst r' = name" "name \<notin> fst ` set xs" "q = p + rec_size r + recs_size xs"
      using Cons.IH [of "p + rec_size r"] Cons.prems by auto
    then show ?thesis using False by (intro exI [of _ "r # xs"]) auto
  qed
qed simp

lemma rec_pos_None: "rec_pos p rs name = None \<longleftrightarrow> map_of rs name = None"
  by (induction rs arbitrary: p) (auto split: if_splits)

lemma rec_pos_value:
  assumes "recs b p rs" "rec_pos p rs name = Some q"
  shows "map_of rs name = Some (to_ssize (get_le 8 b (q + 2)))"
  using assms by (induction rs arbitrary: p) (auto simp: record_at_def split: if_splits)

section \<open>Adding a record\<close>

lemma put_bytes_other: "q < p \<or> p + int (length xs) \<le> q \<Longrightarrow> put_bytes b p xs q = b q"
  by (induction xs arbitrary: p) auto

lemma bytes_at_cong:
  "(\<And>i. p \<le> i \<Longrightarrow> i < p + int (length xs) \<Longrightarrow> b' i = b i) \<Longrightarrow> bytes_at b' p xs = bytes_at b p xs"
  using bytes_at_shift [of p xs b' b 0] by simp

lemma bytes_at_put_bytes: "bytes_at (put_bytes b p xs) p xs"
proof (induction xs arbitrary: p)
  case (Cons x xs)
  have "bytes_at ((put_bytes b (p + 1) xs)(p := x)) (p + 1) xs = bytes_at (put_bytes b (p + 1) xs) (p + 1) xs"
    by (rule bytes_at_cong) auto
  then show ?case using Cons.IH [of "p + 1"] by (simp only: put_bytes.simps bytes_at.simps fun_upd_same simp_thms)
qed simp

lemma get_le_put_bytes_other [mem_simps]:
  "p + int (length xs) \<le> q \<or> q + int m \<le> p \<Longrightarrow> get_le m (put_bytes b p xs) q = get_le m b q"
  by (rule get_le_cong) (auto intro: put_bytes_other)

lemma put_record_other:
  "q < p \<or> p + rec_size (n, v) \<le> q \<Longrightarrow> put_record b p v n q = b q"
  by (auto simp: put_record_def rec_size_def put_bytes_other put_le_other
      simp del: put_le.simps put_bytes.simps)

lemma record_at_put_record:
  assumes "dirent_ok (n, v)"
  shows "record_at (put_record b p v n) p (n, v)"
proof -
  have n: "length n \<le> 255" "in_ssize v" using assms by (simp_all add: dirent_ok_def)
  have "get_le 2 (put_record b p v n) p = rec_size (n, v)"
    using n(1) by (simp add: put_record_def mem_simps rec_size_def del: put_le.simps put_bytes.simps get_le.simps)
  moreover have "to_ssize (get_le 8 (put_record b p v n) (p + 2)) = v"
    using n(2) by (simp add: put_record_def mem_simps del: put_le.simps put_bytes.simps get_le.simps)
  moreover have "bytes_at (put_record b p v n) (p + 10) (n @ [0])"
    using bytes_at_put_bytes [of _ "p + 10" "n @ [0]"] by (simp add: put_record_def del: bytes_at.simps put_bytes.simps)
  ultimately show ?thesis using assms by (simp add: record_at_def del: bytes_at.simps)
qed

lemma holds_put_record:
  assumes "holds b rs" "dirent_ok (n, v)" "recs_size rs + rec_size (n, v) \<le> 4096"
  shows "holds (put_record b (recs_size rs) v n) (rs @ [(n, v)])"
proof -
  have "recs (put_record b (recs_size rs) v n) 0 rs = recs b 0 rs"
    by (rule recs_cong) (simp add: put_record_other)
  moreover have "zero_from (put_record b (recs_size rs) v n) (recs_size rs + rec_size (n, v))"
    using assms(1) rec_size_pos(2) [of "(n, v)"] by (auto simp: zero_from_def holds_def put_record_other)
  ultimately show ?thesis
    using assms by (simp add: holds_def recs_append record_at_put_record)
qed

lemma holds_zero: "holds zero_buf []"
  by (simp add: holds_def zero_from_def)

lemma is_block_put_record:
  assumes "is_block b" "0 \<le> p" "p + rec_size (n, v) \<le> 4096"
  shows "is_block (put_record b p v n)"
  unfolding is_block_def
proof (intro allI impI)
  fix i :: int assume "\<not> (0 \<le> i \<and> i < 4096)"
  then show "put_record b p v n i = 0"
    using assms by (subst put_record_other) (auto simp: is_block_def)
qed

section \<open>Removing a record\<close>

text \<open>The first record with the name is taken out.\<close>

fun del_first :: "cstr \<Rightarrow> dirent list \<Rightarrow> dirent list" where
  "del_first name [] = []"
| "del_first name (r # rs) = (if fst r = name then rs else r # del_first name rs)"

lemma del_first_append: "name \<notin> fst ` set xs \<Longrightarrow> del_first name (xs @ r # ys) = (if fst r = name then xs @ ys else xs @ r # del_first name ys)"
  by (induction xs) auto

lemma map_of_del_first:
  "distinct (map fst rs) \<Longrightarrow> map_of (del_first name rs) = (map_of rs)(name := None)"
  by (induction rs) (auto simp: fun_eq_iff map_of_eq_None_iff)

text \<open>The block that \<open>remove_directory_entry\<close> writes.\<close>

definition cut_record :: "buf \<Rightarrow> int \<Rightarrow> buf" where
  "cut_record b q =
     (let buffer = memcpy zero_buf 0 b 0 q; next_offset = q + get_le 2 b q in
      if next_offset < 4096 then memcpy buffer q b next_offset (4096 - next_offset) else buffer)"

lemma cut_record_bytes:
  assumes "0 \<le> q" "0 \<le> i" "i < 4096" "0 \<le> get_le 2 b q" "q + get_le 2 b q \<le> 4096"
  shows "cut_record b q i = (if i < q then b i
    else if i + get_le 2 b q < 4096 then b (i + get_le 2 b q) else 0)"
  using assms by (auto simp: cut_record_def Let_def memcpy_def algebra_simps)

lemma holds_cut_record:
  assumes "holds b rs" "rec_pos 0 rs name = Some q"
  shows "holds (cut_record b q) (del_first name rs)"
proof -
  obtain xs r ys where rs: "rs = xs @ r # ys" "fst r = name" "name \<notin> fst ` set xs" "q = recs_size xs"
    using rec_pos_split [OF assms(2)] by auto
  note nn = recs_size_nonneg [of xs] recs_size_nonneg [of ys] rec_size_pos(2) [of r]
  have h: "recs b 0 xs" "record_at b q r" "recs b (q + rec_size r) ys" "zero_from b (q + rec_size r + recs_size ys)"
    "q + rec_size r + recs_size ys \<le> 4096"
    using assms(1) by (simp_all add: holds_def rs recs_append algebra_simps)
  have len: "get_le 2 b q = rec_size r" using h(2) by (simp add: record_at_def)
  have q0: "0 \<le> q" using nn(1) rs(4) by simp
  have bytes: "cut_record b q i = (if i < q then b i else if i + rec_size r < 4096 then b (i + rec_size r) else 0)"
    if "0 \<le> i" "i < 4096" for i
    using cut_record_bytes [of q i b] that nn h(5) q0 by (simp add: len)
  have "recs (cut_record b q) 0 xs = recs b 0 xs"
    by (rule recs_cong) (use bytes nn h(5) rs(4) in auto)
  moreover have "recs (cut_record b q) q ys = recs b (q + rec_size r) ys"
    by (rule recs_shift) (use bytes nn h(5) rs(4) in auto)
  moreover have "zero_from (cut_record b q) (q + recs_size ys)"
    using bytes h(4) nn rs(4) by (auto simp: zero_from_def)
  moreover have "del_first name rs = xs @ ys" using rs by (simp add: del_first_append)
  ultimately show ?thesis using h nn rs(4) by (simp add: holds_def recs_append)
qed

lemma is_block_cut_record:
  assumes "is_block b" "0 \<le> q" "q \<le> 4096" "0 \<le> get_le 2 b q"
  shows "is_block (cut_record b q)"
  using assms by (auto simp: is_block_def cut_record_def Let_def memcpy_def)

end
