(* ===== verification/File_Blocks.thy ===== *)
theory File_Blocks
  imports Inode_Data_Block_Ops
begin

text \<open>
  The blocks of a file as one tree. A position is the path to a block, read from the block up to
  the field of the inode: \<open>[r]\<close> is a field (0 to 11 the direct blocks; -1, -2 and -3 the single,
  double and triple indirect block) and \<open>i # p\<close> the address \<open>i\<close> of the indirect block at \<open>p\<close>.
  \<open>block_at\<close> follows such a path, \<open>pos_of\<close> gives the position of a logical block, and \<open>file_ok\<close>
  says that the blocks of a file are data blocks in use that occur in it once. The functions of
  \<open>src/inode_data_block_ops.c\<close> and \<open>get_disk_block_from_inode_block\<close> are proved against it.
\<close>

section \<open>Positions\<close>

type_synonym pos = "int list"

definition root_at :: "inode \<Rightarrow> int \<Rightarrow> int" where
  "root_at nd r =
     (if r = -1 then i_single_indirect nd
      else if r = -2 then i_double_indirect nd
      else if r = -3 then i_triple_indirect nd
      else i_direct_blocks nd ! nat r)"

fun block_at :: "altfs \<Rightarrow> inode \<Rightarrow> pos \<Rightarrow> int" where
  "block_at s nd [] = 0"
| "block_at s nd [r] = root_at nd r"
| "block_at s nd (i # j # p) = addr_at (disk_block s (block_at s nd (j # p))) i"

definition pos_of :: "int \<Rightarrow> pos" where
  "pos_of l =
     (if l < 12 then [l]
      else if l < 524 then [l - 12, -1]
      else if l < 262668 then [(l - 524) mod 512, (l - 524) div 512, -2]
      else [(l - 262668) mod 512, (l - 262668) div 512 mod 512, (l - 262668) div 262144, -3])"

definition MAX_FILE_BLOCKS :: int where
  "MAX_FILE_BLOCKS = 12 + 512 + 512 * 512 + 512 * 512 * 512"

definition file_block :: "altfs \<Rightarrow> inode \<Rightarrow> int \<Rightarrow> int" where
  "file_block s nd l = block_at s nd (pos_of l)"

text \<open>The positions a file of \<open>n\<close> blocks uses: the paths to its blocks with all their prefixes.\<close>

fun path :: "pos \<Rightarrow> pos set" where
  "path [] = {}"
| "path (i # p) = insert (i # p) (path p)"

definition used :: "int \<Rightarrow> pos set" where
  "used n = (\<Union>l \<in> {0..<n}. path (pos_of l))"

definition tree_ok :: "altfs \<Rightarrow> int set \<Rightarrow> inode \<Rightarrow> pos set \<Rightarrow> bool" where
  "tree_ok s F nd U \<longleftrightarrow> inj_on (block_at s nd) U
     \<and> (\<forall>p \<in> U. data_block s (block_at s nd p) \<and> block_at s nd p \<notin> F)
     \<and> (\<forall>i j p. i # j # p \<in> U \<longrightarrow> j # p \<in> U \<and> 0 \<le> i \<and> i < 512)"

text \<open>How many levels of blocks are below a position, and that everything a file does not use is 0:
  the functions that release a file stop at the first 0.\<close>

definition level :: "pos \<Rightarrow> nat" where
  "level p = nat (1 - last p) - length p"

definition tidy :: "altfs \<Rightarrow> inode \<Rightarrow> pos set \<Rightarrow> bool" where
  "tidy s nd U \<longleftrightarrow> (\<forall>r \<in> {-3..<12}. [r] \<notin> U \<longrightarrow> root_at nd r = 0)
     \<and> (\<forall>p \<in> U. 0 < level p \<longrightarrow>
          (\<forall>i. 0 \<le> i \<and> i < 512 \<and> i # p \<notin> U \<longrightarrow> addr_at (disk_block s (block_at s nd p)) i = 0))"

definition file_ok :: "altfs \<Rightarrow> int set \<Rightarrow> inode \<Rightarrow> bool" where
  "file_ok s F nd \<longleftrightarrow> length (i_direct_blocks nd) = 12 \<and> 0 \<le> i_blocks_num nd \<and>
     tree_ok s F nd (used (i_blocks_num nd)) \<and> tidy s nd (used (i_blocks_num nd))"

lemma used_Suc: "0 \<le> n \<Longrightarrow> used (n + 1) = used n \<union> path (pos_of n)"
proof -
  assume "0 \<le> n"
  then have "{0..<n + 1} = insert n {0..<n}" by auto
  then show ?thesis by (auto simp: used_def)
qed

lemma used_0 [simp]: "used 0 = {}"
  by (simp add: used_def)

lemma pos_of_used: "0 \<le> l \<Longrightarrow> l < n \<Longrightarrow> path (pos_of l) \<subseteq> used n"
  by (auto simp: used_def)

lemma pos_of_in_path [simp]: "pos_of l \<in> path (pos_of l)"
  by (simp add: pos_of_def)

lemma used_cases:
  assumes "p \<in> used n"
  obtains l where "0 \<le> l" "l < n" "p \<in> path (pos_of l)"
  using assms by (auto simp: used_def)

section \<open>Blocks that do not change\<close>

lemma block_at_frame:
  assumes closed: "\<And>i j p. i # j # p \<in> U \<Longrightarrow> j # p \<in> U"
    and roots: "\<And>r. [r] \<in> U \<Longrightarrow> root_at nd' r = root_at nd r"
    and cells: "\<And>i j p. i # j # p \<in> U \<Longrightarrow>
       addr_at (disk_block t (block_at s nd (j # p))) i = addr_at (disk_block s (block_at s nd (j # p))) i"
  shows "q \<in> U \<Longrightarrow> block_at t nd' q = block_at s nd q"
proof (induction q)
  case (Cons i q)
  show ?case
  proof (cases q)
    case Nil
    then show ?thesis using Cons.prems by (simp add: roots)
  next
    case (Cons j p)
    then have q: "i # j # p \<in> U" using Cons.prems by simp
    have "block_at t nd' (j # p) = block_at s nd (j # p)"
      using Cons.IH closed [OF q] Cons by simp
    then show ?thesis using cells [OF q] Cons by simp
  qed
qed simp

text \<open>Only blocks outside of the indirect blocks of the file change.\<close>

lemma block_at_unchanged:
  assumes "tree_ok s F nd U" "only_changes A s t" "\<And>q. q \<in> U \<Longrightarrow> block_at s nd q \<notin> A" "q \<in> U"
  shows "block_at t nd q = block_at s nd q"
proof (rule block_at_frame [where U = U, OF _ _ _ assms(4)])
  fix i j p assume "i # j # p \<in> U"
  then have "j # p \<in> U" using assms(1) by (auto simp: tree_ok_def)
  then show "j # p \<in> U"
    "addr_at (disk_block t (block_at s nd (j # p))) i = addr_at (disk_block s (block_at s nd (j # p))) i"
    using assms(3) only_changes_block [OF assms(2)] by auto
qed simp

text \<open>\<open>tree_ok\<close> depends on the positions only through \<open>block_at\<close>.\<close>

lemma tree_ok_cong:
  assumes "tree_ok s F nd U" "\<And>q. q \<in> U \<Longrightarrow> block_at t nd' q = block_at s nd q" "G \<subseteq> F"
    and "\<And>n. data_block t n = data_block s n"
  shows "tree_ok t G nd' U"
proof -
  have "inj_on (block_at t nd') U = inj_on (block_at s nd) U"
    using assms(2) by (rule inj_on_cong)
  then show ?thesis using assms by (auto simp: tree_ok_def)
qed

text \<open>One more position, whose block is a data block in use that is not yet in the file.\<close>

lemma tree_ok_insert:
  assumes "tree_ok s F nd U" "b = block_at s nd q" "data_block s b" "b \<notin> F" "b \<notin> block_at s nd ` U"
    and "\<And>i j p. q = i # j # p \<Longrightarrow> j # p \<in> U \<and> 0 \<le> i \<and> i < 512"
  shows "tree_ok s F nd (insert q U)"
proof -
  have "inj_on (block_at s nd) (insert q U)"
    using assms(1,2,5) by (auto simp: tree_ok_def inj_on_insert)
  moreover have "\<forall>p \<in> insert q U. data_block s (block_at s nd p) \<and> block_at s nd p \<notin> F"
    using assms(1-4) unfolding tree_ok_def by blast
  moreover have "j # p \<in> insert q U \<and> 0 \<le> i \<and> i < 512" if "i # j # p \<in> insert q U" for i j p
    using that assms(6) [of i j p] assms(1) unfolding tree_ok_def by blast
  ultimately show ?thesis unfolding tree_ok_def by blast
qed

lemma tree_ok_facts:
  assumes "tree_ok s F nd U" "q \<in> U"
  shows "data_block s (block_at s nd q)" "block_at s nd q \<notin> F"
  using assms by (auto simp: tree_ok_def)

section \<open>The three ways a file changes\<close>

definition set_root :: "inode \<Rightarrow> int \<Rightarrow> int \<Rightarrow> inode" where
  "set_root nd r b =
     (if r = -1 then nd\<lparr>i_single_indirect := b\<rparr>
      else if r = -2 then nd\<lparr>i_double_indirect := b\<rparr>
      else if r = -3 then nd\<lparr>i_triple_indirect := b\<rparr>
      else nd\<lparr>i_direct_blocks := (i_direct_blocks nd)[nat r := b]\<rparr>)"

lemma root_at_set_root:
  "length (i_direct_blocks nd) = 12 \<Longrightarrow> r \<in> {-3..<12} \<Longrightarrow> r' \<in> {-3..<12} \<Longrightarrow>
   root_at (set_root nd r b) r' = (if r' = r then b else root_at nd r')"
  by (auto simp: root_at_def set_root_def nth_list_update)

lemma set_root_same: "length (i_direct_blocks nd) = 12 \<Longrightarrow> set_root nd r (root_at nd r) = nd"
  by (simp add: set_root_def root_at_def)

section \<open>Growing the tree\<close>

text \<open>The fields of an inode that do not say which blocks the file has.\<close>

definition attrs :: "inode \<Rightarrow> inode" where
  "attrs nd = nd\<lparr>i_blocks_num := 0, i_direct_blocks := [], i_single_indirect := 0, i_double_indirect := 0,
     i_triple_indirect := 0\<rparr>"

lemma attrs_set_root [simp]: "attrs (set_root nd r b) = attrs nd"
  by (simp add: attrs_def set_root_def)

lemma attrs_one_more [simp]: "attrs (one_more_block nd) = attrs nd"
  by (simp add: attrs_def one_more_block_def)

text \<open>\<open>grows s F nd U t G nd' V\<close>: from \<open>s\<close> to \<open>t\<close> the file gained the positions of \<open>V\<close> that are
  not in \<open>U\<close>; their blocks are exactly the ones the free list lost, and nothing else happened to
  the file. The blocks below which there is no other one keep their contents.\<close>

definition grows :: "altfs \<Rightarrow> int set \<Rightarrow> inode \<Rightarrow> pos set \<Rightarrow> altfs \<Rightarrow> int set \<Rightarrow> inode \<Rightarrow> pos set \<Rightarrow> bool" where
  "grows s F nd U t G nd' V \<longleftrightarrow> freelist t G \<and> tree_ok t G nd' V \<and> U \<subseteq> V \<and> G \<subseteq> F
     \<and> F - G = block_at t nd' ` (V - U)
     \<and> (\<forall>q \<in> U. block_at t nd' q = block_at s nd q)
     \<and> only_changes (insert 0 F \<union> block_at s nd ` U) s t \<and> head_only s t
     \<and> (superblock_synced s \<longrightarrow> superblock_synced t) \<and> (tidy s nd U \<longrightarrow> tidy t nd' V)
     \<and> (\<forall>q \<in> U. (\<forall>i. i # q \<notin> V) \<longrightarrow> disk_block t (block_at s nd q) = disk_block s (block_at s nd q))
     \<and> attrs nd' = attrs nd"

lemma growsD:
  assumes "grows s F nd U t G nd' V"
  shows "freelist t G" "tree_ok t G nd' V" "U \<subseteq> V" "G \<subseteq> F" "F - G = block_at t nd' ` (V - U)"
    "\<And>q. q \<in> U \<Longrightarrow> block_at t nd' q = block_at s nd q"
    "only_changes (insert 0 F \<union> block_at s nd ` U) s t" "head_only s t"
    "superblock_synced s \<Longrightarrow> superblock_synced t" "tidy s nd U \<Longrightarrow> tidy t nd' V"
    "\<And>q. q \<in> U \<Longrightarrow> (\<And>i. i # q \<notin> V) \<Longrightarrow> disk_block t (block_at s nd q) = disk_block s (block_at s nd q)"
    "attrs nd' = attrs nd"
  using assms unfolding grows_def by blast+

lemma grows_refl:
  assumes "freelist s F" "tree_ok s F nd U"
  shows "grows s F nd U s F nd U"
  using assms by (auto simp: grows_def freelist_def intro: head_only_refl)

lemma grows_image:
  assumes "grows s F nd U t G nd' V"
  shows "block_at t nd' ` V \<subseteq> block_at s nd ` U \<union> F"
proof
  fix b assume "b \<in> block_at t nd' ` V"
  then obtain q where q: "q \<in> V" "b = block_at t nd' q" by blast
  show "b \<in> block_at s nd ` U \<union> F"
  proof (cases "q \<in> U")
    case True
    then show ?thesis using q(2) growsD(6) [OF assms] by simp
  next
    case False
    then have "b \<in> F - G" using q growsD(5) [OF assms] by blast
    then show ?thesis by blast
  qed
qed

lemma grows_trans:
  assumes st: "grows s F nd U t G nd' V" and tu: "grows t G nd' V u H nd'' W"
  shows "grows s F nd U u H nd'' W"
proof -
  note a = growsD [OF st] and b = growsD [OF tu]
  have keep: "block_at u nd'' q = block_at t nd' q" if "q \<in> V" for q
    using that by (rule b(6))
  have "F - H = (F - G) \<union> (G - H)" using a(4) b(4) by blast
  also have "\<dots> = block_at u nd'' ` (V - U) \<union> block_at u nd'' ` (W - V)"
    using a(5) b(5) keep by auto
  also have "\<dots> = block_at u nd'' ` (W - U)" using a(3) b(3) by blast
  finally have "F - H = block_at u nd'' ` (W - U)" .
  moreover have "only_changes (insert 0 F \<union> block_at s nd ` U) s u"
    by (rule only_changes_trans_same [OF a(7)], rule only_changes_mono [OF b(7)])
      (use grows_image [OF st] a(4) in blast)
  moreover have "\<forall>q \<in> U. block_at u nd'' q = block_at s nd q" using a(3,6) keep by auto
  moreover have "head_only s u" by (rule head_only_trans [OF a(8) b(8)])
  moreover have "U \<subseteq> W" "H \<subseteq> F" using a(3,4) b(3,4) by blast+
  moreover have "superblock_synced s \<longrightarrow> superblock_synced u" using a(9) b(9) by simp
  moreover have "tidy s nd U \<longrightarrow> tidy u nd'' W" using a(10) b(10) by simp
  moreover have "disk_block u (block_at s nd q) = disk_block s (block_at s nd q)" if q: "q \<in> U" "\<forall>i. i # q \<notin> W" for q
  proof -
    have "q \<in> V" "\<And>i. i # q \<notin> V" using q a(3) b(3) by blast+
    then have "disk_block u (block_at t nd' q) = disk_block t (block_at t nd' q)" using b(11) q(2) by blast
    then show ?thesis using a(6,11) q(1) \<open>\<And>i. i # q \<notin> V\<close> by simp
  qed
  moreover have "attrs nd'' = attrs nd" using a(12) b(12) by simp
  ultimately show ?thesis using b(1,2) by (simp add: grows_def)
qed

text \<open>An allocation leaves the file alone and hands out a block that is not in it.\<close>

lemma allocate_for_file:
  assumes F: "freelist s F" "F \<noteq> {}" and ok: "tree_ok s F nd U"
  shows "\<exists>b t. allocate_data_block s = Some (b, t) \<and> b \<in> F \<and> b \<noteq> -1 \<and> freelist t (F - {b})
    \<and> tree_ok t (F - {b}) nd U \<and> data_block t b \<and> in_ssize b \<and> b \<notin> block_at t nd ` U
    \<and> (\<forall>q \<in> U. block_at t nd q = block_at s nd q) \<and> only_changes (insert 0 F) s t
    \<and> head_only s t \<and> (superblock_synced s \<longrightarrow> superblock_synced t)
    \<and> disk_block t b = zero_buf \<and> (tidy s nd U \<longrightarrow> tidy t nd U)"
proof -
  obtain b t where t: "allocate_data_block s = Some (b, t)" "b \<in> F" "freelist t (F - {b})"
    "only_changes (insert 0 F) s t" "head_only s t" "superblock_synced s \<longrightarrow> superblock_synced t"
    "disk_block t b = zero_buf"
    using allocate_data_block_free [OF F] by blast
  have geo: "data_block t n = data_block s n" for n by (rule only_changes_geometry [OF t(4)])
  have db: "data_block s b" and m: "mounted s"
    using F(1) t(2) by (auto simp: freelist_def)
  have b: "valid_block s b" "0 < b" using data_block_valid [OF m db] by auto
  have out: "block_at s nd q \<notin> insert 0 F" if "q \<in> U" for q
    using tree_ok_facts [OF ok that] data_block_valid [OF m, of 0] by auto
  then have same: "block_at t nd q = block_at s nd q" if "q \<in> U" for q
    using that by (intro block_at_unchanged [OF ok t(4)]) auto
  then have "b \<notin> block_at t nd ` U" using t(2) tree_ok_facts(2) [OF ok] by auto
  moreover have "tree_ok t (F - {b}) nd U"
    by (rule tree_ok_cong [OF ok]) (use same geo in auto)
  moreover have "disk_block t (block_at t nd q) = disk_block s (block_at s nd q)" if "q \<in> U" for q
    using only_changes_block [OF t(4)] out [OF that] same [OF that] by simp
  then have "tidy s nd U \<longrightarrow> tidy t nd U" by (simp add: tidy_def)
  ultimately show ?thesis
    using t b same geo db in_ssize_valid_block [OF m b(1)] by auto
qed

lemma tidy_insert:
  assumes "tidy s nd U" "\<And>p. p \<in> U \<Longrightarrow> block_at t nd' p = block_at s nd p"
    and "\<And>r. r \<in> {-3..<12} \<Longrightarrow> [r] \<notin> insert q U \<Longrightarrow> root_at nd' r = root_at nd r"
    and "\<And>p i. p \<in> U \<Longrightarrow> 0 \<le> i \<Longrightarrow> i < 512 \<Longrightarrow> i # p \<notin> insert q U \<Longrightarrow>
       addr_at (disk_block t (block_at s nd p)) i = addr_at (disk_block s (block_at s nd p)) i"
    and "level q = 0 \<or> disk_block t (block_at t nd' q) = zero_buf"
  shows "tidy t nd' (insert q U)"
  unfolding tidy_def
proof (intro conjI ballI impI allI)
  fix r assume "r \<in> {-3..<12 :: int}" "[r] \<notin> insert q U"
  then show "root_at nd' r = 0" using assms(1,3) by (auto simp: tidy_def)
next
  fix p i assume p: "p \<in> insert q U" "0 < level p" "0 \<le> i \<and> i < 512 \<and> i # p \<notin> insert q U"
  show "addr_at (disk_block t (block_at t nd' p)) i = 0"
  proof (cases "p \<in> U")
    case True
    then show ?thesis using p assms(1,2,4) by (simp add: tidy_def)
  next
    case False
    then show ?thesis using p assms(5) by auto
  qed
qed

text \<open>A field of the inode gets a new block.\<close>

lemma new_root_run:
  assumes F: "freelist s F" "F \<noteq> {}" and ok: "tree_ok s F nd U" and len: "length (i_direct_blocks nd) = 12"
    and r: "r \<in> {-3..<0}" "U \<subseteq> {q. last q \<in> {-3..<12}}"
  shows "\<exists>b t G. new_root ([r] \<notin> U) (root_at nd r) s = Some (True, b, t) \<and> card F \<le> card G + 1
    \<and> grows s F nd U t G (set_root nd r b) (insert [r] U)"
proof (cases "[r] \<in> U")
  case True
  then have "grows s F nd U s F (set_root nd r (root_at nd r)) (insert [r] U)"
    using grows_refl [OF F(1) ok] by (simp add: set_root_same [OF len] insert_absorb)
  then show ?thesis
    using True by (intro exI [of _ "root_at nd r"] exI [of _ s] exI [of _ F]) (simp add: new_root_def)
next
  case False
  obtain b t where t: "allocate_data_block s = Some (b, t)" "b \<in> F" "b \<noteq> -1" "freelist t (F - {b})"
    "tree_ok t (F - {b}) nd U" "data_block t b" "b \<notin> block_at t nd ` U"
    "\<And>q. q \<in> U \<Longrightarrow> block_at t nd q = block_at s nd q" "only_changes (insert 0 F) s t" "head_only s t"
    "superblock_synced s \<longrightarrow> superblock_synced t" "disk_block t b = zero_buf" "tidy s nd U \<longrightarrow> tidy t nd U"
    using allocate_for_file [OF F ok] by blast
  let ?nd = "set_root nd r b"
  have roots: "root_at ?nd r' = root_at nd r'" if "[r'] \<in> U" for r'
    using that False r by (subst root_at_set_root [OF len]) (auto dest: subsetD)
  have new: "root_at ?nd r = b" using r by (subst root_at_set_root [OF len]) auto
  have same: "block_at t ?nd q = block_at t nd q" if "q \<in> U" for q
    by (rule block_at_frame [where U = U, OF _ _ _ that]) (use t(5) roots in \<open>auto simp: tree_ok_def\<close>)
  have "tree_ok t (F - {b}) ?nd (insert [r] U)"
    by (rule tree_ok_insert [where b = b])
      (use tree_ok_cong [OF t(5) same] t(6,7) same new in auto)
  moreover have "tidy t ?nd (insert [r] U)" if "tidy s nd U"
    by (rule tidy_insert [where s = t and nd = nd])
      (use that t(12,13) same new r(1) in \<open>auto simp: root_at_set_root [OF len]\<close>)
  moreover have "insert [r] U - U = {[r]}" using False by blast
  moreover have "F - (F - {b}) = {b}" using t(2) by blast
  moreover have "only_changes (insert 0 F \<union> block_at s nd ` U) s t"
    by (rule only_changes_mono [OF t(9)]) blast
  moreover have "disk_block t (block_at s nd q) = disk_block s (block_at s nd q)" if "q \<in> U" for q
    using tree_ok_facts [OF ok that] data_block_valid [OF freelist_mounted [OF F(1)], of 0]
    by (intro only_changes_block [OF t(9)]) auto
  ultimately have "grows s F nd U t (F - {b}) ?nd (insert [r] U)"
    using t same new unfolding grows_def by auto
  moreover have "card F \<le> card (F - {b}) + 1"
    using t(2) finite_freelist [OF F(1)] card.remove by fastforce
  ultimately show ?thesis using False t(1,3) by (auto simp: new_root_def)
qed

text \<open>One address of an indirect block of the file is written.\<close>

lemma write_cell:
  assumes F: "freelist s F" and ok: "tree_ok s F nd U" and p: "j # p \<in> U" "i # j # p \<notin> U" "0 \<le> i" "i < 512"
    and b: "data_block s b" "b \<notin> F" "b \<notin> block_at s nd ` U"
  defines "t \<equiv> upd_block s (block_at s nd (j # p)) (set_addr (disk_block s (block_at s nd (j # p))) i b)"
  shows "freelist t F" "tree_ok t F nd (insert (i # j # p) U)" "block_at t nd (i # j # p) = b"
    "\<And>q. q \<in> U \<Longrightarrow> block_at t nd q = block_at s nd q"
    "only_changes (block_at s nd ` U) s t" "superblock_synced s \<Longrightarrow> superblock_synced t"
    "disk_block t (block_at s nd (j # p)) = set_addr (disk_block s (block_at s nd (j # p))) i b"
    "tidy s nd U \<Longrightarrow> level (i # j # p) = 0 \<or> disk_block s b = zero_buf \<Longrightarrow> tidy t nd (insert (i # j # p) U)"
    "\<And>k. k \<noteq> block_at s nd (j # p) \<Longrightarrow> disk_block t k = disk_block s k"
proof -
  let ?n = "block_at s nd (j # p)"
  have m: "mounted s" using F by (rule freelist_mounted)
  have n: "data_block s ?n" "?n \<notin> F" using tree_ok_facts [OF ok p(1)] by auto
  then have n0: "valid_block s ?n" "0 < ?n" using data_block_valid [OF m] by auto
  have bs: "in_ssize b" using data_block_valid [OF m b(1)] in_ssize_valid_block [OF m] by blast
  show th: "disk_block t ?n = set_addr (disk_block s ?n) i b"
    unfolding t_def using m p(3,4) by (simp add: mem_simps)
  have ch: "only_changes {?n} s t" unfolding t_def using m by (simp add: only_changes_upd)
  show "disk_block t k = disk_block s k" if "k \<noteq> ?n" for k
    using that by (intro only_changes_block [OF ch]) simp
  obtain sb where sb: "altfs_superblock s = Ptr sb" "superblock_ok sb"
    using F by (auto simp: freelist_def)
  have cell: "addr_at (disk_block t k) i' = (if k = ?n \<and> i' = i then b else addr_at (disk_block s k) i')"
    if "0 \<le> i'" "i' < 512" for k i'
    unfolding t_def using m p(3,4) that bs by (simp add: addr.get_disk_put)
  show same: "block_at t nd q = block_at s nd q" if "q \<in> U" for q
  proof (rule block_at_frame [where U = U, OF _ _ _ that])
    fix i' j' p' assume q: "i' # j' # p' \<in> U"
    then have c: "j' # p' \<in> U" "0 \<le> i'" "i' < 512" using ok by (auto simp: tree_ok_def)
    then show "j' # p' \<in> U" by simp
    have "block_at s nd (j' # p') = ?n \<longrightarrow> j' # p' = j # p"
      using ok c(1) p(1) by (auto simp: tree_ok_def dest: inj_onD)
    then have "\<not> (block_at s nd (j' # p') = ?n \<and> i' = i)" using q p(2) by auto
    then show "addr_at (disk_block t (block_at s nd (j' # p'))) i' =
        addr_at (disk_block s (block_at s nd (j' # p'))) i'"
      by (subst cell [OF c(2,3)]) (simp only: if_False)
  qed simp
  show new: "block_at t nd (i # j # p) = b"
    using cell [OF p(3,4), of ?n] same [OF p(1)] by simp
  have geo: "data_block t k = data_block s k" for k by (rule only_changes_geometry [OF ch])
  have "block_at t nd ` U = block_at s nd ` U" using same by auto
  then show "tree_ok t F nd (insert (i # j # p) U)"
    using tree_ok_cong [OF ok same order_refl geo] b p new
    by (intro tree_ok_insert [where b = b]) (auto simp: geo)
  have bt: "disk_block t b = disk_block s b"
    using b(3) p(1) by (intro only_changes_block [OF ch]) auto
  show "tidy t nd (insert (i # j # p) U)" if "tidy s nd U" "level (i # j # p) = 0 \<or> disk_block s b = zero_buf"
  proof (rule tidy_insert [OF that(1) same])
    fix q k assume q: "q \<in> U" "0 \<le> k" "k < 512" "k # q \<notin> insert (i # j # p) U"
    have "block_at s nd q = ?n \<longrightarrow> q = j # p"
      using ok q(1) p(1) by (auto simp: tree_ok_def dest: inj_onD)
    then have "\<not> (block_at s nd q = ?n \<and> k = i)" using q(4) by auto
    then show "addr_at (disk_block t (block_at s nd q)) k = addr_at (disk_block s (block_at s nd q)) k"
      by (subst cell [OF q(2,3)]) (simp only: if_False)
  qed (use that(2) new bt in auto)
  show "freelist t F"
    by (rule freelist_unaffected [OF F ch _ sb(1) _ sb(2)]) (use n(2) sb(1) in \<open>auto simp: t_def\<close>)
  show "only_changes (block_at s nd ` U) s t"
    by (rule only_changes_mono [OF ch]) (use p(1) in blast)
  show "superblock_synced t" if "superblock_synced s"
    using that n0(2) only_changes_block [OF ch, of 0] by (simp add: superblock_synced_def t_def)
qed

lemma arr_run [run]:
  "0 \<le> i \<Longrightarrow> i < 512 \<Longrightarrow> arr_get b i = Some (addr_at b i)"
  "0 \<le> i \<Longrightarrow> i < 512 \<Longrightarrow> arr_set b i v = Some (set_addr b i v)"
  by (simp_all add: arr_get_def arr_set_def)

text \<open>An indirect block of the file gets a new indirect block below it.\<close>

lemma new_child_run:
  assumes F: "freelist s F" "F \<noteq> {}" and ok: "tree_ok s F nd U" and p: "j # p \<in> U" "0 \<le> i" "i < 512"
  defines "n \<equiv> block_at s nd (j # p)"
  shows "\<exists>t G. new_child (i # j # p \<notin> U) n i (disk_block s n) s = Some (True, disk_block t n, t)
    \<and> card F \<le> card G + 1 \<and> grows s F nd U t G nd (insert (i # j # p) U)"
proof (cases "i # j # p \<in> U")
  case True
  then show ?thesis
    using grows_refl [OF F(1) ok] by (intro exI [of _ s] exI [of _ F]) (simp add: new_child_def insert_absorb)
next
  case False
  obtain b t where t: "allocate_data_block s = Some (b, t)" "b \<in> F" "b \<noteq> -1" "freelist t (F - {b})"
    "tree_ok t (F - {b}) nd U" "data_block t b" "b \<notin> block_at t nd ` U"
    "\<And>q. q \<in> U \<Longrightarrow> block_at t nd q = block_at s nd q" "only_changes (insert 0 F) s t" "head_only s t"
    "superblock_synced s \<longrightarrow> superblock_synced t" "disk_block t b = zero_buf" "tidy s nd U \<longrightarrow> tidy t nd U"
    using allocate_for_file [OF F ok] by blast
  have tn: "block_at t nd (j # p) = n" using t(8) p(1) by (simp add: n_def)
  have n: "data_block t n" "n \<notin> F" "n \<noteq> 0"
    using tree_ok_facts [OF t(5) p(1)] tree_ok_facts [OF ok p(1)] data_block_valid [of t n]
      freelist_mounted [OF t(4)] by (auto simp: tn n_def)
  have dn: "disk_block t n = disk_block s n" using n by (intro only_changes_block [OF t(9)]) auto
  let ?u = "upd_block t n (set_addr (disk_block t n) i b)"
  note w = write_cell [OF t(4,5) p(1) False p(2,3) t(6) _ t(7), unfolded tn]
  have bF: "b \<notin> F - {b}" by simp
  note w = w [OF bF]
  have image: "block_at t nd ` U = block_at s nd ` U" using t(8) by auto
  have "only_changes (insert 0 F \<union> block_at s nd ` U) s ?u"
    by (rule only_changes_trans_same [OF only_changes_mono [OF t(9)] only_changes_mono [OF w(5)]])
      (auto simp: image)
  moreover have "insert (i # j # p) U - U = {i # j # p}" using False by blast
  moreover have "F - (F - {b}) = {b}" using t(2) by blast
  moreover have "head_only s ?u" using t(10) by (auto simp: head_only_def)
  moreover have "disk_block ?u (block_at s nd q) = disk_block s (block_at s nd q)"
    if q: "q \<in> U" "\<forall>k. k # q \<notin> insert (i # j # p) U" for q
  proof -
    have "q \<noteq> j # p" using q(2) by blast
    then have "block_at s nd q \<noteq> n" using ok p(1) q(1) by (auto simp: tree_ok_def n_def dest: inj_onD)
    moreover have "disk_block t (block_at s nd q) = disk_block s (block_at s nd q)"
      using tree_ok_facts [OF ok q(1)] data_block_valid [OF freelist_mounted [OF F(1)], of 0]
      by (intro only_changes_block [OF t(9)]) auto
    ultimately show ?thesis using w(9) by simp
  qed
  ultimately have "grows s F nd U ?u (F - {b}) nd (insert (i # j # p) U)"
    using w t(8,11,12,13) unfolding grows_def by auto
  moreover have "card F \<le> card (F - {b}) + 1"
    using t(2) finite_freelist [OF F(1)] card.remove by fastforce
  moreover have "new_child True n i (disk_block s n) s = Some (True, disk_block ?u n, ?u)"
    using t(1,3) p(2,3) n(1) freelist_mounted [OF t(4)] w(7)
    by (simp add: new_child_def run dn)
  ultimately show ?thesis using False by auto
qed

lemma write_addr_run:
  assumes "mounted s" "data_block s n" "0 \<le> i" "i < 512"
  shows "write_addr n i v s = Some (True, upd_block s n (set_addr (disk_block s n) i v))"
  using assms by (simp add: write_addr_def run)

section \<open>The positions of the next block\<close>

lemma pos_of_cases:
  assumes "0 \<le> l" "l < MAX_FILE_BLOCKS"
  obtains (direct) "l < 12" "pos_of l = [l]"
  | (single) "12 \<le> l" "l < 524" "pos_of l = [l - 12, -1]"
  | (double) d where "d = l - 524" "0 \<le> d" "d < 262144" "pos_of l = [d mod 512, d div 512, -2]"
  | (triple) d where "d = l - 262668" "0 \<le> d" "d < 134217728"
      "pos_of l = [d mod 512, d div 512 mod 512, d div 262144, -3]"
proof -
  consider "l < 12" | "12 \<le> l" "l < 524" | "524 \<le> l" "l < 262668" | "262668 \<le> l" by linarith
  then show ?thesis
    using assms direct single double [OF refl] triple [OF refl]
    by cases (simp_all add: pos_of_def MAX_FILE_BLOCKS_def)
qed

lemma path_cases:
  assumes "q \<in> path (pos_of l)" "0 \<le> l"
  obtains "q = [l]" "l < 12"
  | "q = [l - 12, -1] \<or> q = [-1]" "12 \<le> l" "l < 524"
  | "q = [(l - 524) mod 512, (l - 524) div 512, -2] \<or> q = [(l - 524) div 512, -2] \<or> q = [-2]"
      "524 \<le> l" "l < 262668"
  | "q = [(l - 262668) mod 512, (l - 262668) div 512 mod 512, (l - 262668) div 262144, -3]
      \<or> q = [(l - 262668) div 512 mod 512, (l - 262668) div 262144, -3]
      \<or> q = [(l - 262668) div 262144, -3] \<or> q = [-3]" "262668 \<le> l"
  using assms by (auto simp: pos_of_def split: if_splits)

text \<open>Which of the positions on the way to block \<open>n\<close> are there before it is added.\<close>

lemma used_direct: "0 \<le> r \<Longrightarrow> [r] \<in> used n \<longleftrightarrow> r < n \<and> r < 12"
  by (auto simp: used_def pos_of_def split: if_splits)

lemma used_single_root: "[-1] \<in> used n \<longleftrightarrow> 12 < n"
proof
  assume "12 < n"
  then have "[-1] \<in> path (pos_of 12)" by (simp add: pos_of_def)
  then show "[-1] \<in> used n" using pos_of_used [of 12 n] \<open>12 < n\<close> by auto
qed (auto elim!: used_cases path_cases)

lemma used_single: "[n - 12, -1] \<notin> used n"
  by (auto elim!: used_cases path_cases)

lemma used_double_root: "[-2] \<in> used n \<longleftrightarrow> 524 < n"
proof
  assume "524 < n"
  then have "[-2] \<in> path (pos_of 524)" by (simp add: pos_of_def)
  then show "[-2] \<in> used n" using pos_of_used [of 524 n] \<open>524 < n\<close> by auto
qed (auto elim!: used_cases path_cases)

lemma used_triple_root: "[-3] \<in> used n \<longleftrightarrow> 262668 < n"
proof
  assume "262668 < n"
  then have "[-3] \<in> path (pos_of 262668)" by (simp add: pos_of_def)
  then show "[-3] \<in> used n" using pos_of_used [of 262668 n] \<open>262668 < n\<close> by auto
qed (auto elim!: used_cases path_cases)

lemma div_same:
  fixes d e k :: int
  assumes "d < e" "d div k = e div k" "0 < k"
  shows "e mod k \<noteq> 0"
proof
  assume "e mod k = 0"
  then have "e = k * (d div k)" using mult_div_mod_eq [of k e] assms(2) by simp
  moreover have "d = k * (d div k) + d mod k" by simp
  ultimately have "e \<le> d" using pos_mod_sign [OF assms(3), of d] by linarith
  with assms(1) show False by simp
qed

lemma div_pred:
  fixes d k :: int
  assumes "d mod k \<noteq> 0" "0 < k"
  shows "(d - 1) div k = d div k"
proof (rule int_div_pos_eq)
  show "d - 1 = k * (d div k) + (d mod k - 1)" by simp
  show "0 \<le> d mod k - 1" "d mod k - 1 < k"
    using assms pos_mod_sign [OF assms(2), of d] pos_mod_bound [OF assms(2), of d] by linarith+
qed

lemma divmod_eq: "(d :: int) mod k = e mod k \<Longrightarrow> d div k = e div k \<Longrightarrow> d = e"
  by (metis mult_div_mod_eq)

lemma div_262144: "(d :: int) div 262144 = d div 512 div 512"
  using zdiv_zmult2_eq [of 512 d 512] by simp

lemma used_double_child:
  assumes "0 \<le> d" "d < 262144"
  shows "[d div 512, -2] \<in> used (d + 524) \<longleftrightarrow> d mod 512 \<noteq> 0"
proof
  assume "[d div 512, -2] \<in> used (d + 524)"
  then obtain l where "524 \<le> l" "l < d + 524" "d div 512 = (l - 524) div 512"
    by (auto elim!: used_cases path_cases)
  then show "d mod 512 \<noteq> 0" using div_same [of "l - 524" d 512] by simp
next
  assume m: "d mod 512 \<noteq> 0"
  then have "0 < d" using assms by (cases "d = 0") auto
  have "[d div 512, -2] \<in> path (pos_of (d + 523))"
    using assms \<open>0 < d\<close> div_pred [OF m] by (simp add: pos_of_def)
  then show "[d div 512, -2] \<in> used (d + 524)"
    using pos_of_used [of "d + 523" "d + 524"] assms by auto
qed

lemma used_double: "[d mod 512, d div 512, -2] \<notin> used (d + 524)"
proof
  assume "[d mod 512, d div 512, -2] \<in> used (d + 524)"
  then obtain l where "l < d + 524" "d mod 512 = (l - 524) mod 512" "d div 512 = (l - 524) div 512"
    by (auto elim!: used_cases path_cases)
  then show False using divmod_eq [of d 512 "l - 524"] by simp
qed

lemma used_triple_child:
  assumes "0 \<le> d"
  shows "[d div 262144, -3] \<in> used (d + 262668) \<longleftrightarrow> d mod 262144 \<noteq> 0"
proof
  assume "[d div 262144, -3] \<in> used (d + 262668)"
  then obtain l where "262668 \<le> l" "l < d + 262668" "d div 262144 = (l - 262668) div 262144"
    by (auto elim!: used_cases path_cases)
  then show "d mod 262144 \<noteq> 0" using div_same [of "l - 262668" d 262144] by simp
next
  assume m: "d mod 262144 \<noteq> 0"
  then have "0 < d" using assms by (cases "d = 0") auto
  have "[d div 262144, -3] \<in> path (pos_of (d + 262667))"
    using assms \<open>0 < d\<close> div_pred [OF m] by (simp add: pos_of_def)
  then show "[d div 262144, -3] \<in> used (d + 262668)"
    using pos_of_used [of "d + 262667" "d + 262668"] assms by auto
qed

lemma used_triple_grandchild:
  assumes "0 \<le> d"
  shows "[d div 512 mod 512, d div 262144, -3] \<in> used (d + 262668) \<longleftrightarrow> d mod 512 \<noteq> 0"
proof
  assume "[d div 512 mod 512, d div 262144, -3] \<in> used (d + 262668)"
  then obtain l where l: "262668 \<le> l" "l < d + 262668" "d div 262144 = (l - 262668) div 262144"
    "d div 512 mod 512 = (l - 262668) div 512 mod 512"
    by (auto elim!: used_cases path_cases)
  then have "d div 512 = (l - 262668) div 512"
    using divmod_eq [of "d div 512" 512 "(l - 262668) div 512"] by (simp add: div_262144)
  then show "d mod 512 \<noteq> 0" using div_same [of "l - 262668" d 512] l(2) by simp
next
  assume m: "d mod 512 \<noteq> 0"
  then have "0 < d" using assms by (cases "d = 0") auto
  have "[d div 512 mod 512, d div 262144, -3] \<in> path (pos_of (d + 262667))"
    using assms \<open>0 < d\<close> div_pred [OF m] by (simp add: pos_of_def div_262144)
  then show "[d div 512 mod 512, d div 262144, -3] \<in> used (d + 262668)"
    using pos_of_used [of "d + 262667" "d + 262668"] assms by auto
qed

lemma used_triple: "[d mod 512, d div 512 mod 512, d div 262144, -3] \<notin> used (d + 262668)"
proof
  assume "[d mod 512, d div 512 mod 512, d div 262144, -3] \<in> used (d + 262668)"
  then obtain l where l: "l < d + 262668" "d mod 512 = (l - 262668) mod 512"
    "d div 262144 = (l - 262668) div 262144" "d div 512 mod 512 = (l - 262668) div 512 mod 512"
    by (auto elim!: used_cases path_cases)
  then have "d div 512 = (l - 262668) div 512"
    using divmod_eq [of "d div 512" 512 "(l - 262668) div 512"] by (simp add: div_262144)
  then show False using divmod_eq [of d 512 "l - 262668"] l by simp
qed

lemma last_used: "0 \<le> n \<Longrightarrow> used n \<subseteq> {q. last q \<in> {-3..<12}}"
  by (auto elim!: used_cases path_cases)

section \<open>Adding a block at the end\<close>

lemma root_at_one_more [simp]: "root_at (one_more_block nd) r = root_at nd r"
  by (simp add: root_at_def one_more_block_def)

lemma block_at_one_more [simp]: "block_at s (one_more_block nd) q = block_at s nd q"
  by (induction s nd q rule: block_at.induct) (simp_all add: root_at_def one_more_block_def)

lemma tidy_one_more [simp]: "tidy s (one_more_block nd) U = tidy s nd U"
  by (simp add: tidy_def)

lemma tree_ok_one_more [simp]: "tree_ok s F (one_more_block nd) U = tree_ok s F nd U"
proof -
  have "block_at s (one_more_block nd) = block_at s nd" by (rule ext) simp
  then show ?thesis by (simp only: tree_ok_def)
qed

lemma one_more_block_fields [simp]:
  "i_blocks_num (one_more_block nd) = i_blocks_num nd + 1"
  "i_direct_blocks (one_more_block nd) = i_direct_blocks nd"
  by (simp_all add: one_more_block_def)

lemma set_root_fields [simp]:
  "i_blocks_num (set_root nd r b) = i_blocks_num nd"
  "length (i_direct_blocks (set_root nd r b)) = length (i_direct_blocks nd)"
  by (simp_all add: set_root_def)

lemma set_root_eqs:
  "set_root nd (-1) b = nd\<lparr>i_single_indirect := b\<rparr>"
  "set_root nd (-2) b = nd\<lparr>i_double_indirect := b\<rparr>"
  "set_root nd (-3) b = nd\<lparr>i_triple_indirect := b\<rparr>"
  "root_at nd (-1) = i_single_indirect nd"
  "root_at nd (-2) = i_double_indirect nd"
  "root_at nd (-3) = i_triple_indirect nd"
  by (simp_all add: set_root_def root_at_def)

text \<open>What adding the block \<open>d\<close> achieves: the file is one block longer and ends with \<open>d\<close>, all its
  other blocks are as before, and the blocks the free list lost are the new indirect blocks.\<close>

definition block_added :: "altfs \<Rightarrow> int set \<Rightarrow> inode \<Rightarrow> int \<Rightarrow> altfs \<Rightarrow> int set \<Rightarrow> inode \<Rightarrow> bool" where
  "block_added s F nd d t G nd' \<longleftrightarrow> freelist t G \<and> G \<subseteq> F
     \<and> i_blocks_num nd' = i_blocks_num nd + 1 \<and> file_ok t G nd'
     \<and> file_block t nd' (i_blocks_num nd) = d
     \<and> (\<forall>q \<in> used (i_blocks_num nd). block_at t nd' q = block_at s nd q)
     \<and> insert d (F - G) = block_at t nd' ` (used (i_blocks_num nd + 1) - used (i_blocks_num nd))
     \<and> only_changes (insert 0 F \<union> block_at s nd ` used (i_blocks_num nd)) s t \<and> head_only s t
     \<and> (superblock_synced s \<longrightarrow> superblock_synced t)
     \<and> (\<forall>l. 0 \<le> l \<and> l < i_blocks_num nd \<longrightarrow> disk_block t (file_block s nd l) = disk_block s (file_block s nd l))
     \<and> disk_block t d = disk_block s d \<and> attrs nd' = attrs nd"

text \<open>No block lies below the position of a logical block.\<close>

lemma pos_of_leaf: "0 \<le> l \<Longrightarrow> i # pos_of l \<notin> used n"
  by (auto simp: pos_of_def split: if_splits elim!: used_cases path_cases)

text \<open>A block that can be added: allocated, and not yet in the file.\<close>

definition addable :: "altfs \<Rightarrow> int set \<Rightarrow> inode \<Rightarrow> int \<Rightarrow> bool" where
  "addable s F nd d \<longleftrightarrow> data_block s d \<and> d \<notin> F \<and> d \<notin> block_at s nd ` used (i_blocks_num nd)"

lemma finish_add:
  assumes g: "grows s F nd (used n) t G nd' V" and n: "i_blocks_num nd = n" "i_blocks_num nd' = n" "0 \<le> n"
    and len: "length (i_direct_blocks nd') = 12"
    and leaf: "pos_of n = i # j # p" "pos_of n \<notin> V" "j # p \<in> V" "0 \<le> i" "i < 512"
      "used (n + 1) = insert (pos_of n) V"
    and d: "addable s F nd d" and td: "tidy s nd (used n)"
  shows "\<exists>u. write_addr (block_at t nd' (j # p)) i d t = Some (True, u)
    \<and> block_added s F nd d u G (one_more_block nd')"
proof -
  note im = grows_image [OF g]
  note g = growsD [OF g]
  have geo: "data_block t k = data_block s k" for k by (rule only_changes_geometry [OF g(7)])
  have dt: "data_block t d" "d \<notin> G" "d \<notin> block_at t nd' ` V"
    using d g(4) im by (auto simp: addable_def geo n)
  let ?n = "block_at t nd' (j # p)"
  define u where "u = upd_block t ?n (set_addr (disk_block t ?n) i d)"
  note w = write_cell [OF g(1,2) leaf(3) leaf(2) [unfolded leaf(1)] leaf(4,5) dt, folded u_def leaf(1)]
  have run: "write_addr ?n i d t = Some (True, u)"
    using tree_ok_facts [OF g(2) leaf(3)] freelist_mounted [OF g(1)] leaf(4,5) unfolding u_def
    by (intro write_addr_run) auto
  have UV: "used n \<subseteq> V" by (rule g(3))
  have "used (n + 1) - used n = insert (pos_of n) (V - used n)" using leaf(2,6) UV by blast
  moreover have "block_at u nd' ` (V - used n) = block_at t nd' ` (V - used n)"
    using w(4) by (intro image_cong) auto
  ultimately have new: "block_at u nd' ` (used (n + 1) - used n) = insert d (F - G)"
    using w(3) g(5) by simp
  have ch: "only_changes (insert 0 F \<union> block_at s nd ` used n) s u"
    by (rule only_changes_trans_same [OF g(7) only_changes_mono [OF w(5)]]) (use im in blast)
  have "level (pos_of n) = 0" using leaf(1) n(3) by (auto simp: pos_of_def level_def split: if_splits)
  then have "tidy u nd' (insert (pos_of n) V)" using w(8) g(10) td by blast
  then have ok: "file_ok u G (one_more_block nd')"
    using w(2) n len by (simp add: file_ok_def leaf(6))
  have ho: "head_only s u" using g(8) by (auto simp: head_only_def u_def)
  have old: "\<forall>q \<in> used n. block_at u nd' q = block_at s nd q"
    using w(4) g(6) subsetD [OF UV] by simp
  have sy: "superblock_synced s \<longrightarrow> superblock_synced u" using w(6) g(9) by simp
  have cont: "disk_block u (block_at s nd (pos_of l)) = disk_block s (block_at s nd (pos_of l))"
    if l: "0 \<le> l \<and> l < n" for l
  proof -
    have q: "pos_of l \<in> used n" using pos_of_used [of l n] l by auto
    have up: "k # pos_of l \<notin> used (n + 1)" for k using l by (intro pos_of_leaf) simp
    then have "pos_of l \<noteq> j # p" using leaf(1,6) by (metis insertI1)
    then have "block_at t nd' (pos_of l) \<noteq> ?n"
      using g(2) leaf(3) subsetD [OF UV q] by (auto simp: tree_ok_def dest: inj_onD)
    moreover have "disk_block t (block_at s nd (pos_of l)) = disk_block s (block_at s nd (pos_of l))"
      using up leaf(6) by (intro g(11) [OF q]) auto
    ultimately show ?thesis using w(9) g(6) [OF q] by simp
  qed
  have "0 < d" using dt(1) data_block_valid [OF freelist_mounted [OF g(1)]] by blast
  then have dd: "disk_block u d = disk_block s d"
    using d by (intro only_changes_block [OF ch]) (auto simp: addable_def n)
  have "block_added s F nd d u G (one_more_block nd')"
    unfolding block_added_def file_block_def n block_at_one_more one_more_block_fields attrs_one_more
    by (intro conjI w(1) g(4,12) refl ok w(3) old new [symmetric] ch ho sy dd allI impI cont) simp_all
  then show ?thesis using run by blast
qed

text \<open>The four areas.\<close>

lemma used_Suc_cases:
  assumes "0 \<le> n"
  shows "n < 12 \<Longrightarrow> used (n + 1) = insert [n] (used n)"
    "12 \<le> n \<Longrightarrow> n < 524 \<Longrightarrow> used (n + 1) = insert [n - 12, -1] (insert [-1] (used n))"
    "d = n - 524 \<Longrightarrow> 0 \<le> d \<Longrightarrow> d < 262144 \<Longrightarrow>
       used (n + 1) = insert [d mod 512, d div 512, -2] (insert [d div 512, -2] (insert [-2] (used n)))"
    "d = n - 262668 \<Longrightarrow> 0 \<le> d \<Longrightarrow>
       used (n + 1) = insert [d mod 512, d div 512 mod 512, d div 262144, -3]
         (insert [d div 512 mod 512, d div 262144, -3] (insert [d div 262144, -3] (insert [-3] (used n))))"
  using assms by (auto simp: used_Suc pos_of_def)

lemma add_to_direct_run:
  assumes F: "freelist s F" and ok: "file_ok s F nd" and n: "i_blocks_num nd = n" "n < 12" and d: "addable s F nd d"
  shows "\<exists>nd'. add_to_direct nd n d s = Some (True, nd', s) \<and> block_added s F nd d s F nd'"
proof -
  from ok n(1) have len: "length (i_direct_blocks nd) = 12" and n0: "0 \<le> n" and tr: "tree_ok s F nd (used n)"
    and td: "tidy s nd (used n)"
    by (simp_all add: file_ok_def)
  let ?nd = "set_root nd n d"
  have fresh: "[n] \<notin> used n" using n0 by (simp add: used_direct)
  have new: "root_at ?nd n = d" using n n0 by (subst root_at_set_root [OF len]) auto
  have roots: "root_at ?nd r = root_at nd r" if "[r] \<in> used n" for r
    using that fresh n n0 last_used [OF n0] by (subst root_at_set_root [OF len]) (auto dest: subsetD)
  have same: "block_at s ?nd q = block_at s nd q" if "q \<in> used n" for q
    by (rule block_at_frame [where U = "used n", OF _ _ _ that]) (use tr roots in \<open>auto simp: tree_ok_def\<close>)
  have U: "used (n + 1) = insert [n] (used n)" using used_Suc_cases(1) n n0 by simp
  have dd: "data_block s d" "d \<notin> F" "d \<notin> block_at s ?nd ` used n" using d n same by (auto simp: addable_def)
  have "tree_ok s F ?nd (insert [n] (used n))"
    by (rule tree_ok_insert [where b = d]) (use tree_ok_cong [OF tr same] dd new in auto)
  moreover have "tidy s ?nd (insert [n] (used n))"
    by (rule tidy_insert [OF td same]) (use n n0 in \<open>auto simp: root_at_set_root [OF len] level_def\<close>)
  ultimately have "file_ok s F (one_more_block ?nd)" using n n0 len by (simp add: file_ok_def U)
  moreover have "insert [n] (used n) - used n = {[n]}" using fresh by blast
  moreover have "head_only s s" using F by (auto simp: freelist_def intro: head_only_refl)
  ultimately have "block_added s F nd d s F (one_more_block ?nd)"
    using F n same new unfolding block_added_def by (simp add: U file_block_def pos_of_def)
  moreover have "add_to_direct nd n d s = Some (True, one_more_block ?nd, s)"
    using n n0 len by (simp add: add_to_direct_def direct_set_def set_root_def)
  ultimately show ?thesis by blast
qed

lemma add_to_single_run:
  assumes F: "freelist s F" "3 \<le> card F" and ok: "file_ok s F nd" and n: "i_blocks_num nd = n" "12 \<le> n" "n < 524"
    and d: "addable s F nd d"
  shows "\<exists>nd' t G. add_to_single nd (n - 12) d s = Some (True, nd', t) \<and> block_added s F nd d t G nd'"
proof -
  from ok n(1) have len: "length (i_direct_blocks nd) = 12" and n0: "0 \<le> n" and tr: "tree_ok s F nd (used n)"
    and td: "tidy s nd (used n)"
    by (simp_all add: file_ok_def)
  have ne: "F \<noteq> {}" using F(2) by auto
  obtain b t G where t: "new_root ([-1] \<notin> used n) (root_at nd (-1)) s = Some (True, b, t)"
    "grows s F nd (used n) t G (set_root nd (-1) b) (insert [-1] (used n))"
    using new_root_run [OF F(1) ne tr len _ last_used [OF n0], of "-1"] by auto
  have pos: "pos_of n = [n - 12, -1]" using n by (simp add: pos_of_def)
  obtain u where u: "write_addr (block_at t (set_root nd (-1) b) [-1]) (n - 12) d t = Some (True, u)"
    "block_added s F nd d u G (one_more_block (set_root nd (-1) b))"
    using finish_add [OF t(2) n(1) _ n0 _ pos _ _ _ _ _ d td] n used_single [of n] used_Suc_cases(2) [OF n0]
    by (auto simp: pos len)
  have "block_at t (set_root nd (-1) b) [-1] = b" by (simp add: root_at_def set_root_def)
  moreover have "(n - 12 = 0) \<longleftrightarrow> [-1] \<notin> used n" using n(2) used_single_root [of n] by auto
  ultimately have "add_to_single nd (n - 12) d s = Some (True, one_more_block (set_root nd (-1) b), u)"
    using t(1) u(1) by (simp add: add_to_single_def set_root_eqs)
  then show ?thesis using u(2) by blast
qed

text \<open>The state in which a level of the tree is there and one more block can be allocated.\<close>

lemma grows_child:
  assumes g: "grows s F nd U t G nd' V" and G: "G \<noteq> {}" and p: "j # p \<in> V" "0 \<le> i" "i < 512"
  defines "n \<equiv> block_at t nd' (j # p)"
  shows "\<exists>u H. new_child (i # j # p \<notin> V) n i (disk_block t n) t = Some (True, disk_block u n, u)
    \<and> card G \<le> card H + 1 \<and> grows s F nd U u H nd' (insert (i # j # p) V)
    \<and> block_at u nd' (j # p) = n \<and> block_at u nd' (i # j # p) = addr_at (disk_block u n) i
    \<and> data_block u (block_at u nd' (i # j # p)) \<and> data_block t n"
proof -
  note gt = growsD(1,2) [OF g]
  obtain u H where u: "new_child (i # j # p \<notin> V) n i (disk_block t n) t = Some (True, disk_block u n, u)"
    "card G \<le> card H + 1" "grows t G nd' V u H nd' (insert (i # j # p) V)"
    using new_child_run [OF gt(1) G gt(2) p] unfolding n_def by blast
  have b: "block_at u nd' (j # p) = n" using growsD(6) [OF u(3) p(1)] by (simp add: n_def)
  have "data_block u (block_at u nd' (i # j # p))"
    using tree_ok_facts(1) [OF growsD(2) [OF u(3)]] by blast
  moreover have "data_block t n" using tree_ok_facts(1) [OF gt(2) p(1)] by (simp add: n_def)
  ultimately show ?thesis using u(1,2) grows_trans [OF g u(3)] b by auto
qed

lemma add_to_double_run:
  assumes F: "freelist s F" "3 \<le> card F" and ok: "file_ok s F nd"
    and n: "i_blocks_num nd = n" "d = n - 524" "0 \<le> d" "d < 262144" and x: "addable s F nd x"
  shows "\<exists>nd' t G. add_to_double nd d x s = Some (True, nd', t) \<and> block_added s F nd x t G nd'"
proof -
  from ok n(1) have len: "length (i_direct_blocks nd) = 12" and n0: "0 \<le> n" and tr: "tree_ok s F nd (used n)"
    and td: "tidy s nd (used n)"
    by (simp_all add: file_ok_def)
  have ne: "F \<noteq> {}" using F(2) by auto
  obtain b t G where t: "new_root ([-2] \<notin> used n) (root_at nd (-2)) s = Some (True, b, t)"
    "card F \<le> card G + 1" "grows s F nd (used n) t G (set_root nd (-2) b) (insert [-2] (used n))"
    using new_root_run [OF F(1) ne tr len _ last_used [OF n0], of "-2"] by auto
  let ?nd = "set_root nd (-2) b" and ?i = "d div 512" and ?k = "d mod 512"
  have i: "0 \<le> ?i" "?i < 512" "0 \<le> ?k" "?k < 512" using n(3,4) by auto
  have root: "block_at t' ?nd [-2] = b" for t' by (simp add: root_at_def set_root_def)
  have G: "G \<noteq> {}" using t(2) F(2) by auto
  obtain u H where u: "new_child ([?i, -2] \<notin> insert [-2] (used n)) b ?i (disk_block t b) t = Some (True, disk_block u b, u)"
    "grows s F nd (used n) u H ?nd (insert [?i, -2] (insert [-2] (used n)))"
    "block_at u ?nd [?i, -2] = addr_at (disk_block u b) ?i" "data_block u (block_at u ?nd [?i, -2])" "data_block t b"
    using grows_child [OF t(3) G insertI1 i(1,2)] unfolding root by (elim exE conjE) (rule that)
  have pos: "pos_of n = [?k, ?i, -2]" using n by (simp add: pos_of_def)
  have nn: "n = d + 524" using n by simp
  have V: "pos_of n \<notin> insert [?i, -2] (insert [-2] (used n))"
    using used_double [of d] unfolding pos unfolding nn by simp
  have W: "used (n + 1) = insert (pos_of n) (insert [?i, -2] (insert [-2] (used n)))"
    unfolding pos by (rule used_Suc_cases(3) [OF n0 n(2-4)])
  have nd: "i_blocks_num ?nd = n" "length (i_direct_blocks ?nd) = 12" using n(1) len by simp_all
  obtain v where v: "write_addr (block_at u ?nd [?i, -2]) ?k x u = Some (True, v)"
    "block_added s F nd x v H (one_more_block ?nd)"
    using finish_add [OF u(2) n(1) nd(1) n0 nd(2) pos V insertI1 i(3,4) W x td] by blast
  have c: "(d = 0) \<longleftrightarrow> [-2] \<notin> used n" "(?k = 0) \<longleftrightarrow> [?i, -2] \<notin> insert [-2] (used n)"
    using used_double_root [of n] used_double_child [OF n(3,4)] n(3) by (auto simp: nn)
  have pos_single: "0 < addr_at (disk_block u b) ?i"
    using u(3,4) growsD(1) [OF u(2)] data_block_valid by (auto simp: freelist_def)
  have m: "mounted t" by (rule freelist_mounted [OF growsD(1) [OF t(3)]])
  note steps = t(1) [folded c, unfolded set_root_eqs] read_data_block_run [OF m u(5)] u(1) [folded c]
    v(1) [unfolded u(3)]
  have "add_to_double nd d x s = Some (True, one_more_block ?nd, v)"
    unfolding add_to_double_def set_root_eqs
    using n(3) i pos_single by (simp add: steps run del: block_at.simps)
  then show ?thesis using v(2) by blast
qed

lemma add_to_triple_run:
  assumes F: "freelist s F" "3 \<le> card F" and ok: "file_ok s F nd"
    and n: "i_blocks_num nd = n" "d = n - 262668" "0 \<le> d" "d < 134217728" and x: "addable s F nd x"
  shows "\<exists>nd' t G. add_to_triple nd d x s = Some (True, nd', t) \<and> block_added s F nd x t G nd'"
proof -
  from ok n(1) have len: "length (i_direct_blocks nd) = 12" and n0: "0 \<le> n" and tr: "tree_ok s F nd (used n)"
    and td: "tidy s nd (used n)"
    by (simp_all add: file_ok_def)
  have ne: "F \<noteq> {}" using F(2) by auto
  obtain b t G where t: "new_root ([-3] \<notin> used n) (root_at nd (-3)) s = Some (True, b, t)"
    "card F \<le> card G + 1" "grows s F nd (used n) t G (set_root nd (-3) b) (insert [-3] (used n))"
    using new_root_run [OF F(1) ne tr len _ last_used [OF n0], of "-3"] by auto
  let ?nd = "set_root nd (-3) b" and ?h = "d div 262144" and ?i = "d div 512 mod 512" and ?k = "d mod 512"
  let ?V = "insert [?h, -3] (insert [-3] (used n))"
  have i: "0 \<le> ?h" "?h < 512" "0 \<le> ?i" "?i < 512" "0 \<le> ?k" "?k < 512" using n(3,4) by auto
  have root: "block_at t' ?nd [-3] = b" for t' by (simp add: root_at_def set_root_def)
  have G: "G \<noteq> {}" using t(2) F(2) by auto
  obtain u H where u: "new_child ([?h, -3] \<notin> insert [-3] (used n)) b ?h (disk_block t b) t = Some (True, disk_block u b, u)"
    "card G \<le> card H + 1" "grows s F nd (used n) u H ?nd ?V" "b = b"
    "block_at u ?nd [?h, -3] = addr_at (disk_block u b) ?h" "data_block u (block_at u ?nd [?h, -3])" "data_block t b"
    using grows_child [OF t(3) G insertI1 i(1,2)] unfolding root by (elim exE conjE) (rule that)
  let ?n = "block_at u ?nd [?h, -3]"
  have H: "H \<noteq> {}" using t(2) u(2) F(2) by auto
  obtain v K where v: "new_child ([?i, ?h, -3] \<notin> ?V) ?n ?i (disk_block u ?n) u = Some (True, disk_block v ?n, v)"
    "card H \<le> card K + 1" "grows s F nd (used n) v K ?nd (insert [?i, ?h, -3] ?V)" "block_at v ?nd [?h, -3] = ?n"
    "block_at v ?nd [?i, ?h, -3] = addr_at (disk_block v ?n) ?i" "data_block v (block_at v ?nd [?i, ?h, -3])"
    "data_block u ?n"
    using grows_child [OF u(3) H insertI1 i(3,4)] by (elim exE conjE) (rule that)
  have pos: "pos_of n = [?k, ?i, ?h, -3]" using n by (simp add: pos_of_def)
  have nn: "n = d + 262668" using n by simp
  have V: "pos_of n \<notin> insert [?i, ?h, -3] ?V"
    using used_triple [of d] unfolding pos unfolding nn by simp
  have W: "used (n + 1) = insert (pos_of n) (insert [?i, ?h, -3] ?V)"
    unfolding pos by (rule used_Suc_cases(4) [OF n0 n(2,3)])
  have nd: "i_blocks_num ?nd = n" "length (i_direct_blocks ?nd) = 12" using n(1) len by simp_all
  obtain w where w: "write_addr (block_at v ?nd [?i, ?h, -3]) ?k x v = Some (True, w)"
    "block_added s F nd x w K (one_more_block ?nd)"
    using finish_add [OF v(3) n(1) nd(1) n0 nd(2) pos V insertI1 i(5,6) W x td] by blast
  have c: "(d = 0) \<longleftrightarrow> [-3] \<notin> used n" "(d mod 262144 = 0) \<longleftrightarrow> [?h, -3] \<notin> insert [-3] (used n)"
    "(?k = 0) \<longleftrightarrow> [?i, ?h, -3] \<notin> ?V"
    using used_triple_root [of n] used_triple_child [OF n(3)] used_triple_grandchild [OF n(3)] n(3)
    by (auto simp: nn)
  have pos_single: "0 < addr_at (disk_block v ?n) ?i"
    using v(5,6) growsD(1) [OF v(3)] data_block_valid by (auto simp: freelist_def)
  have m: "mounted t" "mounted u"
    using growsD(1) [OF t(3)] growsD(1) [OF u(3)] by (auto intro: freelist_mounted)
  note steps = t(1) [folded c, unfolded set_root_eqs] read_data_block_run [OF m(1) u(7)] u(1) [folded c]
    u(5) [symmetric] read_data_block_run [OF m(2) v(7)] v(1) [folded c] w(1) [unfolded v(5)]
  have "add_to_triple nd d x s = Some (True, one_more_block ?nd, w)"
    unfolding add_to_triple_def set_root_eqs
    using n(3) i pos_single by (simp add: steps run del: block_at.simps)
  then show ?thesis using w(2) by blast
qed

theorem add_datablock_run:
  assumes F: "freelist s F" "3 \<le> card F" and ok: "file_ok s F nd"
    and n: "i_blocks_num nd < MAX_FILE_BLOCKS" and d: "addable s F nd d"
  shows "\<exists>nd' t G. add_datablock_to_inode nd d s = Some (True, nd', t) \<and> block_added s F nd d t G nd'"
proof -
  define n where "n = i_blocks_num nd"
  have n0: "0 \<le> n" using ok by (simp add: file_ok_def n_def)
  consider "n < 12" | "12 \<le> n" "n < 524" | "524 \<le> n" "n < 262668" | "262668 \<le> n" by linarith
  then show ?thesis
  proof cases
    case 1
    then show ?thesis using add_to_direct_run [OF F(1) ok n_def [symmetric] _ d]
      by (simp add: add_datablock_to_inode_def n_def) blast
  next
    case 2
    then show ?thesis using add_to_single_run [OF F ok n_def [symmetric] _ _ d]
      by (simp add: add_datablock_to_inode_def n_def)
  next
    case 3
    then show ?thesis using add_to_double_run [OF F ok n_def [symmetric] refl _ _ d]
      by (simp add: add_datablock_to_inode_def n_def)
  next
    case 4
    then show ?thesis using add_to_triple_run [OF F ok n_def [symmetric] refl _ _ d] n
      by (simp add: add_datablock_to_inode_def n_def MAX_FILE_BLOCKS_def)
  qed
qed

section \<open>Looking a block up\<close>

text \<open>What a caller may pass as \<open>*prev_indirect_block\<close> when it asks for block \<open>l\<close>: nothing, or the
  indirect block right above \<open>l\<close>; it is not looked at for the blocks below 524 and for the first
  block under an indirect block.\<close>

definition prev_ok :: "altfs \<Rightarrow> inode \<Rightarrow> int \<Rightarrow> int \<Rightarrow> bool" where
  "prev_ok s nd l prev \<longleftrightarrow> prev = 0 \<or> l < 524 \<or> hd (pos_of l) = 0 \<or> prev = block_at s nd (tl (pos_of l))"

definition next_prev :: "altfs \<Rightarrow> inode \<Rightarrow> int \<Rightarrow> int \<Rightarrow> int" where
  "next_prev s nd l prev = (if l < 524 then prev else block_at s nd (tl (pos_of l)))"

lemma read_addr_run [run]:
  "mounted s \<Longrightarrow> data_block s n \<Longrightarrow> 0 \<le> i \<Longrightarrow> i < 512 \<Longrightarrow>
   read_addr n i s = Some (addr_at (disk_block s n) i)"
  by (simp add: read_addr_def run)

text \<open>Every indirect block on the way to a block of the file can be read.\<close>

lemma file_ok_index:
  assumes "mounted s" "file_ok s F nd" "0 \<le> l" "l < i_blocks_num nd" "q \<in> path (pos_of l)"
  shows "data_block s (block_at s nd q)" "0 < block_at s nd q"
proof -
  have "q \<in> used (i_blocks_num nd)" using assms pos_of_used by blast
  then show "data_block s (block_at s nd q)" using assms(2) by (auto simp: file_ok_def tree_ok_def)
  then show "0 < block_at s nd q" using data_block_valid [OF assms(1)] by blast
qed

lemma lookup_run:
  assumes m: "mounted s" and ok: "file_ok s F nd" and n: "i_blocks_num nd \<le> MAX_FILE_BLOCKS"
    and l: "0 \<le> l" "l < i_blocks_num nd" and prev: "prev_ok s nd l prev"
  shows "get_disk_block_from_inode_block nd l prev s = Some (file_block s nd l, next_prev s nd l prev)"
proof -
  note ix = file_ok_index [OF m ok l]
  have len: "length (i_direct_blocks nd) = 12" using ok by (simp add: file_ok_def)
  from l n have "l < MAX_FILE_BLOCKS" by simp
  with l(1) show ?thesis
  proof (cases rule: pos_of_cases)
    case direct
    then show ?thesis using l len
      by (simp add: get_disk_block_from_inode_block_def direct_get_def file_block_def next_prev_def root_at_def)
  next
    case single
    have "data_block s (i_single_indirect nd)" "0 < i_single_indirect nd"
      using ix [of "[-1]"] by (simp_all add: single(3) root_at_def)
    then show ?thesis using single l m
      by (simp add: get_disk_block_from_inode_block_def file_block_def next_prev_def root_at_def run)
  next
    case (double d)
    let ?i = "d div 512" and ?k = "d mod 512" and ?r = "i_double_indirect nd"
    let ?n = "addr_at (disk_block s ?r) ?i"
    have i: "0 \<le> ?i" "?i < 512" "0 \<le> ?k" "?k < 512" using double by auto
    have b: "block_at s nd [-2] = ?r" "block_at s nd [?i, -2] = ?n"
      "block_at s nd [?k, ?i, -2] = addr_at (disk_block s ?n) ?k" by (simp_all add: root_at_def)
    have r: "data_block s ?r" "0 < ?r" "data_block s ?n" "0 < ?n"
      using ix [of "[-2]"] ix [of "[?i, -2]"] by (simp_all add: double(4) root_at_def)
    have "get_disk_block_from_inode_block nd l prev s = get_double_indirect nd d prev s"
      using double l by (simp add: get_disk_block_from_inode_block_def)
    also have "\<dots> = Some (addr_at (disk_block s ?n) ?k, ?n)"
    proof (cases "?k \<noteq> 0 \<and> prev \<noteq> 0")
      case True
      then have "prev = ?n" using prev double by (auto simp: prev_ok_def root_at_def)
      then show ?thesis using True r i m double(2) unfolding get_double_indirect_def by (simp add: run)
    next
      case False
      then show ?thesis using r i m double(2) unfolding get_double_indirect_def
        by (simp add: run del: de_Morgan_conj)
    qed
    finally have res: "get_disk_block_from_inode_block nd l prev s = Some (addr_at (disk_block s ?n) ?k, ?n)" .
    have "\<not> l < 524" using double by simp
    then show ?thesis by (simp only: res file_block_def next_prev_def double(4) b if_False list.sel)
  next
    case (triple d)
    let ?h = "d div 262144" and ?i = "d div 512 mod 512" and ?k = "d mod 512" and ?r = "i_triple_indirect nd"
    let ?n = "addr_at (disk_block s ?r) ?h"
    let ?m = "addr_at (disk_block s ?n) ?i"
    have i: "0 \<le> ?h" "?h < 512" "0 \<le> ?i" "?i < 512" "0 \<le> ?k" "?k < 512" using triple by auto
    have b: "block_at s nd [?i, ?h, -3] = ?m"
      "block_at s nd [?k, ?i, ?h, -3] = addr_at (disk_block s ?m) ?k" by (simp_all add: root_at_def)
    have r: "data_block s ?r" "0 < ?r" "data_block s ?n" "0 < ?n" "data_block s ?m" "0 < ?m"
      using ix [of "[-3]"] ix [of "[?h, -3]"] ix [of "[?i, ?h, -3]"] by (simp_all add: triple(4) root_at_def)
    have cd: "c_div d NUM_OF_DOUBLE_INDIRECT_BLOCK_ADDR = ?h"
      "c_mod (c_div d NUM_OF_ADDRESSES_PER_BLOCK) NUM_OF_ADDRESSES_PER_BLOCK = ?i"
      "c_mod d NUM_OF_ADDRESSES_PER_BLOCK = ?k"
      using triple(2) by simp_all
    note ra = read_addr_run [OF m r(1) i(1,2)] read_addr_run [OF m r(3) i(3,4)] read_addr_run [OF m r(5) i(5,6)]
    have nz: "?r \<noteq> 0" "\<not> ?n \<le> 0" "\<not> ?m \<le> 0" using r by simp_all
    have "get_disk_block_from_inode_block nd l prev s = get_triple_indirect nd d prev s"
      using triple l by (simp add: get_disk_block_from_inode_block_def)
    also have "\<dots> = Some (addr_at (disk_block s ?m) ?k, ?m)"
    proof (cases "?k \<noteq> 0 \<and> prev \<noteq> 0")
      case True
      then have "prev = ?m" using prev triple by (auto simp: prev_ok_def root_at_def)
      then show ?thesis using True unfolding get_triple_indirect_def Let_def cd
        by (simp only: nz ra if_False if_cancel Option.bind.bind_lunit)
    next
      case False
      then show ?thesis unfolding get_triple_indirect_def Let_def cd
        by (simp only: nz ra if_False Option.bind.bind_lunit)
    qed
    finally have res: "get_disk_block_from_inode_block nd l prev s = Some (addr_at (disk_block s ?m) ?k, ?m)" .
    have "\<not> l < 524" using triple by simp
    then show ?thesis by (simp only: res file_block_def next_prev_def triple(4) b if_False list.sel)
  qed
qed

text \<open>A caller that reads the blocks in order passes the right value on.\<close>

lemma tl_pos_of_Suc:
  assumes "524 \<le> l" "l + 1 < MAX_FILE_BLOCKS" "hd (pos_of (l + 1)) \<noteq> 0"
  shows "tl (pos_of (l + 1)) = tl (pos_of l)"
proof (cases "l + 1 < 262668")
  case True
  then have "(l - 523) mod 512 \<noteq> 0" using assms by (simp add: pos_of_def algebra_simps)
  then have "(l - 523 - 1) div 512 = (l - 523) div 512" by (intro div_pred) auto
  then show ?thesis using True assms(1) by (simp add: pos_of_def algebra_simps)
next
  case False
  then have "(l - 262667) mod 512 \<noteq> 0" using assms by (simp add: pos_of_def algebra_simps)
  then have e: "(l - 262667 - 1) div 512 = (l - 262667) div 512" by (intro div_pred) auto
  have "l \<noteq> 262667" using \<open>(l - 262667) mod 512 \<noteq> 0\<close> by auto
  then show ?thesis using False e assms(1) by (simp add: pos_of_def algebra_simps div_262144)
qed

lemma prev_ok_next:
  assumes "0 \<le> l" "l + 1 < MAX_FILE_BLOCKS" "prev_ok s nd l prev" "l < 524 \<longrightarrow> prev = 0"
  shows "prev_ok s nd (l + 1) (next_prev s nd l prev)"
proof (cases "l < 524")
  case True
  then show ?thesis using assms(4) by (simp add: prev_ok_def next_prev_def)
next
  case False
  then show ?thesis
    using tl_pos_of_Suc [of l] assms(2) by (cases "hd (pos_of (l + 1)) = 0") (auto simp: prev_ok_def next_prev_def)
qed

end
