(* ===== verification/File_Release.thy ===== *)
theory File_Release
  imports File_Blocks
begin

text \<open>
  Releasing a file that was built by \<open>add_datablock_to_inode\<close>. The walk of the code over the
  addresses of the indirect blocks (\<open>tree_blocks\<close>) meets exactly the positions of the file
  (\<open>used\<close>), each once; so \<open>free_inode\<close> and the part of \<open>remove_datablocks_from_inode\<close> that cuts a
  file off within its direct blocks give back exactly the blocks of the file.
\<close>

section \<open>The walk over the positions\<close>

definition kids :: "pos set \<Rightarrow> pos \<Rightarrow> int list" where
  "kids U p = takeWhile (\<lambda>i. i # p \<in> U) [0..511]"

primrec pos_tree :: "pos set \<Rightarrow> nat \<Rightarrow> pos \<Rightarrow> pos list" where
  "pos_tree U 0 p = [p]"
| "pos_tree U (Suc k) p = concat (map (\<lambda>i. pos_tree U k (i # p)) (kids U p)) @ [p]"

text \<open>The positions of a file: paths of bounded length whose addresses are filled in order.\<close>

definition layered :: "pos set \<Rightarrow> bool" where
  "layered U \<longleftrightarrow> (\<forall>p \<in> U. p \<noteq> [] \<and> last p \<in> {-3..<12})
     \<and> (\<forall>i j p. i # j # p \<in> U \<longrightarrow> j # p \<in> U \<and> 0 \<le> i \<and> i < 512 \<and> 0 < level (j # p))
     \<and> (\<forall>i k j p. i # j # p \<in> U \<longrightarrow> 0 \<le> k \<longrightarrow> k < i \<longrightarrow> k # j # p \<in> U)"

lemma layeredD:
  assumes "layered U"
  shows "[] \<notin> U" "\<And>p. p \<in> U \<Longrightarrow> last p \<in> {-3..<12}"
    "\<And>i p. i # p \<in> U \<Longrightarrow> p \<noteq> [] \<Longrightarrow> p \<in> U"
    "\<And>i p. i # p \<in> U \<Longrightarrow> p \<noteq> [] \<Longrightarrow> 0 \<le> i \<and> i < 512 \<and> 0 < level p"
    "\<And>i k p. i # p \<in> U \<Longrightarrow> p \<noteq> [] \<Longrightarrow> 0 \<le> k \<Longrightarrow> k < i \<Longrightarrow> k # p \<in> U"
  using assms unfolding layered_def by (fast, fast, metis neq_Nil_conv, metis neq_Nil_conv, metis neq_Nil_conv)

lemma layered_below:
  assumes "layered U"
  shows "ys @ p \<in> U \<Longrightarrow> p \<noteq> [] \<Longrightarrow> p \<in> U"
proof (induction ys)
  case (Cons y ys)
  then show ?case using layeredD(3) [OF assms, of y "ys @ p"] by simp
qed simp

lemma level_Cons: "p \<noteq> [] \<Longrightarrow> level (i # p) = level p - 1"
  by (simp add: level_def)

lemma kids_iff:
  assumes "layered U" "p \<in> U"
  shows "i \<in> set (kids U p) \<longleftrightarrow> i # p \<in> U"
proof
  have ne: "p \<noteq> []" using assms layeredD(1) by auto
  assume i: "i # p \<in> U"
  then have b: "0 \<le> i" "i < 512" using layeredD(4) [OF assms(1) i ne] by auto
  have "\<forall>k \<in> set [0..i]. k # p \<in> U"
  proof
    fix k assume "k \<in> set [0..i]"
    then show "k # p \<in> U" using i layeredD(5) [OF assms(1) i ne, of k] by (cases "k = i") auto
  qed
  then have "takeWhile (\<lambda>i. i # p \<in> U) ([0..i] @ [i + 1..511]) = [0..i] @ takeWhile (\<lambda>i. i # p \<in> U) [i + 1..511]"
    by (intro takeWhile_append2) simp
  moreover have "[0..511] = [0..i] @ [i + 1..511]" using b by (intro upto_split2) auto
  ultimately show "i \<in> set (kids U p)" using b by (simp add: kids_def)
qed (auto simp: kids_def dest: set_takeWhileD)

lemma distinct_kids: "distinct (kids U p)"
  by (simp add: kids_def)

lemma set_pos_tree:
  assumes U: "layered U"
  shows "p \<in> U \<Longrightarrow> level p = k \<Longrightarrow> set (pos_tree U k p) = {q \<in> U. \<exists>xs. q = xs @ p}"
proof (induction k arbitrary: p)
  case 0
  have ne: "p \<noteq> []" using 0 layeredD(1) [OF U] by auto
  have "xs = []" if "xs @ p \<in> U" for xs
  proof (cases xs rule: rev_cases)
    case (snoc ys i)
    then have "i # p \<in> U" using layered_below [OF U, of ys "i # p"] that by simp
    then show ?thesis using layeredD(4) [OF U _ ne] 0 by auto
  qed simp
  then show ?case using 0 by auto
next
  case (Suc k)
  have ne: "p \<noteq> []" using Suc.prems layeredD(1) [OF U] by auto
  have IH: "set (pos_tree U k (i # p)) = {q \<in> U. \<exists>xs. q = xs @ i # p}" if "i # p \<in> U" for i
    using that Suc.prems ne by (intro Suc.IH) (simp_all add: level_Cons)
  note closed = layered_below [OF U, where p = "i # p" for i, simplified]
  have "q \<in> set (pos_tree U (Suc k) p) \<longleftrightarrow> q \<in> U \<and> (\<exists>xs. q = xs @ p)" for q
  proof
    assume "q \<in> set (pos_tree U (Suc k) p)"
    then show "q \<in> U \<and> (\<exists>xs. q = xs @ p)"
      using Suc.prems kids_iff [OF U Suc.prems(1)] IH by auto
  next
    assume q: "q \<in> U \<and> (\<exists>xs. q = xs @ p)"
    then obtain xs where xs: "q = xs @ p" by blast
    show "q \<in> set (pos_tree U (Suc k) p)"
    proof (cases xs rule: rev_cases)
      case (snoc ys i)
      then have "i # p \<in> U" using closed [of ys i] q xs by simp
      then show ?thesis using q xs snoc kids_iff [OF U Suc.prems(1)] IH by auto
    qed (simp add: xs)
  qed
  then show ?case by blast
qed

lemma distinct_pos_tree:
  assumes U: "layered U"
  shows "p \<in> U \<Longrightarrow> level p = k \<Longrightarrow> distinct (pos_tree U k p)"
proof (induction k arbitrary: p)
  case (Suc k)
  have ne: "p \<noteq> []" using Suc.prems layeredD(1) [OF U] by auto
  have kid: "i # p \<in> U" "level (i # p) = k" if "i \<in> set (kids U p)" for i
    using that kids_iff [OF U Suc.prems(1)] Suc.prems ne by (simp_all add: level_Cons)
  have set: "set (pos_tree U k (i # p)) = {q \<in> U. \<exists>xs. q = xs @ i # p}" if "i \<in> set (kids U p)" for i
    using kid [OF that] by (rule set_pos_tree [OF U])
  have "distinct (concat (map (\<lambda>i. pos_tree U k (i # p)) (kids U p)))"
  proof (rule distinct_concat)
    have "inj_on (\<lambda>i. pos_tree U k (i # p)) (set (kids U p))"
    proof (rule inj_onI)
      fix i j assume ij: "i \<in> set (kids U p)" "j \<in> set (kids U p)" "pos_tree U k (i # p) = pos_tree U k (j # p)"
      then have "i # p \<in> set (pos_tree U k (j # p))" using set [OF ij(1)] kid(1) [OF ij(1)] by auto
      then obtain xs where "i # p = xs @ j # p" using set [OF ij(2)] by auto
      then show "i = j" by (cases xs) auto
    qed
    then show "distinct (map (\<lambda>i. pos_tree U k (i # p)) (kids U p))"
      by (simp add: distinct_map distinct_kids)
  next
    fix ys assume "ys \<in> set (map (\<lambda>i. pos_tree U k (i # p)) (kids U p))"
    then show "distinct ys" using kid Suc.IH by auto
  next
    fix ys zs
    assume "ys \<in> set (map (\<lambda>i. pos_tree U k (i # p)) (kids U p))"
      "zs \<in> set (map (\<lambda>i. pos_tree U k (i # p)) (kids U p))" "ys \<noteq> zs"
    then obtain i j where ij: "i \<in> set (kids U p)" "j \<in> set (kids U p)" "ys = pos_tree U k (i # p)"
      "zs = pos_tree U k (j # p)" "i \<noteq> j" by auto
    then show "set ys \<inter> set zs = {}" using set by auto
  qed
  moreover have "p \<notin> set (pos_tree U k (i # p))" if "i \<in> set (kids U p)" for i
    using set [OF that] by auto
  ultimately show ?case by auto
qed simp

text \<open>The walk of the code over the disk follows these positions.\<close>

lemma tree_blocks_pos_tree:
  assumes m: "mounted s" and ok: "tree_ok s F nd U" "tidy s nd U" and U: "layered U"
  shows "p \<in> U \<Longrightarrow> level p = k \<Longrightarrow>
    tree_blocks s k (block_at s nd p) = map (block_at s nd) (pos_tree U k p)"
proof (induction k arbitrary: p)
  case (Suc k)
  obtain j q where p: "p = j # q" using Suc.prems layeredD(1) [OF U] by (cases p) auto
  have cell: "addr_at (disk_block s (block_at s nd p)) i = block_at s nd (i # p)" for i by (simp add: p)
  have nz: "addr_at (disk_block s (block_at s nd p)) i \<noteq> 0 \<longleftrightarrow> i # p \<in> U" if "i \<in> set [0..511]" for i
  proof
    assume "i # p \<in> U"
    then show "addr_at (disk_block s (block_at s nd p)) i \<noteq> 0"
      using tree_ok_facts(1) [OF ok(1)] data_block_valid [OF m] cell by fastforce
  next
    assume "addr_at (disk_block s (block_at s nd p)) i \<noteq> 0"
    moreover have "addr_at (disk_block s (block_at s nd p)) i = 0" if "i # p \<notin> U"
      using that \<open>i \<in> set [0..511]\<close> ok(2) Suc.prems by (simp add: tidy_def)
    ultimately show "i # p \<in> U" by blast
  qed
  have "children s (block_at s nd p) = map (\<lambda>i. block_at s nd (i # p)) (kids U p)"
    unfolding children_def kids_def takeWhile_map comp_def cell [symmetric]
    by (rule arg_cong [where f = "map _"], rule takeWhile_cong [OF refl]) (use nz in simp)
  moreover have "tree_blocks s k (block_at s nd (i # p)) = map (block_at s nd) (pos_tree U k (i # p))"
    if "i \<in> set (kids U p)" for i
    using that kids_iff [OF U Suc.prems(1)] Suc.prems p by (intro Suc.IH) (simp_all add: level_Cons)
  ultimately show ?case by (simp add: map_concat comp_def cong: map_cong)
qed simp

section \<open>The positions of a whole file\<close>

lemma file_ok_max:
  assumes "file_ok s F nd"
  shows "i_blocks_num nd \<le> MAX_FILE_BLOCKS"
proof (rule ccontr)
  assume "\<not> i_blocks_num nd \<le> MAX_FILE_BLOCKS"
  then have "path (pos_of MAX_FILE_BLOCKS) \<subseteq> used (i_blocks_num nd)"
    by (intro pos_of_used) (simp_all add: MAX_FILE_BLOCKS_def)
  moreover have "[512, -3] \<in> path (pos_of MAX_FILE_BLOCKS)" by (simp add: pos_of_def MAX_FILE_BLOCKS_def)
  ultimately have "[512, -3] \<in> used (i_blocks_num nd)" by blast
  then have "(512 :: int) < 512" using assms unfolding file_ok_def tree_ok_def by blast
  then show False by simp
qed

lemma used_cons:
  assumes "i # j # p \<in> used n" "n \<le> MAX_FILE_BLOCKS"
  shows "j # p \<in> used n" "0 \<le> i \<and> i < 512" "0 < level (j # p)"
proof -
  obtain l where l: "0 \<le> l" "l < n" "i # j # p \<in> path (pos_of l)" using assms(1) by (rule used_cases)
  then have "j # p \<in> path (pos_of l)" by (auto elim!: path_cases simp: pos_of_def)
  then show "j # p \<in> used n" using pos_of_used l by blast
  show "0 < level (j # p)" using l(3,1) by (auto elim!: path_cases simp: level_def)
  show "0 \<le> i \<and> i < 512" using l assms(2) by (auto elim!: path_cases simp: MAX_FILE_BLOCKS_def)
qed

lemma divmod_sub:
  fixes d k e :: int
  assumes "0 \<le> k" "k < d mod e" "0 < e"
  shows "(d - (d mod e - k)) mod e = k" "(d - (d mod e - k)) div e = d div e"
proof -
  have d: "d - (d mod e - k) = e * (d div e) + k" using mult_div_mod_eq [of e d] by linarith
  have k: "k < e" using assms pos_mod_bound [of e d] by linarith
  show "(d - (d mod e - k)) mod e = k" unfolding d using assms k by simp
  show "(d - (d mod e - k)) div e = d div e" unfolding d using assms k by simp
qed

lemma mult_le_of_div:
  fixes d e k :: int
  assumes "k < d div e" "0 < e"
  shows "e * (k + 1) \<le> d"
proof -
  have "e * (k + 1) \<le> e * (d div e)" using assms by (intro mult_left_mono) auto
  then show ?thesis using mult_div_mod_eq [of e d] pos_mod_sign [of e d] assms(2) by linarith
qed

lemma path_double:
  "0 \<le> d \<Longrightarrow> d < 262144 \<Longrightarrow>
   path (pos_of (d + 524)) = {[d mod 512, d div 512, -2], [d div 512, -2], [-2]}"
  by (simp add: pos_of_def)

lemma path_triple:
  "0 \<le> d \<Longrightarrow> path (pos_of (d + 262668)) =
   {[d mod 512, d div 512 mod 512, d div 262144, -3], [d div 512 mod 512, d div 262144, -3],
    [d div 262144, -3], [-3]}"
  by (simp add: pos_of_def)

text \<open>A logical block whose path goes through the sibling \<open>k\<close>.\<close>

lemma path_sibling:
  assumes l: "0 \<le> l" "i # j # p \<in> path (pos_of l)" and k: "0 \<le> k" "k < i"
  shows "\<exists>m. 0 \<le> m \<and> m \<le> l \<and> k # j # p \<in> path (pos_of m)"
  using l(2,1)
proof (cases rule: path_cases)
  case 2
  then show ?thesis using k by (intro exI [of _ "k + 12"]) (auto simp: pos_of_def)
next
  case 3
  let ?d = "l - 524"
  consider (leaf) "i = ?d mod 512" "j = ?d div 512" "p = [-2]" | (mid) "i = ?d div 512" "j = -2" "p = []"
    using 3 by auto
  then show ?thesis
  proof cases
    case leaf
    define m where "m = ?d - (?d mod 512 - k)"
    have m: "m mod 512 = k" "m div 512 = ?d div 512"
      using divmod_sub [of k ?d 512] leaf(1) k unfolding m_def by auto
    have "0 \<le> ?d div 512" using 3 by simp
    then have r: "0 \<le> m" "m \<le> ?d"
      using leaf(1) k m(2) by (simp_all add: m_def [symmetric] pos_imp_zdiv_nonneg_iff [symmetric, of 512 m]) (simp add: m_def)
    then have "k # j # p \<in> path (pos_of (m + 524))"
      using 3 leaf(2,3) by (subst path_double) (simp_all add: m)
    then show ?thesis using r by (intro exI [of _ "m + 524"]) simp
  next
    case mid
    have "512 * (k + 1) \<le> ?d" using mid(1) k(2) by (intro mult_le_of_div) auto
    then show ?thesis using k 3 mid by (intro exI [of _ "524 + 512 * k"]) (auto simp: pos_of_def)
  qed
next
  case 4
  let ?d = "l - 262668"
  consider (leaf) "i = ?d mod 512" "j = ?d div 512 mod 512" "p = [?d div 262144, -3]"
    | (mid) "i = ?d div 512 mod 512" "j = ?d div 262144" "p = [-3]"
    | (top) "i = ?d div 262144" "j = -3" "p = []"
    using 4 by auto
  then show ?thesis
  proof cases
    case leaf
    define m where "m = ?d - (?d mod 512 - k)"
    have m: "m mod 512 = k" "m div 512 = ?d div 512"
      using divmod_sub [of k ?d 512] leaf(1) k unfolding m_def by auto
    have "0 \<le> ?d div 512" using 4 by simp
    then have r: "0 \<le> m" "m \<le> ?d"
      using leaf(1) k m(2) by (simp_all add: m_def [symmetric] pos_imp_zdiv_nonneg_iff [symmetric, of 512 m]) (simp add: m_def)
    then have "k # j # p \<in> path (pos_of (m + 262668))"
      using leaf(2,3) by (subst path_triple) (simp_all add: m div_262144)
    then show ?thesis using r by (intro exI [of _ "m + 262668"]) simp
  next
    case mid
    define e f where "e = ?d div 512" and "f = e - (e mod 512 - k)"
    have f: "f mod 512 = k" "f div 512 = e div 512"
      using divmod_sub [of k e 512] mid(1) k unfolding f_def e_def by auto
    have e: "0 \<le> e" "512 * e \<le> ?d" "e div 512 = ?d div 262144"
      using 4 by (simp_all add: e_def div_262144)
    then have "0 \<le> e div 512" by simp
    then have r: "0 \<le> f" "f \<le> e"
      using mid(1) k f(2) by (simp_all add: e_def [symmetric] pos_imp_zdiv_nonneg_iff [symmetric, of 512 f]) (simp add: f_def)
    have "k # j # p \<in> path (pos_of (512 * f + 262668))"
      using r mid(2,3) f e(3) by (subst path_triple) (simp_all add: div_262144)
    then show ?thesis using r e by (intro exI [of _ "512 * f + 262668"]) auto
  next
    case top
    have "262144 * (k + 1) \<le> ?d" using top(1) k(2) by (intro mult_le_of_div) auto
    then show ?thesis using k 4 top by (intro exI [of _ "262668 + 262144 * k"]) (auto simp: pos_of_def)
  qed
qed auto

lemma layered_used:
  assumes "0 \<le> n" "n \<le> MAX_FILE_BLOCKS"
  shows "layered (used n)"
  unfolding layered_def
proof (intro conjI allI impI ballI)
  fix p assume p: "p \<in> used n"
  then show "p \<noteq> []" by (auto elim!: used_cases path_cases)
  show "last p \<in> {-3..<12}" using p last_used [OF assms(1)] by auto
next
  fix i k j p assume "i # j # p \<in> used n" "0 \<le> k" "k < i"
  then obtain l m where "0 \<le> l" "l < n" "0 \<le> m" "m \<le> l" "k # j # p \<in> path (pos_of m)"
    using path_sibling by (metis used_cases)
  then show "k # j # p \<in> used n" using pos_of_used [of m n] by auto
qed (use used_cons assms(2) in auto)

text \<open>The walk of \<open>free_data_blocks_in_inode\<close>: the direct blocks, then the three trees.\<close>

definition tree_positions :: "pos set \<Rightarrow> int \<Rightarrow> pos list" where
  "tree_positions U r = (if [r] \<in> U then pos_tree U (nat (- r)) [r] else [])"

definition file_positions :: "pos set \<Rightarrow> pos list" where
  "file_positions U = map (\<lambda>i. [i]) (takeWhile (\<lambda>i. [i] \<in> U) [0..11])
     @ tree_positions U (-1) @ tree_positions U (-2) @ tree_positions U (-3)"

lemma tree_if_positions:
  assumes m: "mounted s" and ok: "tree_ok s F nd U" "tidy s nd U" and U: "layered U"
    and r: "r \<in> {-3..<0}"
  shows "tree_if s (nat (- r)) (root_at nd r) = map (block_at s nd) (tree_positions U r)"
proof (cases "[r] \<in> U")
  case True
  have "level [r] = nat (- r)" using r by (simp add: level_def)
  then have "tree_blocks s (nat (- r)) (block_at s nd [r]) = map (block_at s nd) (pos_tree U (nat (- r)) [r])"
    using tree_blocks_pos_tree [OF m ok U True] by simp
  moreover have "root_at nd r \<noteq> 0"
    using tree_ok_facts(1) [OF ok(1) True] data_block_valid [OF m, of "root_at nd r"] by auto
  ultimately show ?thesis using True by (simp add: tree_if_def tree_positions_def)
next
  case False
  then have "root_at nd r = 0" using ok(2) r by (simp add: tidy_def)
  then show ?thesis using False by (simp add: tree_if_def tree_positions_def)
qed

lemma direct_list_positions:
  assumes m: "mounted s" and ok: "tree_ok s F nd U" "tidy s nd U" and len: "length (i_direct_blocks nd) = 12"
  shows "direct_list nd = map (\<lambda>i. root_at nd i) (takeWhile (\<lambda>i. [i] \<in> U) [0..11])"
proof -
  have "i_direct_blocks nd = map (\<lambda>i. root_at nd i) [0..11]"
    by (rule nth_equalityI) (simp_all add: len root_at_def nth_upto)
  then have "direct_list nd = map (\<lambda>i. root_at nd i) (takeWhile (\<lambda>i. root_at nd i \<noteq> 0) [0..11])"
    by (simp add: direct_list_def takeWhile_map comp_def)
  also have "takeWhile (\<lambda>i. root_at nd i \<noteq> 0) [0..11] = takeWhile (\<lambda>i. [i] \<in> U) [0..11]"
  proof (rule takeWhile_cong [OF refl])
    fix i assume i: "i \<in> set [0..11 :: int]"
    show "(root_at nd i \<noteq> 0) = ([i] \<in> U)"
    proof
      assume "[i] \<in> U"
      then show "root_at nd i \<noteq> 0"
        using tree_ok_facts(1) [OF ok(1)] data_block_valid [OF m, of "root_at nd i"] by fastforce
    next
      assume "root_at nd i \<noteq> 0"
      moreover have "root_at nd i = 0" if "[i] \<notin> U" using that i ok(2) by (simp add: tidy_def)
      ultimately show "[i] \<in> U" by blast
    qed
  qed
  finally show ?thesis .
qed

lemma inode_blocks_positions:
  assumes m: "mounted s" and ok: "tree_ok s F nd U" "tidy s nd U" and U: "layered U"
    and len: "length (i_direct_blocks nd) = 12"
  shows "inode_blocks s nd = map (block_at s nd) (file_positions U)"
proof -
  note t = tree_if_positions [OF m ok U]
  show ?thesis
    using t [of "-1"] t [of "-2"] t [of "-3"] direct_list_positions [OF m ok len]
    by (simp add: inode_blocks_def file_positions_def root_at_def comp_def)
qed

lemma takeWhile_direct:
  assumes "0 \<le> n"
  shows "takeWhile (\<lambda>i. [i] \<in> used n) [0..11] = [0..min n 12 - 1]"
proof -
  have "[0..11] = [0..min n 12 - 1] @ [min n 12..11]"
    using upto_split1 [of 0 "min n 12" 11] assms by (cases "n < 12") auto
  moreover have "takeWhile (\<lambda>i. [i] \<in> used n) [min n 12..11] = []"
    by (cases "n < 12") (simp_all add: upto.simps [of n] used_direct assms)
  moreover have "takeWhile (\<lambda>i. [i] \<in> used n) ([0..min n 12 - 1] @ [min n 12..11])
      = [0..min n 12 - 1] @ takeWhile (\<lambda>i. [i] \<in> used n) [min n 12..11]"
    by (rule takeWhile_append2) (simp add: used_direct)
  ultimately show ?thesis by (simp only: append_Nil2)
qed

lemma file_positions_used:
  assumes n: "0 \<le> n" "n \<le> MAX_FILE_BLOCKS"
  defines "U \<equiv> used n"
  shows "set (file_positions U) = U" "distinct (file_positions U)"
proof -
  have U: "layered U" unfolding U_def using n by (rule layered_used)
  note direct = takeWhile_direct [OF n(1), folded U_def]
  have tree: "set (tree_positions U r) = {q \<in> U. last q = r}" "distinct (tree_positions U r)" if "r \<in> {-3..<0}" for r
  proof -
    have l: "level [r] = nat (- r)" using that by (simp add: level_def)
    have "[r] \<in> U" if "q \<in> U" "last q = r" for q
    proof -
      have "q \<noteq> []" using that layeredD(1) [OF U] by auto
      then have "q = butlast q @ [r]" using that by (metis append_butlast_last_id)
      then show ?thesis using layered_below [OF U, of "butlast q" "[r]"] that by simp
    qed
    moreover have "(\<exists>xs. q = xs @ [r]) \<longleftrightarrow> last q = r" if "q \<in> U" for q
      using that layeredD(1) [OF U] by (metis append_butlast_last_id last_snoc)
    ultimately show "set (tree_positions U r) = {q \<in> U. last q = r}"
      using set_pos_tree [OF U _ l] by (auto simp: tree_positions_def)
    show "distinct (tree_positions U r)"
      using distinct_pos_tree [OF U _ l] by (simp add: tree_positions_def)
  qed
  have top: "q = [last q]" if q: "q \<in> U" "0 \<le> last q" for q
  proof -
    obtain l where "0 \<le> l" "l < n" "q \<in> path (pos_of l)" using q(1) unfolding U_def by (rule used_cases)
    then show ?thesis using q(2) by (auto elim!: path_cases)
  qed
  have "q \<in> set (file_positions U) \<longleftrightarrow> q \<in> U" for q
  proof
    assume "q \<in> set (file_positions U)"
    then show "q \<in> U" by (auto simp: file_positions_def tree dest: set_takeWhileD)
  next
    assume q: "q \<in> U"
    then have "last q \<in> {-3..<12}" using layeredD(2) [OF U] by blast
    then consider "last q = -1" | "last q = -2" | "last q = -3" | "0 \<le> last q" by force
    then show "q \<in> set (file_positions U)"
    proof cases
      case 4
      then have "q = [last q]" using top q by blast
      then obtain i where i: "q = [i]" "0 \<le> i" using 4 by (metis last.simps)
      then have "i < n" "i < 12" using q by (simp_all add: U_def used_direct)
      then show ?thesis using i by (simp add: file_positions_def direct)
    qed (use q in \<open>simp_all add: file_positions_def tree\<close>)
  qed
  then show "set (file_positions U) = U" by blast
  show "distinct (file_positions U)"
    using tree by (auto simp: file_positions_def direct distinct_map inj_on_def)
qed

text \<open>The blocks of a file can be released, and they are all that it has.\<close>

lemma file_ok_releasable:
  assumes F: "freelist s F" and ok: "file_ok s F nd"
  shows "releasable s F (inode_blocks s nd)"
    "set (inode_blocks s nd) = block_at s nd ` used (i_blocks_num nd)"
proof -
  let ?U = "used (i_blocks_num nd)"
  have U: "0 \<le> i_blocks_num nd" "tree_ok s F nd ?U" "tidy s nd ?U" "length (i_direct_blocks nd) = 12"
    using ok by (auto simp: file_ok_def)
  note n = U(1) file_ok_max [OF ok]
  have eq: "inode_blocks s nd = map (block_at s nd) (file_positions ?U)"
    by (rule inode_blocks_positions [OF freelist_mounted [OF F] U(2,3) layered_used [OF n] U(4)])
  show "set (inode_blocks s nd) = block_at s nd ` ?U"
    using eq file_positions_used(1) [OF n] by simp
  have "inj_on (block_at s nd) ?U" using U(2) by (simp add: tree_ok_def)
  then show "releasable s F (inode_blocks s nd)"
    using tree_ok_facts [OF U(2)] file_positions_used [OF n] unfolding eq releasable_def
    by (auto simp: distinct_map)
qed

section \<open>Cutting a file off within its direct blocks\<close>

lemma remove_utility_step:
  "remove_datablocks_utility (Suc n) b s =
     (if b \<le> 0 then Some (False, s)
      else do {
        p \<leftarrow> read_data_block b s;
        buffer \<leftarrow> p;
        c \<leftarrow> release_loop (\<lambda>a s. do {
            (_, s) \<leftarrow> (if n = 0 then free_data_block a s else remove_datablocks_utility n a s);
            Some (Next s :: (altfs, unit) ctl)
          }) buffer s;
        let (_, s) = finish () c;
        (_, s) \<leftarrow> free_data_block b s;
        Some (True, s)
      })"
  by (simp add: release_loop_def cong: if_cong)

declare remove_datablocks_utility.simps [simp del]

lemma remove_utility_run:
  assumes "freelist s F" "F \<noteq> {}" "releasable s F (tree_blocks s (Suc n) b)"
  shows "\<exists>t. remove_datablocks_utility (Suc n) b s = Some (True, t) \<and> freed s F (tree_blocks s (Suc n) b) t"
proof -
  have gen: "\<exists>t. remove_datablocks_utility (Suc n) b s = Some (True, t) \<and> freed s F (tree_blocks s (Suc n) b) t"
    if F: "freelist s F" "F \<noteq> {}" and rel: "releasable s F (tree_blocks s (Suc n) b)"
      and step: "\<And>c u G. freelist u G \<Longrightarrow> G \<noteq> {} \<Longrightarrow> releasable u G (tree_blocks u n c) \<Longrightarrow>
         \<exists>t. (if n = 0 then free_data_block c u else remove_datablocks_utility n c u) = Some (True, t)
           \<and> freed u G (tree_blocks u n c) t"
    for n b s F
  proof -
    let ?xs = "concat (map (tree_blocks s n) (children s b))"
    let ?f = "\<lambda>a s. do {
            (_, s) \<leftarrow> (if n = 0 then free_data_block a s else remove_datablocks_utility n a s);
            Some (Next s :: (altfs, unit) ctl)
          }"
    from rel have r: "releasable s F ?xs" "releasable s (F \<union> set ?xs) [b]"
      by (simp_all only: tree_blocks.simps releasable_append)
    have f: "\<exists>t. ?f c u = Some (Next t) \<and> freed u G (tree_blocks u n c) t"
      if "freelist u G" "G \<noteq> {}" "releasable u G (tree_blocks u n c)" for c u G
      using step [OF that] by force
    obtain t where t: "release_loop ?f (disk_block s b) s = Some (Next t)" "freed s F ?xs t"
      using release_loop_run [OF F r(1) f] by blast
    obtain u where u: "free_data_block b t = Some (True, u)" "freed t (F \<union> set ?xs) [b] u"
      using free_data_block_freed [of t "F \<union> set ?xs" b] freed_freelist [OF t(2)] F(2) r(2)
        releasable_cong [OF t(2)] by auto
    have b: "data_block s b" "0 < b" "mounted s"
      using r(2) F(1) data_block_valid [of s b] by (auto simp: releasable_def freelist_def)
    have "remove_datablocks_utility (Suc n) b s = Some (True, u)"
      unfolding remove_utility_step using b
      by (simp only: read_data_block_run t(1) u(1) Option.bind.bind_lunit finish.simps Let_def prod.case) simp
    then show ?thesis using freed_trans [OF t(2) u(2)] by simp
  qed
  show ?thesis using assms
  proof (induction n arbitrary: b s F)
    case 0
    show ?case by (rule gen [OF 0]) (use free_data_block_freed in auto)
  next
    case (Suc n)
    show ?case by (rule gen [OF Suc.prems]) (use Suc.IH in auto)
  qed
qed

lemma remove_tree:
  assumes st: "freed s F xs t" and s: "freelist s F" "F \<noteq> {}"
    and rel: "releasable s F (xs @ tree_blocks s (Suc n) b)"
  shows "\<exists>u. remove_datablocks_utility (Suc n) b t = Some (True, u) \<and> freed s F (xs @ tree_blocks s (Suc n) b) u"
proof -
  have rel': "releasable s (F \<union> set xs) (tree_blocks s (Suc n) b)"
    using rel by (simp only: releasable_append)
  have T: "tree_blocks t (Suc n) b = tree_blocks s (Suc n) b" by (rule freed_tree [OF st rel' s(1)])
  obtain u where "remove_datablocks_utility (Suc n) b t = Some (True, u)"
    "freed t (F \<union> set xs) (tree_blocks s (Suc n) b) u"
    using remove_utility_run [OF freed_freelist [OF st], of n b] s(2) rel' releasable_cong [OF st]
    unfolding T by auto
  then show ?thesis using freed_trans [OF st] by blast
qed

definition zero_direct :: "int \<Rightarrow> int \<Rightarrow> inode \<Rightarrow> inode" where
  "zero_direct l i nd = nd\<lparr>i_direct_blocks :=
     map (\<lambda>k. if l \<le> k \<and> k < i then 0 else root_at nd k) [0..11]\<rparr>"

lemma zero_direct_step:
  assumes "length (i_direct_blocks nd) = 12" "0 \<le> l" "l \<le> i" "i < 12"
  shows "direct_get (zero_direct l i nd) i = Some (root_at nd i)"
    "direct_set (zero_direct l i nd) i 0 = Some (zero_direct l (i + 1) nd)"
proof -
  show "direct_get (zero_direct l i nd) i = Some (root_at nd i)"
    using assms by (simp add: direct_get_def zero_direct_def nth_upto)
  have "(map (\<lambda>k. if l \<le> k \<and> k < i then 0 else root_at nd k) [0..11])[nat i := 0]
      = map (\<lambda>k. if l \<le> k \<and> k < i + 1 then 0 else root_at nd k) [0..11]"
    using assms by (intro nth_equalityI) (auto simp: nth_list_update nth_upto)
  then show "direct_set (zero_direct l i nd) i 0 = Some (zero_direct l (i + 1) nd)"
    using assms by (simp add: direct_set_def zero_direct_def)
qed

lemma zero_direct_start: "length (i_direct_blocks nd) = 12 \<Longrightarrow> zero_direct l l nd = nd"
proof -
  assume len: "length (i_direct_blocks nd) = 12"
  have "map (root_at nd) [0..11] = i_direct_blocks nd"
    by (rule nth_equalityI) (simp_all add: len root_at_def nth_upto)
  moreover have "(\<lambda>k. if l \<le> k \<and> k < l then 0 else root_at nd k) = root_at nd" by auto
  ultimately show ?thesis by (simp add: zero_direct_def)
qed

lemma free_direct_range_run:
  assumes F: "freelist s F" "F \<noteq> {}" and len: "length (i_direct_blocks nd) = 12"
    and l: "0 \<le> l" "l \<le> m" "m = min 12 n" and rel: "releasable s F (map (root_at nd) [l..m - 1])"
  shows "\<exists>t. free_direct_range l n nd s = Some (Next (zero_direct l m nd, t))
    \<and> freed s F (map (root_at nd) [l..m - 1]) t"
proof -
  define I where "I = (\<lambda>i (x :: inode \<times> altfs). fst x = zero_direct l i nd
    \<and> freed s F (map (root_at nd) [l..i - 1]) (snd x))"
  define body where "body = (\<lambda>i (node, s). do {
          n \<leftarrow> direct_get node i;
          (ok, s) \<leftarrow> free_data_block n s;
          if \<not> ok then Some (Return False (node, s))
          else do {
            node \<leftarrow> direct_set node i 0;
            Some (Next (node, s) :: (inode \<times> altfs, bool) ctl)
          }
        })"
  have "\<exists>x. for_loop l m body (nd, s) = Some (Next x) \<and> I m x"
  proof (rule for_loop_all)
    show "I l (nd, s)" using freed_refl [OF F(1)] by (simp add: I_def zero_direct_start [OF len])
    fix i x assume i: "l \<le> i" "i < m" and I: "I i x"
    obtain t where x: "x = (zero_direct l i nd, t)" and fr: "freed s F (map (root_at nd) [l..i - 1]) t"
      using I by (cases x) (auto simp: I_def)
    have split: "[l..m - 1] = [l..i - 1] @ i # [i + 1..m - 1]" using i by (intro upto_split3) auto
    have "releasable s (F \<union> set (map (root_at nd) [l..i - 1])) (root_at nd i # map (root_at nd) [i + 1..m - 1])"
      using rel unfolding split map_append list.map releasable_append by blast
    then have "releasable s (F \<union> set (map (root_at nd) [l..i - 1])) [root_at nd i]"
      by (simp add: releasable_def)
    then obtain u where u: "free_data_block (root_at nd i) t = Some (True, u)"
      "freed t (F \<union> set (map (root_at nd) [l..i - 1])) [root_at nd i] u"
      using free_data_block_freed [of t "F \<union> set (map (root_at nd) [l..i - 1])" "root_at nd i"] freed_freelist [OF fr] F(2)
        releasable_cong [OF fr] by auto
    have "[l..i] = [l..i - 1] @ [i]" using i by (simp add: upto_rec2)
    then have "I (i + 1) (zero_direct l (i + 1) nd, u)"
      using freed_trans [OF fr u(2)] by (simp add: I_def)
    moreover have "body i x = Some (Next (zero_direct l (i + 1) nd, u))"
      using zero_direct_step [OF len l(1) i(1)] i l(3) u(1) by (simp add: body_def x)
    ultimately show "\<exists>x'. body i x = Some (Next x') \<and> I (i + 1) x'" by blast
  qed (use l in auto)
  then obtain x where "for_loop l m body (nd, s) = Some (Next x)" "I m x" by blast
  then show ?thesis
    unfolding free_direct_range_def body_def [symmetric]
    by (intro exI [of _ "snd x"]) (simp add: I_def l(3) prod_eq_iff)
qed

text \<open>The inode after everything from block \<open>l\<close> on is gone.\<close>

definition emptied :: "int \<Rightarrow> inode \<Rightarrow> inode" where
  "emptied l nd = cut_at l ((zero_direct l 12 nd)
     \<lparr>i_single_indirect := 0, i_double_indirect := 0, i_triple_indirect := 0\<rparr>)"

lemma zero_direct_max:
  assumes "tidy s nd (used n)" "0 \<le> l"
  shows "zero_direct l (min 12 n) nd = zero_direct l 12 nd"
proof -
  have "root_at nd k = 0" if "k \<in> set [0..11]" "\<not> k < n" for k
    using assms(1) that by (simp add: tidy_def used_direct)
  then have "map (\<lambda>k. if l \<le> k \<and> k < min 12 n then 0 else root_at nd k) [0..11]
      = map (\<lambda>k. if l \<le> k \<and> k < 12 then 0 else root_at nd k) [0..11]"
    by (intro map_cong) auto
  then show ?thesis by (simp only: zero_direct_def)
qed

lemma zero_direct_fields [simp]:
  "i_blocks_num (zero_direct l i nd) = i_blocks_num nd"
  "i_single_indirect (zero_direct l i nd) = i_single_indirect nd"
  "i_double_indirect (zero_direct l i nd) = i_double_indirect nd"
  "i_triple_indirect (zero_direct l i nd) = i_triple_indirect nd"
  by (simp_all add: zero_direct_def)

lemma inode_same_fields:
  "i_single_indirect nd = 0 \<Longrightarrow> nd\<lparr>i_single_indirect := 0\<rparr> = nd"
  "i_double_indirect nd = 0 \<Longrightarrow> nd\<lparr>i_double_indirect := 0\<rparr> = nd"
  "i_triple_indirect nd = 0 \<Longrightarrow> nd\<lparr>i_triple_indirect := 0\<rparr> = nd"
  by simp_all

text \<open>The blocks \<open>remove_datablocks_from_inode\<close> frees when it starts at a direct block.\<close>

definition blocks_from :: "altfs \<Rightarrow> int \<Rightarrow> inode \<Rightarrow> int list" where
  "blocks_from s l nd = map (root_at nd) [l..min 12 (i_blocks_num nd) - 1]
     @ tree_if s 1 (i_single_indirect nd) @ tree_if s 2 (i_double_indirect nd) @ tree_if s 3 (i_triple_indirect nd)"

lemma remove_from_direct_run:
  assumes F: "freelist s F" "F \<noteq> {}" and ok: "file_ok s F nd"
    and l: "0 \<le> l" "l \<le> 12" "l < i_blocks_num nd" and rel: "releasable s F (blocks_from s l nd)"
  shows "\<exists>t. remove_from_direct l nd s = Some (True, emptied l nd, t) \<and> freed s F (blocks_from s l nd) t"
proof -
  define n where "n = i_blocks_num nd"
  define m where "m = min 12 n"
  have U: "tidy s nd (used n)" "tree_ok s F nd (used n)" and len: "length (i_direct_blocks nd) = 12"
    using ok by (simp_all add: file_ok_def n_def)
  have roots: "i_single_indirect nd = 0 \<longleftrightarrow> n \<le> 12" "i_double_indirect nd = 0 \<longleftrightarrow> n \<le> 524"
    "i_triple_indirect nd = 0 \<longleftrightarrow> n \<le> 262668"
  proof -
    have z: "root_at nd r = 0 \<longleftrightarrow> [r] \<notin> used n" if "r \<in> {-3..<0}" for r
      using that U(1) tree_ok_facts(1) [OF U(2), of "[r]"] data_block_valid [OF freelist_mounted [OF F(1)], of 0]
      by (auto simp: tidy_def)
    show "i_single_indirect nd = 0 \<longleftrightarrow> n \<le> 12" "i_double_indirect nd = 0 \<longleftrightarrow> n \<le> 524"
      "i_triple_indirect nd = 0 \<longleftrightarrow> n \<le> 262668"
      using z [of "-1"] z [of "-2"] z [of "-3"] used_single_root [of n] used_double_root [of n] used_triple_root [of n]
      by (auto simp: root_at_def)
  qed
  let ?a = "map (root_at nd) [l..m - 1]" and ?b = "tree_if s (Suc 0) (i_single_indirect nd)"
    and ?c = "tree_if s (Suc 1) (i_double_indirect nd)" and ?d = "tree_if s (Suc 2) (i_triple_indirect nd)"
  have eq: "blocks_from s l nd = ((?a @ ?b) @ ?c) @ ?d"
    by (simp add: blocks_from_def numeral_2_eq_2 numeral_3_eq_3 m_def n_def)
  have r: "releasable s F ?a" "releasable s F (?a @ ?b)" "releasable s F ((?a @ ?b) @ ?c)"
    "releasable s F (((?a @ ?b) @ ?c) @ ?d)"
    using rel unfolding eq by (simp_all only: releasable_append [of s F "((?a @ ?b) @ ?c)"] releasable_append [of s F "?a @ ?b"]
        releasable_append [of s F ?a])
  have lm: "l \<le> m" using l by (simp add: m_def n_def)
  let ?nd = "zero_direct l 12 nd"
  obtain t1 where t1: "free_direct_range l n nd s = Some (Next (?nd, t1))" "freed s F ?a t1"
    using free_direct_range_run [OF F len l(1) lm m_def r(1)] zero_direct_max [OF U(1) l(1)] m_def by auto
  note start = n_def [symmetric] t1(1)
  show ?thesis
  proof (cases "n \<le> 12")
    case True
    then have "remove_from_direct l nd s = Some (True, emptied l nd, t1)"
      using roots by (simp add: remove_from_direct_def start emptied_def inode_same_fields)
    moreover have "blocks_from s l nd = ?a" using True roots by (simp add: eq tree_if_def)
    ultimately show ?thesis using t1(2) by auto
  next
    case n12: False
    then have b: "?b = tree_blocks s (Suc 0) (i_single_indirect nd)"
      using roots by (simp add: tree_if_def)
    obtain t2 where t2: "remove_datablocks_utility (Suc 0) (i_single_indirect nd) t1 = Some (True, t2)" "freed s F (?a @ ?b) t2"
      using remove_tree [OF t1(2) F r(2) [unfolded b], folded b] by (elim exE conjE) (rule that)
    show ?thesis
    proof (cases "n \<le> 524")
      case True
      then have "remove_from_direct l nd s = Some (True, emptied l nd, t2)"
        using roots n12 by (simp add: remove_from_direct_def start t2(1) [unfolded One_nat_def [symmetric]] emptied_def inode_same_fields del: One_nat_def)
      moreover have "blocks_from s l nd = ?a @ ?b" using True roots by (simp add: eq tree_if_def)
      ultimately show ?thesis using t2(2) by auto
    next
      case n524: False
      then have c: "?c = tree_blocks s (Suc 1) (i_double_indirect nd)"
        using roots by (simp add: tree_if_def del: tree_blocks.simps)
      obtain t3 where t3: "remove_datablocks_utility (Suc 1) (i_double_indirect nd) t2 = Some (True, t3)"
        "freed s F ((?a @ ?b) @ ?c) t3"
        using remove_tree [OF t2(2) F r(3) [unfolded c], folded c] by (elim exE conjE) (rule that)
      show ?thesis
      proof (cases "n \<le> 262668")
        case True
        then have "remove_from_direct l nd s = Some (True, emptied l nd, t3)"
          using roots n12 n524
          by (simp add: remove_from_direct_def remove_double_triple_def start t2(1) [unfolded One_nat_def [symmetric]] t3(1) [unfolded Suc_1] emptied_def
              inode_same_fields del: One_nat_def)
        moreover have "blocks_from s l nd = (?a @ ?b) @ ?c" using True roots by (simp add: eq tree_if_def)
        ultimately show ?thesis using t3(2) by auto
      next
        case False
        then have d: "?d = tree_blocks s (Suc 2) (i_triple_indirect nd)"
          using roots by (simp add: tree_if_def del: tree_blocks.simps)
        obtain t4 where t4: "remove_datablocks_utility (Suc 2) (i_triple_indirect nd) t3 = Some (True, t4)"
          "freed s F (((?a @ ?b) @ ?c) @ ?d) t4"
          using remove_tree [OF t3(2) F r(4) [unfolded d], folded d] by (elim exE conjE) (rule that)
        have "remove_from_direct l nd s = Some (True, emptied l nd, t4)"
          using False n12 n524
          by (simp add: remove_from_direct_def remove_double_triple_def start t2(1) [unfolded One_nat_def [symmetric]] t3(1) [unfolded Suc_1] t4(1) [unfolded Suc_2] emptied_def
              del: One_nat_def)
        then show ?thesis using t4(2) unfolding eq by blast
      qed
    qed
  qed
qed

lemma used_upto_direct: "l \<le> 12 \<Longrightarrow> used l = (\<lambda>i. [i]) ` {0..<l}"
  by (auto simp: used_def pos_of_def)

lemma blocks_from_split:
  assumes m: "mounted s" and ok: "file_ok s F nd" and l: "0 \<le> l" "l \<le> 12" "l < i_blocks_num nd"
  shows "inode_blocks s nd = map (root_at nd) [0..l - 1] @ blocks_from s l nd"
proof -
  define n where "n = i_blocks_num nd"
  have U: "tidy s nd (used n)" "tree_ok s F nd (used n)" and len: "length (i_direct_blocks nd) = 12"
    using ok by (simp_all add: file_ok_def n_def)
  have n0: "0 \<le> n" using l by (simp add: n_def)
  have "[0..min n 12 - 1] = [0..l - 1] @ [l..min n 12 - 1]"
    using l upto_split1 [of 0 l "min n 12 - 1"] by (cases "l = 12") (simp_all add: n_def)
  then have "takeWhile (\<lambda>i. [i] \<in> used n) [0..11] = [0..l - 1] @ [l..min 12 n - 1]"
    using takeWhile_direct [OF n0] by (simp only: min.commute)
  then show ?thesis
    using direct_list_positions [OF m U(2,1) len] by (simp add: inode_blocks_def blocks_from_def n_def)
qed

lemma emptied_fields [simp]:
  "i_blocks_num (emptied l nd) = l" "length (i_direct_blocks (emptied l nd)) = 12"
  by (simp_all add: emptied_def cut_at_def zero_direct_def)

lemma root_at_emptied:
  "r \<in> {-3..<12} \<Longrightarrow> root_at (emptied l nd) r = (if 0 \<le> r \<and> r < l then root_at nd r else 0)"
  by (auto simp: emptied_def cut_at_def zero_direct_def root_at_def [of "_\<lparr>i_blocks_num := _\<rparr>"] nth_upto)

lemma tree_ok_shrink:
  assumes "tree_ok s F nd U" "V \<subseteq> U" "\<And>q. q \<in> V \<Longrightarrow> block_at t nd' q = block_at s nd q"
    and "\<And>n. data_block t n = data_block s n" "\<And>q. q \<in> V \<Longrightarrow> block_at s nd q \<notin> G"
    and "\<And>i j p. i # j # p \<in> V \<Longrightarrow> j # p \<in> V"
  shows "tree_ok t G nd' V"
proof -
  have "inj_on (block_at s nd) V" using assms(1,2) by (auto simp: tree_ok_def intro: inj_on_subset)
  then have "inj_on (block_at t nd') V" using assms(3) by (simp add: inj_on_def)
  moreover have "data_block t (block_at t nd' q) \<and> block_at t nd' q \<notin> G" if "q \<in> V" for q
    using that assms(2-5) tree_ok_facts(1) [OF assms(1), of q] by auto
  moreover have "0 \<le> i \<and> i < 512" if "i # j # p \<in> V" for i j p
    using that assms(1,2) unfolding tree_ok_def by blast
  ultimately show ?thesis using assms(6) unfolding tree_ok_def by blast
qed

lemma remove_within_direct:
  assumes F: "freelist s F" "F \<noteq> {}" and ok: "file_ok s F nd"
    and l: "0 \<le> l" "l \<le> 12" "l < i_blocks_num nd"
  defines "B \<equiv> block_at s nd ` (used (i_blocks_num nd) - used l)"
  shows "\<exists>t. remove_datablocks_from_inode nd l s = Some (True, emptied l nd, t)
    \<and> freelist t (F \<union> B) \<and> file_ok t (F \<union> B) (emptied l nd)
    \<and> (\<forall>q \<in> used l. block_at t (emptied l nd) q = block_at s nd q)
    \<and> only_changes (insert 0 (F \<union> B)) s t \<and> (superblock_synced s \<longrightarrow> superblock_synced t)"
proof -
  note m = freelist_mounted [OF F(1)] and rs = file_ok_releasable [OF F(1) ok]
  note split = blocks_from_split [OF m ok l]
  have U: "tree_ok s F nd (used (i_blocks_num nd))" using ok by (simp add: file_ok_def)
  have sub: "used l \<subseteq> used (i_blocks_num nd)" using l(3) by (fastforce simp: used_def)
  have l_used: "set (map (root_at nd) [0..l - 1]) = block_at s nd ` used l"
    using l(2) by (auto simp: used_upto_direct image_image)
  have d: "distinct (map (root_at nd) [0..l - 1] @ blocks_from s l nd)"
    and rel: "releasable s F (blocks_from s l nd)"
    using rs(1) unfolding split by (auto simp: releasable_def)
  have "set (map (root_at nd) [0..l - 1]) \<union> set (blocks_from s l nd) = block_at s nd ` used (i_blocks_num nd)"
    using rs(2) unfolding split by simp
  moreover have "set (map (root_at nd) [0..l - 1]) \<inter> set (blocks_from s l nd) = {}" using d by auto
  moreover have "B = block_at s nd ` used (i_blocks_num nd) - block_at s nd ` used l"
    unfolding B_def using U sub by (intro inj_on_image_set_diff) (auto simp: tree_ok_def)
  ultimately have B: "set (blocks_from s l nd) = B" unfolding l_used by blast
  obtain t where t: "remove_from_direct l nd s = Some (True, emptied l nd, t)" "freed s F (blocks_from s l nd) t"
    using remove_from_direct_run [OF F ok l rel] by blast
  have same: "block_at t (emptied l nd) q = block_at s nd q" if "q \<in> used l" for q
    using that l(2) by (auto simp: used_upto_direct root_at_emptied)
  have geo: "data_block t k = data_block s k" for k using t(2) freed_geometry by blast
  have "block_at s nd q \<notin> F \<union> B" if "q \<in> used l" for q
    using that sub tree_ok_facts(2) [OF U] B d l_used by auto
  then have "tree_ok t (F \<union> B) (emptied l nd) (used l)"
    using l(2) by (intro tree_ok_shrink [OF U sub same geo]) (auto simp: used_upto_direct)
  moreover have "tidy t (emptied l nd) (used l)"
    using l(2) by (auto simp: tidy_def used_upto_direct root_at_emptied level_def)
  ultimately have "file_ok t (F \<union> B) (emptied l nd)" using l(1) by (simp add: file_ok_def)
  moreover have "remove_datablocks_from_inode nd l s = Some (True, emptied l nd, t)"
    using l t(1) by (simp add: remove_datablocks_from_inode_def)
  ultimately show ?thesis using t(2) same unfolding freed_def B by blast
qed

end
