(* ===== verification/File_Edits.thy ===== *)
theory File_Edits
  imports File_Release
begin

text \<open>
  Replacing a block of a file (\<open>overwrite_datablock_to_inode\<close>) and the cut at the border of the
  triple indirect area (\<open>remove_datablocks_from_inode\<close>). Without a cached indirect block the
  replacement does what it should; with one the code writes the changed indirect block over the
  new data block and leaves the file as it was.
\<close>

section \<open>Replacing a block\<close>

lemma tree_ok_remove_leaf:
  assumes "tree_ok s F nd U" "\<And>i. i # q \<notin> U"
  shows "tree_ok s F nd (U - {q})"
  by (rule tree_ok_shrink [OF assms(1)]) (use assms tree_ok_facts(2) [OF assms(1)] in \<open>auto simp: tree_ok_def\<close>)

text \<open>One address of an indirect block of the file is replaced.\<close>

lemma replace_cell:
  assumes F: "freelist s F" and ok: "tree_ok s F nd U" "tidy s nd U"
    and p: "j # p \<in> U" "i # j # p \<in> U" "0 \<le> i" "i < 512" "\<And>k. k # i # j # p \<notin> U" "level (i # j # p) = 0"
    and b: "data_block s b" "b \<notin> F" "b \<notin> block_at s nd ` U"
  defines "t \<equiv> upd_block s (block_at s nd (j # p)) (set_addr (disk_block s (block_at s nd (j # p))) i b)"
  shows "freelist t F" "tree_ok t F nd U" "tidy t nd U" "block_at t nd (i # j # p) = b"
    "\<And>q. q \<in> U \<Longrightarrow> q \<noteq> i # j # p \<Longrightarrow> block_at t nd q = block_at s nd q"
proof -
  let ?U = "U - {i # j # p}"
  have ok': "tree_ok s F nd ?U" by (rule tree_ok_remove_leaf [OF ok(1) p(5)])
  have U: "insert (i # j # p) ?U = U" using p(2) by blast
  have p': "j # p \<in> ?U" "i # j # p \<notin> ?U" using p(1) by auto
  have b': "b \<notin> block_at s nd ` ?U" using b(3) by blast
  note w = write_cell [OF F ok' p' p(3,4) b(1,2) b', folded t_def, unfolded U]
  show "freelist t F" "tree_ok t F nd U" "block_at t nd (i # j # p) = b" by (rule w)+
  show same: "block_at t nd q = block_at s nd q" if "q \<in> U" "q \<noteq> i # j # p" for q
    using w(4) that by blast
  have m: "mounted s" using F by (rule freelist_mounted)
  have bs: "in_ssize b" using data_block_valid [OF m b(1)] in_ssize_valid_block [OF m] by blast
  have "addr_at (disk_block t (block_at t nd q)) k = 0" if q: "q \<in> U" "0 < level q" "0 \<le> k" "k < 512" "k # q \<notin> U" for q k
  proof -
    have "q \<noteq> i # j # p" using q(2) p(6) by auto
    then have "block_at t nd q = block_at s nd q" using same q(1) by blast
    moreover have "\<not> (block_at s nd q = block_at s nd (j # p) \<and> k = i)"
      using ok(1) q(1,5) p(1,2) unfolding tree_ok_def by (metis inj_onD)
    ultimately have "addr_at (disk_block t (block_at t nd q)) k = addr_at (disk_block s (block_at s nd q)) k"
      unfolding t_def using addr.get_disk_put [OF m p(3,4) q(3,4) bs] by auto
    then show ?thesis using ok(2) q by (simp add: tidy_def)
  qed
  then show "tidy t nd U" using ok(2) by (simp add: tidy_def)
qed

text \<open>What replacing block \<open>l\<close> by \<open>d\<close> achieves.\<close>

definition block_replaced :: "altfs \<Rightarrow> int set \<Rightarrow> inode \<Rightarrow> int \<Rightarrow> int \<Rightarrow> altfs \<Rightarrow> inode \<Rightarrow> bool" where
  "block_replaced s F nd l d t nd' \<longleftrightarrow> freelist t F \<and> file_ok t F nd' \<and> i_blocks_num nd' = i_blocks_num nd
     \<and> file_block t nd' l = d
     \<and> (\<forall>k. 0 \<le> k \<and> k < i_blocks_num nd \<and> k \<noteq> l \<longrightarrow> file_block t nd' k = file_block s nd k)"

lemma pos_of_last:
  assumes "0 \<le> l"
  shows "last (pos_of l) = -2 \<Longrightarrow> pos_of l = [(l - 524) mod 512, (l - 524) div 512, -2]"
    "last (pos_of l) = -3 \<Longrightarrow>
      pos_of l = [(l - 262668) mod 512, (l - 262668) div 512 mod 512, (l - 262668) div 262144, -3]"
proof -
  consider "l < 12" | "12 \<le> l" "l < 524" | "524 \<le> l" "l < 262668" | "262668 \<le> l" by linarith
  note c = this
  show "last (pos_of l) = -2 \<Longrightarrow> pos_of l = [(l - 524) mod 512, (l - 524) div 512, -2]"
    using c by cases (use assms in \<open>simp_all add: pos_of_def\<close>)
  show "last (pos_of l) = -3 \<Longrightarrow>
      pos_of l = [(l - 262668) mod 512, (l - 262668) div 512 mod 512, (l - 262668) div 262144, -3]"
    using c by cases (use assms in \<open>simp_all add: pos_of_def\<close>)
qed

lemma pos_of_inj:
  assumes "0 \<le> k" "k < MAX_FILE_BLOCKS" "0 \<le> l" "l < MAX_FILE_BLOCKS" "pos_of k = pos_of l"
  shows "k = l"
proof -
  from assms(1,2) show ?thesis
  proof (cases rule: pos_of_cases)
    case (double d)
    then have "last (pos_of l) = -2" using assms(5) by simp
    then have "pos_of l = [(l - 524) mod 512, (l - 524) div 512, -2]" by (rule pos_of_last(1) [OF assms(3)])
    then obtain e where e: "e = l - 524" "pos_of l = [e mod 512, e div 512, -2]" by blast
    have "d mod 512 = e mod 512" "d div 512 = e div 512" using double(4) e(2) assms(5) by simp_all
    then have "d = e" by (rule divmod_eq)
    then show ?thesis using double(1) e(1) by simp
  next
    case (triple d)
    then have "last (pos_of l) = -3" using assms(5) by simp
    then have "pos_of l = [(l - 262668) mod 512, (l - 262668) div 512 mod 512, (l - 262668) div 262144, -3]"
      by (rule pos_of_last(2) [OF assms(3)])
    then obtain e where e: "e = l - 262668" "pos_of l = [e mod 512, e div 512 mod 512, e div 262144, -3]" by blast
    have q: "d mod 512 = e mod 512" "d div 512 mod 512 = e div 512 mod 512" "d div 262144 = e div 262144"
      using triple(4) e(2) assms(5) by simp_all
    then have "d div 512 = e div 512"
      using divmod_eq [of "d div 512" 512 "e div 512"] by (simp add: div_262144)
    then have "d = e" using q(1) divmod_eq by blast
    then show ?thesis using triple(1) e(1) by simp
  qed (use assms in \<open>auto simp: pos_of_def split: if_splits\<close>)
qed

lemma replace_leaf:
  assumes F: "freelist s F" and ok: "file_ok s F nd" and l: "0 \<le> l" "l < i_blocks_num nd"
    and pos: "pos_of l = i # j # p" and d: "addable s F nd d"
  shows "\<exists>t. write_addr (block_at s nd (j # p)) i d s = Some (True, t) \<and> block_replaced s F nd l d t nd"
proof -
  define n where "n = i_blocks_num nd"
  have U: "tree_ok s F nd (used n)" "tidy s nd (used n)" using ok by (simp_all add: file_ok_def n_def)
  have max: "n \<le> MAX_FILE_BLOCKS" using file_ok_max [OF ok] by (simp add: n_def)
  have up: "i # j # p \<in> used n" using pos_of_used [of l n] l pos by (auto simp: n_def)
  note c = used_cons [OF up max]
  have leaf: "k # i # j # p \<notin> used n" for k
    using pos_of_leaf [of l k n] l max pos by (auto simp: n_def)
  have lev: "level (i # j # p) = 0"
    using pos l(1) by (auto simp: pos_of_def level_def split: if_splits)
  have dd: "data_block s d" "d \<notin> F" "d \<notin> block_at s nd ` used n" using d by (simp_all add: addable_def n_def)
  have i: "0 \<le> i" "i < 512" using c(2) by auto
  let ?n = "block_at s nd (j # p)"
  define t where "t = upd_block s ?n (set_addr (disk_block s ?n) i d)"
  note w = replace_cell [OF F U c(1) up i leaf lev dd, folded t_def]
  have "write_addr ?n i d s = Some (True, t)"
    unfolding t_def using tree_ok_facts(1) [OF U(1) c(1)] freelist_mounted [OF F] i by (intro write_addr_run)
  moreover have "file_block t nd k = file_block s nd k" if k: "0 \<le> k" "k < n" "k \<noteq> l" for k
  proof -
    have "pos_of k \<noteq> i # j # p" using pos_of_inj [of k l] k l max pos by (auto simp: n_def)
    moreover have "pos_of k \<in> used n" using pos_of_used [of k n] k by auto
    ultimately show ?thesis using w(5) by (simp add: file_block_def)
  qed
  ultimately show ?thesis
    using w(1-4) ok by (auto simp: block_replaced_def file_ok_def n_def file_block_def pos simp del: block_at.simps)
qed

lemma replace_direct:
  assumes F: "freelist s F" and ok: "file_ok s F nd" and l: "0 \<le> l" "l < i_blocks_num nd" "l < 12"
    and d: "addable s F nd d"
  shows "block_replaced s F nd l d s (set_root nd l d)"
proof -
  define n where "n = i_blocks_num nd"
  have U: "tree_ok s F nd (used n)" "tidy s nd (used n)" "length (i_direct_blocks nd) = 12" "0 \<le> n"
    using ok by (simp_all add: file_ok_def n_def)
  have max: "n \<le> MAX_FILE_BLOCKS" using file_ok_max [OF ok] by (simp add: n_def)
  let ?nd = "set_root nd l d" and ?V = "used n - {[l]}"
  have up: "[l] \<in> used n" using l by (simp add: used_direct n_def)
  have pos: "pos_of l = [l]" using l(3) by (simp add: pos_of_def)
  have leaf: "k # [l] \<notin> used n" for k using pos_of_leaf [of l k n] l max pos by (auto simp: n_def)
  have new: "root_at ?nd l = d" using l by (subst root_at_set_root [OF U(3)]) auto
  have roots: "root_at ?nd r = root_at nd r" if "r \<in> {-3..<12}" "r \<noteq> l" for r
    using that l by (subst root_at_set_root [OF U(3)]) auto
  have V: "tree_ok s F nd ?V" by (rule tree_ok_remove_leaf [OF U(1) leaf])
  have same: "block_at s ?nd q = block_at s nd q" if "q \<in> ?V" for q
  proof (rule block_at_frame [where U = ?V, OF _ _ _ that])
    show "root_at ?nd r = root_at nd r" if "[r] \<in> ?V" for r
      using that last_used [OF U(4)] by (intro roots) auto
  qed (use V in \<open>auto simp: tree_ok_def\<close>)
  have dd: "data_block s d" "d \<notin> F" "d \<notin> block_at s ?nd ` ?V" using d same by (auto simp: addable_def n_def)
  have "tree_ok s F ?nd (insert [l] ?V)"
    by (rule tree_ok_insert [where b = d]) (use tree_ok_cong [OF V same] dd new in auto)
  then have "tree_ok s F ?nd (used n)" using up by (simp add: insert_absorb)
  moreover have "tidy s ?nd (used n)"
    unfolding tidy_def
  proof (intro conjI ballI impI allI)
    fix r assume "r \<in> {-3..<12 :: int}" "[r] \<notin> used n"
    then show "root_at ?nd r = 0" using U(2) up roots [of r] by (auto simp: tidy_def)
  next
    fix p i assume p: "p \<in> used n" "0 < level p" "0 \<le> i \<and> i < 512 \<and> i # p \<notin> used n"
    then have "p \<in> ?V" using l by (auto simp: level_def)
    then show "addr_at (disk_block s (block_at s ?nd p)) i = 0" using U(2) p same by (simp add: tidy_def)
  qed
  ultimately have "file_ok s F ?nd" using U(3,4) by (simp add: file_ok_def n_def)
  moreover have "file_block s ?nd k = file_block s nd k" if k: "0 \<le> k" "k < n" "k \<noteq> l" for k
  proof -
    have "pos_of k \<noteq> [l]" using pos_of_inj [of k l] k l max pos by (auto simp: n_def)
    moreover have "pos_of k \<in> used n" using pos_of_used [of k n] k by auto
    ultimately show ?thesis using same by (simp add: file_block_def)
  qed
  ultimately show ?thesis using F new by (simp add: block_replaced_def file_block_def pos n_def)
qed

theorem overwrite_run:
  assumes F: "freelist s F" and ok: "file_ok s F nd" and l: "0 \<le> l" "l < i_blocks_num nd"
    and d: "addable s F nd d"
  shows "\<exists>nd' prev t. overwrite_datablock_to_inode nd l d 0 s = Some (True, nd', prev, t)
    \<and> block_replaced s F nd l d t nd'"
proof -
  have m: "mounted s" using F by (rule freelist_mounted)
  note ix = file_ok_index [OF m ok l]
  have "l < MAX_FILE_BLOCKS" using l(2) file_ok_max [OF ok] by simp
  with l(1) show ?thesis
  proof (cases rule: pos_of_cases)
    case direct
    have "direct_set nd l d = Some (set_root nd l d)"
      using l direct ok by (simp add: direct_set_def set_root_def file_ok_def)
    then show ?thesis using replace_direct [OF F ok l direct(1) d] l direct
      by (simp add: overwrite_datablock_to_inode_def)
  next
    case single
    have r: "i_single_indirect nd \<noteq> 0" using ix(2) [of "[-1]"] by (simp add: single(3) root_at_def)
    obtain t where "write_addr (i_single_indirect nd) (l - 12) d s = Some (True, t)" "block_replaced s F nd l d t nd"
      using replace_leaf [OF F ok l single(3) d] by (auto simp: root_at_def)
    then show ?thesis using l single r by (simp add: overwrite_datablock_to_inode_def)
  next
    case (double k)
    let ?i = "k div 512" and ?r = "i_double_indirect nd"
    let ?n = "addr_at (disk_block s ?r) ?i"
    have r: "data_block s ?r" "0 < ?r" "0 < ?n"
      using ix [of "[-2]"] ix [of "[?i, -2]"] by (simp_all add: double(4) root_at_def)
    obtain t where t: "write_addr ?n (k mod 512) d s = Some (True, t)" "block_replaced s F nd l d t nd"
      using replace_leaf [OF F ok l double(4) d] by (auto simp: root_at_def)
    have "read_addr ?r ?i s = Some ?n" using m r double(2,3) by (intro read_addr_run) auto
    then have "overwrite_double nd k d 0 s = Some (True, ?n, t)"
      unfolding overwrite_double_def using r t(1) double(2) by simp
    then show ?thesis using l double(1-3) t(2) by (simp add: overwrite_datablock_to_inode_def)
  next
    case (triple k)
    let ?h = "k div 262144" and ?i = "k div 512 mod 512" and ?r = "i_triple_indirect nd"
    let ?n = "addr_at (disk_block s ?r) ?h"
    let ?m = "addr_at (disk_block s ?n) ?i"
    have r: "data_block s ?r" "0 < ?r" "data_block s ?n" "0 < ?n" "0 < ?m"
      using ix [of "[-3]"] ix [of "[?h, -3]"] ix [of "[?i, ?h, -3]"] by (simp_all add: triple(4) root_at_def)
    obtain t where t: "write_addr ?m (k mod 512) d s = Some (True, t)" "block_replaced s F nd l d t nd"
      using replace_leaf [OF F ok l triple(4) d] by (auto simp: root_at_def)
    have ra: "read_addr ?r ?h s = Some ?n" "read_addr ?n ?i s = Some ?m"
      using m r(1,3) triple(2,3) by (auto intro!: read_addr_run)
    have cd: "c_div k NUM_OF_DOUBLE_INDIRECT_BLOCK_ADDR = ?h"
      "c_mod (c_div k NUM_OF_ADDRESSES_PER_BLOCK) NUM_OF_ADDRESSES_PER_BLOCK = ?i"
      "c_mod k NUM_OF_ADDRESSES_PER_BLOCK = k mod 512"
      using triple(2) by simp_all
    have "overwrite_triple nd k d 0 s = Some (True, 0, t)"
      unfolding overwrite_triple_def Let_def cd using r(2,4,5) by (simp add: ra t(1))
    then show ?thesis using l triple(1-3) t(2) by (simp add: overwrite_datablock_to_inode_def)
  qed
qed

text \<open>With the indirect block cached, the file keeps its old block, and the new block \<open>d\<close> is
  overwritten by the addresses of the indirect block.\<close>

lemma overwrite_cached_run:
  assumes m: "mounted s" and ok: "file_ok s F nd" and l: "524 \<le> l" "l < i_blocks_num nd"
    and k: "(l - 524) mod 512 \<noteq> 0" and d: "addable s F nd d"
  defines "prev \<equiv> block_at s nd (tl (pos_of l))"
  shows "\<exists>t. overwrite_datablock_to_inode nd l d prev s = Some (True, nd, prev, t)
    \<and> file_block t nd l = file_block s nd l
    \<and> disk_block t d = set_addr (disk_block s prev) ((l - 524) mod 512) d"
proof -
  define n where "n = i_blocks_num nd"
  define i where "i = (l - 524) mod 512"
  have U: "tree_ok s F nd (used n)" using ok by (simp add: file_ok_def n_def)
  have l0: "0 \<le> l" using l(1) by simp
  note ix = file_ok_index [OF m ok l0 l(2)]
  have ir: "0 \<le> i" "i < 512" by (simp_all add: i_def)
  let ?b = "set_addr (disk_block s prev) i d"
  let ?t = "upd_block s d ?b"
  have dd: "data_block s d" "d \<notin> block_at s nd ` used n" using d by (simp_all add: addable_def n_def)
  have cached: "overwrite_cached i d prev s = Some (True, prev, ?t)" if "data_block s prev"
    unfolding overwrite_cached_def using m that dd(1) ir by (simp add: run)
  have "l < MAX_FILE_BLOCKS" using l(2) file_ok_max [OF ok] by simp
  with l0 have run: "overwrite_datablock_to_inode nd l d prev s = Some (True, nd, prev, ?t)"
  proof (cases rule: pos_of_cases)
    case (double k)
    have p: "data_block s prev" "prev \<noteq> 0" "i_double_indirect nd \<noteq> 0"
      using ix [of "tl (pos_of l)"] ix [of "[-2]"] by (simp_all add: prev_def double(4) root_at_def)
    have "c_mod k NUM_OF_ADDRESSES_PER_BLOCK = i" using double(1,2) by (simp add: i_def)
    then have "overwrite_double nd k d prev s = Some (True, prev, ?t)"
      using p cached k by (simp add: overwrite_double_def Let_def i_def)
    then show ?thesis using l double(1-3) by (simp add: overwrite_datablock_to_inode_def)
  next
    case (triple k)
    have p: "data_block s prev" "prev \<noteq> 0" "i_triple_indirect nd \<noteq> 0"
      using ix [of "tl (pos_of l)"] ix [of "[-3]"] by (simp_all add: prev_def triple(4) root_at_def)
    have "(l - 524) mod 512 = k mod 512"
    proof -
      have "l - 524 = k + 512 * 512" using triple(1) by simp
      then show ?thesis by (simp only: mod_mult_self2)
    qed
    then have "c_mod k NUM_OF_ADDRESSES_PER_BLOCK = i" using triple(2) by (simp add: i_def)
    then have "overwrite_triple nd k d prev s = Some (True, prev, ?t)"
      using p cached k by (simp add: overwrite_triple_def Let_def i_def)
    then show ?thesis using l triple(1-3) by (simp add: overwrite_datablock_to_inode_def)
  qed (use l in simp_all)
  have "only_changes {d} s ?t" using m by (simp add: only_changes_upd)
  then have "block_at ?t nd (pos_of l) = block_at s nd (pos_of l)"
    by (rule block_at_unchanged [OF U])
      (use dd(2) pos_of_used [OF l0 l(2)] in \<open>auto simp: n_def\<close>)
  moreover have "disk_block ?t d = ?b" using m ir by (simp add: mem_simps)
  ultimately show ?thesis using run by (auto simp: file_block_def i_def)
qed

section \<open>Cutting off the triple indirect area\<close>

text \<open>A cut exactly at the start of the triple indirect area frees nothing and keeps the triple
  indirect block, but the file is shorter: the blocks are lost.\<close>

lemma cut_at_triple_start:
  assumes m: "mounted s" and ok: "file_ok s F nd"
    and n: "262668 < i_blocks_num nd" "i_blocks_num nd \<le> 262668 + 262144"
  shows "remove_datablocks_from_inode nd 262668 s = Some (True, cut_at 262668 nd, s)"
proof -
  have "data_block s (i_double_indirect nd)" "0 < i_double_indirect nd"
    using file_ok_index [OF m ok, of 524 "[-2]"] n(1) by (simp_all add: pos_of_def root_at_def)
  then have "remove_from_double 262668 262144 nd s = Some (True, cut_at 262668 nd, s)"
    using m n by (simp add: remove_from_double_def run)
  then show ?thesis using n(1) by (simp add: remove_datablocks_from_inode_def)
qed

end
