(* ===== verification/File_Content.thy ===== *)
theory File_Content
  imports File_Edits
begin

text \<open>
  The contents of the blocks of a file: the loops of the program that go over the blocks of a file
  with a cached indirect block (\<open>walk_ok\<close>), writing to a block of a file, and the part of the inode
  that does not depend on the blocks. Directories and the read and write paths rest on these lemmas.
\<close>

section \<open>Walking over the blocks of a file\<close>

text \<open>The cached indirect block in a loop over the blocks of a file, before block \<open>l\<close>.\<close>

definition walk_ok :: "altfs \<Rightarrow> inode \<Rightarrow> int \<Rightarrow> int \<Rightarrow> bool" where
  "walk_ok s nd l prev \<longleftrightarrow> (l < MAX_FILE_BLOCKS \<longrightarrow> prev_ok s nd l prev \<and> (l < 524 \<longrightarrow> prev = 0))"

lemma walk_start [simp]: "walk_ok s nd l 0"
  by (simp add: walk_ok_def prev_ok_def)

lemma walk_step:
  assumes "mounted s" "file_ok s F nd" "i_blocks_num nd \<le> MAX_FILE_BLOCKS" "0 \<le> l" "l < i_blocks_num nd"
    "walk_ok s nd l prev"
  obtains prev' where "get_disk_block_from_inode_block nd l prev s = Some (file_block s nd l, prev')"
    "walk_ok s nd (l + 1) prev'"
proof
  have w: "prev_ok s nd l prev" "l < 524 \<longrightarrow> prev = 0" using assms by (auto simp: walk_ok_def)
  show "get_disk_block_from_inode_block nd l prev s = Some (file_block s nd l, next_prev s nd l prev)"
    using lookup_run [OF assms(1-5) w(1)] .
  show "walk_ok s nd (l + 1) (next_prev s nd l prev)"
    using prev_ok_next [OF assms(4) _ w] w(2) by (auto simp: walk_ok_def next_prev_def)
qed

lemma walk_cong:
  assumes "walk_ok s nd l prev" "0 \<le> l" "l < i_blocks_num nd"
    and "\<And>q. q \<in> used (i_blocks_num nd) \<Longrightarrow> block_at t nd q = block_at s nd q"
  shows "walk_ok t nd l prev"
proof -
  have "block_at t nd (tl (pos_of l)) = block_at s nd (tl (pos_of l))" if "524 \<le> l"
  proof (rule assms(4))
    have "tl (pos_of l) \<in> path (pos_of l)" using that by (simp add: pos_of_def)
    then show "tl (pos_of l) \<in> used (i_blocks_num nd)" using pos_of_used [OF assms(2,3)] by blast
  qed
  then show ?thesis using assms(1) by (auto simp: walk_ok_def prev_ok_def)
qed

lemma pos_of_mem: "0 \<le> l \<Longrightarrow> l < n \<Longrightarrow> pos_of l \<in> used n"
  using pos_of_used [of l n] by auto

lemma file_block_data:
  assumes "mounted s" "file_ok s F nd" "0 \<le> l" "l < i_blocks_num nd"
  shows "data_block s (file_block s nd l)" "0 < file_block s nd l"
  using file_ok_index [OF assms pos_of_in_path] by (simp_all add: file_block_def)

lemma file_block_free:
  assumes "file_ok s F nd" "0 \<le> l" "l < i_blocks_num nd"
  shows "file_block s nd l \<notin> F"
  using assms(1) pos_of_mem [OF assms(2,3)] by (auto simp: file_ok_def tree_ok_def file_block_def)

lemma file_block_inj:
  assumes "file_ok s F nd" "0 \<le> k" "k < i_blocks_num nd" "0 \<le> l" "l < i_blocks_num nd"
  shows "file_block s nd k = file_block s nd l \<longleftrightarrow> k = l"
proof
  assume eq: "file_block s nd k = file_block s nd l"
  have "pos_of k \<in> used (i_blocks_num nd)" "pos_of l \<in> used (i_blocks_num nd)"
    using pos_of_mem assms(2-5) by blast+
  then have "pos_of k = pos_of l"
    using assms(1) eq by (auto simp: file_ok_def tree_ok_def file_block_def dest: inj_onD)
  then show "k = l" using pos_of_inj file_ok_max [OF assms(1)] assms(2-5) by auto
qed simp

section \<open>Writing to a block of a file\<close>

lemma write_content:
  fixes b :: buf
  assumes F: "freelist s F" and ok: "file_ok s F nd" and l: "0 \<le> l" "l < i_blocks_num nd"
  defines "t \<equiv> upd_block s (file_block s nd l) b"
  shows "freelist t F" "file_ok t F nd"
    "\<And>q. q \<in> used (i_blocks_num nd) \<Longrightarrow> block_at t nd q = block_at s nd q"
    "\<And>k. 0 \<le> k \<Longrightarrow> k < i_blocks_num nd \<Longrightarrow> file_block t nd k = file_block s nd k"
    "\<And>n. disk_block t n = (if n = file_block s nd l then clip b else disk_block s n)"
    "only_changes {file_block s nd l} s t" "altfs_superblock t = altfs_superblock s"
    "superblock_synced s \<Longrightarrow> superblock_synced t"
proof -
  let ?n = "file_block s nd l" and ?U = "used (i_blocks_num nd)"
  have m: "mounted s" using F by (rule freelist_mounted)
  have tr: "tree_ok s F nd ?U" "tidy s nd ?U" "length (i_direct_blocks nd) = 12" "0 \<le> i_blocks_num nd"
    using ok by (simp_all add: file_ok_def)
  have pl: "pos_of l \<in> ?U" using pos_of_mem [OF l] .
  have inner: "block_at s nd q \<noteq> ?n" if "q \<in> ?U" "q \<noteq> pos_of l" for q
    using tr(1) that pl by (auto simp: tree_ok_def file_block_def dest: inj_onD)
  show blk: "disk_block t n = (if n = ?n then clip b else disk_block s n)" for n
    unfolding t_def using m by (simp add: mem_simps)
  show ch: "only_changes {?n} s t" unfolding t_def using m by (simp add: only_changes_upd)
  show sb: "altfs_superblock t = altfs_superblock s" by (simp add: t_def)
  show same: "block_at t nd q = block_at s nd q" if "q \<in> ?U" for q
  proof (rule block_at_frame [where U = ?U, OF _ _ _ that])
    fix i j p assume q: "i # j # p \<in> ?U"
    then show jp: "j # p \<in> ?U" using tr(1) by (auto simp: tree_ok_def)
    have "j # p \<noteq> pos_of l" using pos_of_leaf [OF l(1)] q by metis
    then show "addr_at (disk_block t (block_at s nd (j # p))) i = addr_at (disk_block s (block_at s nd (j # p))) i"
      using inner [OF jp] by (simp add: blk)
  qed simp
  then show "file_block t nd k = file_block s nd k" if "0 \<le> k" "k < i_blocks_num nd" for k
    using pos_of_mem [OF that] by (simp add: file_block_def)
  obtain sb where sb': "altfs_superblock s = Ptr sb" "superblock_ok sb" using F by (auto simp: freelist_def)
  show "freelist t F"
    by (rule freelist_unaffected [OF F ch _ sb'(1) _ sb'(2)])
      (use file_block_free [OF ok l] sb sb'(1) in auto)
  have "tree_ok t F nd ?U"
    by (rule tree_ok_cong [OF tr(1) same]) (auto simp: only_changes_geometry [OF ch])
  moreover have "tidy t nd ?U"
    unfolding tidy_def
  proof (intro conjI ballI impI allI)
    fix p i assume p: "p \<in> ?U" "0 < level p" "0 \<le> i \<and> i < 512 \<and> i # p \<notin> ?U"
    have "level (pos_of l) = 0" using l(1) by (auto simp: pos_of_def level_def split: if_splits)
    then have "p \<noteq> pos_of l" using p(2) by auto
    then have "block_at s nd p \<noteq> ?n" by (rule inner [OF p(1)])
    then show "addr_at (disk_block t (block_at t nd p)) i = 0"
      using tr(2) p same [OF p(1)] by (simp add: blk tidy_def)
  qed (use tr(2) in \<open>simp add: tidy_def\<close>)
  ultimately show "file_ok t F nd" using tr(3,4) by (simp add: file_ok_def)
  show "superblock_synced t" if "superblock_synced s"
    using that file_block_data(2) [OF m ok l] by (simp add: superblock_synced_def sb blk)
qed

section \<open>The other fields of the inode\<close>

text \<open>The fields of an inode with the same attributes.\<close>

lemma attrs_fields:
  assumes "attrs nd' = attrs nd"
  shows "i_mode nd' = i_mode nd" "i_file_size nd' = i_file_size nd" "i_child_num nd' = i_child_num nd"
    "i_links_count nd' = i_links_count nd" "i_allocated nd' = i_allocated nd"
  using assms by (cases nd; cases nd'; simp add: attrs_def)+

lemma file_ok_roots:
  assumes "mounted s" "file_ok s F nd" "r \<in> {-3..<12}"
  shows "in_ssize (root_at nd r)"
proof (cases "[r] \<in> used (i_blocks_num nd)")
  case True
  then have "data_block s (root_at nd r)" using assms(2) by (force simp: file_ok_def tree_ok_def)
  then show ?thesis using data_block_valid [OF assms(1)] in_ssize_valid_block [OF assms(1)] by blast
next
  case False
  then have "root_at nd r = 0" using assms(2,3) by (auto simp: file_ok_def tidy_def)
  then show ?thesis by (simp add: in_ssize_def)
qed

text \<open>The inode of a file can be written to the disk as soon as its attributes can.\<close>

lemma file_ok_inode_ok:
  assumes "mounted s" "file_ok s F nd" "attrs nd = attrs nd0" "inode_ok nd0"
  shows "inode_ok nd"
proof -
  note r = file_ok_roots [OF assms(1,2)]
  have len: "length (i_direct_blocks nd) = 12" using assms(2) by (simp add: file_ok_def)
  have "in_ssize a" if "a \<in> set (i_direct_blocks nd)" for a
  proof -
    obtain k where k: "k < 12" "a = i_direct_blocks nd ! k" using \<open>a \<in> _\<close> len by (auto simp: in_set_conv_nth)
    then show ?thesis using r [of "int k"] by (simp add: root_at_def)
  qed
  moreover have "in_ssize (i_single_indirect nd)" "in_ssize (i_double_indirect nd)" "in_ssize (i_triple_indirect nd)"
    using r [of "-1"] r [of "-2"] r [of "-3"] by (simp_all add: root_at_def)
  moreover have "in_ssize (i_blocks_num nd)"
    using file_ok_max [OF assms(2)] assms(2) by (simp add: in_ssize_def file_ok_def MAX_FILE_BLOCKS_def)
  ultimately show ?thesis
    using assms(3,4) len by (cases nd; cases nd0) (simp add: attrs_def inode_ok_def)
qed

end
