(* ===== verification/Directories.thy ===== *)
theory Directories
  imports Directory_Records File_Content
begin

text \<open>
  A directory as a whole: \<open>dir_ok s F nd rss\<close> says that the blocks of the file \<open>nd\<close> hold the lists
  of records \<open>rss\<close>, one list per block. The operations of \<open>src/directory_ops.c\<close> on a directory are
  operations on these lists: the search finds the first record with the name, adding appends a
  record to the first block with room for it or to a new block, removing takes the record out.
\<close>

section \<open>Directories\<close>

definition dir_ok :: "altfs \<Rightarrow> int set \<Rightarrow> inode \<Rightarrow> dirent list list \<Rightarrow> bool" where
  "dir_ok s F nd rss \<longleftrightarrow> file_ok s F nd \<and> S_ISDIR (i_mode nd) \<and> i_blocks_num nd \<le> MAX_FILE_BLOCKS
     \<and> int (length rss) = i_blocks_num nd
     \<and> (\<forall>l. 0 \<le> l \<and> l < i_blocks_num nd \<longrightarrow> holds (disk_block s (file_block s nd l)) (rss ! nat l))"

lemma dir_okD:
  assumes "dir_ok s F nd rss"
  shows "file_ok s F nd" "S_ISDIR (i_mode nd)" "i_blocks_num nd \<le> MAX_FILE_BLOCKS"
    "int (length rss) = i_blocks_num nd"
    "\<And>l. 0 \<le> l \<Longrightarrow> l < i_blocks_num nd \<Longrightarrow> holds (disk_block s (file_block s nd l)) (rss ! nat l)"
  using assms by (simp_all add: dir_ok_def)

lemma holds_run:
  assumes "holds b rs"
  shows "find_record b name 0 = Some (rec_pos 0 rs name)"
    "1 \<le> n \<Longrightarrow> find_space b n 0 = (if recs_size rs + 10 + n \<le> 4096 then Some (recs_size rs) else None)"
  using assms find_record_run [of b 0 rs name] find_space_run [of b 0 rs n] by (simp_all add: holds_def)

text \<open>The block and the position of the first record with a name.\<close>

definition found_at :: "altfs \<Rightarrow> inode \<Rightarrow> dirent list list \<Rightarrow> cstr \<Rightarrow> int \<Rightarrow> fileposition \<Rightarrow> bool" where
  "found_at s nd rss name l fp \<longleftrightarrow> 0 \<le> l \<and> l < i_blocks_num nd \<and> p_plock_num fp = file_block s nd l
     \<and> p_block fp = Some (disk_block s (file_block s nd l)) \<and> rec_pos 0 (rss ! nat l) name = Some (offset fp)
     \<and> (\<forall>k. 0 \<le> k \<and> k < l \<longrightarrow> map_of (rss ! nat k) name = None)"

lemma find_in_block_run:
  assumes m: "mounted s" and d: "dir_ok s F nd rss" and l: "0 \<le> l" "l < i_blocks_num nd" and w: "walk_ok s nd l prev"
  shows "\<exists>prev'. walk_ok s nd (l + 1) prev' \<and> find_in_block name nd s l (prev, fp) =
    Some (let fp' = fp\<lparr>p_plock_num := file_block s nd l, p_block := Some (disk_block s (file_block s nd l))\<rparr> in
          case rec_pos 0 (rss ! nat l) name of
            Some q \<Rightarrow> Return () (prev', fp'\<lparr>offset := q\<rparr>)
          | None \<Rightarrow> Next (prev', fp'))"
proof -
  note dd = dir_okD [OF d]
  obtain prev' where "get_disk_block_from_inode_block nd l prev s = Some (file_block s nd l, prev')" "walk_ok s nd (l + 1) prev'"
    using walk_step [OF m dd(1,3) l w] .
  then show ?thesis
    using holds_run(1) [OF dd(5) [OF l]] file_block_data [OF m dd(1) l] m
    by (intro exI [of _ prev']) (simp add: find_in_block_def run Let_def)
qed

lemma get_file_position_run:
  assumes m: "mounted s" and d: "dir_ok s F nd rss" and n: "length name \<le> 255"
  shows "\<exists>fp. get_file_position_in_dir name nd s = Some fp
    \<and> (offset fp = -1 \<and> (\<forall>l. 0 \<le> l \<and> l < i_blocks_num nd \<longrightarrow> map_of (rss ! nat l) name = None)
       \<or> (\<exists>l. found_at s nd rss name l fp))"
proof -
  note dd = dir_okD [OF d]
  have n0: "0 \<le> i_blocks_num nd" using dd(4) by simp
  let ?fp = "\<lparr>p_block = None, p_plock_num = -1, offset = -1\<rparr>"
  define I where "I = (\<lambda>l (prev, fp :: fileposition). walk_ok s nd l prev \<and> offset fp = -1
    \<and> (\<forall>k. 0 \<le> k \<and> k < l \<longrightarrow> map_of (rss ! nat k) name = None))"
  define Q where "Q = (\<lambda>(prev :: int, fp :: fileposition). offset fp = -1
    \<and> (\<forall>k. 0 \<le> k \<and> k < i_blocks_num nd \<longrightarrow> map_of (rss ! nat k) name = None))"
  define R where "R = (\<lambda>(_ :: unit) (prev :: int, fp :: fileposition). \<exists>l. found_at s nd rss name l fp)"
  have "(\<exists>x. for_loop 0 (i_blocks_num nd) (find_in_block name nd s) (0, ?fp) = Some (Next x) \<and> Q x)
      \<or> (\<exists>r x. for_loop 0 (i_blocks_num nd) (find_in_block name nd s) (0, ?fp) = Some (Return r x) \<and> R r x)"
  proof (rule for_loop_rule [where I = I])
    show "I 0 (0, ?fp)" by (auto simp: I_def)
    fix l x assume l: "0 \<le> l" "l < i_blocks_num nd" and x: "I l x"
    obtain prev fp where [simp]: "x = (prev, fp)" by (cases x)
    have pre: "walk_ok s nd l prev" "offset fp = -1" "\<forall>k. 0 \<le> k \<and> k < l \<longrightarrow> map_of (rss ! nat k) name = None"
      using x by (simp_all add: I_def)
    obtain prev' where st: "walk_ok s nd (l + 1) prev'" "find_in_block name nd s l (prev, fp) =
      Some (let fp' = fp\<lparr>p_plock_num := file_block s nd l, p_block := Some (disk_block s (file_block s nd l))\<rparr> in
          case rec_pos 0 (rss ! nat l) name of
            Some q \<Rightarrow> Return () (prev', fp'\<lparr>offset := q\<rparr>)
          | None \<Rightarrow> Next (prev', fp'))"
      using find_in_block_run [OF m d l pre(1)] by blast
    show "(\<exists>s'. find_in_block name nd s l x = Some (Next s') \<and> I (l + 1) s') \<or>
       (\<exists>s'. find_in_block name nd s l x = Some (Break s') \<and> Q s') \<or>
       (\<exists>r s'. find_in_block name nd s l x = Some (Return r s') \<and> R r s')"
    proof (cases "rec_pos 0 (rss ! nat l) name")
      case None
      then have "\<forall>k. 0 \<le> k \<and> k < l + 1 \<longrightarrow> map_of (rss ! nat k) name = None"
        using range_step [OF pre(3)] by (simp add: rec_pos_None)
      then show ?thesis using st pre(2) None by (auto simp: I_def Let_def)
    next
      case (Some q)
      then show ?thesis using st l pre(3) by (auto simp: R_def found_at_def Let_def)
    qed
  next
    fix x assume "I (i_blocks_num nd) x"
    then show "Q x" by (auto simp: I_def Q_def)
  qed (use n0 in simp)
  then show ?thesis
    using dd(2) n by (auto simp: get_file_position_in_dir_def Q_def R_def)
qed

end
