(* ===== verification/Directory_Changes.thy ===== *)
theory Directory_Changes
  imports Directories "HOL-Library.Multiset"
begin

text \<open>
  Adding and removing the entry of a file in a directory (\<open>add_directory_entry\<close> and
  \<open>remove_directory_entry\<close> of \<open>src/directory_ops.c\<close>) on the lists of records of the directory.
\<close>

section \<open>Inodes with the same blocks\<close>

definition same_blocks :: "inode \<Rightarrow> inode \<Rightarrow> bool" where
  "same_blocks nd nd' \<longleftrightarrow> i_blocks_num nd' = i_blocks_num nd \<and> i_direct_blocks nd' = i_direct_blocks nd
     \<and> i_single_indirect nd' = i_single_indirect nd \<and> i_double_indirect nd' = i_double_indirect nd
     \<and> i_triple_indirect nd' = i_triple_indirect nd"

lemma same_blocks_at: "same_blocks nd nd' \<Longrightarrow> block_at s nd' = block_at s nd"
proof
  fix q assume "same_blocks nd nd'"
  then show "block_at s nd' q = block_at s nd q"
    by (induction s nd q rule: block_at.induct) (simp_all add: root_at_def same_blocks_def)
qed

lemma same_blocks_file:
  assumes "same_blocks nd nd'"
  shows "file_block s nd' = file_block s nd" "file_ok s F nd' = file_ok s F nd" "root_at nd' = root_at nd"
    "i_blocks_num nd' = i_blocks_num nd"
proof -
  show r: "root_at nd' = root_at nd" using assms by (simp add: root_at_def same_blocks_def fun_eq_iff)
  show "file_block s nd' = file_block s nd" by (simp add: file_block_def fun_eq_iff same_blocks_at [OF assms])
  show "i_blocks_num nd' = i_blocks_num nd" using assms by (simp add: same_blocks_def)
  then show "file_ok s F nd' = file_ok s F nd"
    using assms by (simp add: file_ok_def tree_ok_def tidy_def same_blocks_at [OF assms] r same_blocks_def)
qed

lemma same_blocks_child [simp]: "same_blocks nd (child_more nd)" "same_blocks nd (child_less nd)"
  by (simp_all add: same_blocks_def child_more_def child_less_def)

lemma dir_ok_same_blocks:
  assumes "same_blocks nd nd'" "i_mode nd' = i_mode nd"
  shows "dir_ok s F nd' rss = dir_ok s F nd rss"
  using same_blocks_file [OF assms(1)] assms(2) by (simp add: dir_ok_def)

section \<open>Writing one block of a directory\<close>

lemma dir_ok_write:
  assumes F: "freelist s F" and d: "dir_ok s F nd rss" and l: "0 \<le> l" "l < i_blocks_num nd"
    and b: "holds b rs" "is_block b"
  shows "dir_ok (upd_block s (file_block s nd l) b) F nd (rss[nat l := rs])"
proof -
  note dd = dir_okD [OF d]
  note w = write_content [OF F dd(1) l, where b = b]
  have "holds (disk_block (upd_block s (file_block s nd l) b) (file_block (upd_block s (file_block s nd l) b) nd k))
      (rss[nat l := rs] ! nat k)" if k: "0 \<le> k" "k < i_blocks_num nd" for k
  proof (cases "k = l")
    case True
    then show ?thesis using w(4,5) l b dd(4) by (simp add: nth_list_update)
  next
    case False
    then have "file_block s nd k \<noteq> file_block s nd l" using file_block_inj [OF dd(1) k l] by simp
    then show ?thesis using w(4) [OF k] w(5) dd(5) [OF k] False k l by (simp add: nth_list_update)
  qed
  then show ?thesis using w(2) dd(2-4) by (simp add: dir_ok_def)
qed

section \<open>Adding an entry\<close>

definition has_room :: "dirent list \<Rightarrow> dirent \<Rightarrow> bool" where
  "has_room rs r \<longleftrightarrow> recs_size rs + rec_size r \<le> 4096"

text \<open>The lists of records after adding \<open>r\<close>: it goes to the first block with room, or to a new
  block.\<close>

definition entry_added :: "dirent list list \<Rightarrow> dirent \<Rightarrow> dirent list list \<Rightarrow> bool" where
  "entry_added rss r rss' \<longleftrightarrow>
     (\<exists>l < length rss. has_room (rss ! l) r \<and> (\<forall>k < l. \<not> has_room (rss ! k) r) \<and> rss' = rss[l := rss ! l @ [r]])
     \<or> ((\<forall>rs \<in> set rss. \<not> has_room rs r) \<and> rss' = rss @ [[r]])"

lemma add_to_block_run:
  assumes m: "mounted s" and d: "dir_ok s F nd rss" and l: "0 \<le> l" "l < i_blocks_num nd" and w: "walk_ok s nd l prev"
  shows "\<exists>prev'. walk_ok s nd (l + 1) prev' \<and> add_to_block nd v name l (prev, s) =
    Some (if has_room (rss ! nat l) (name, v)
          then Return True (prev', upd_block s (file_block s nd l)
                 (put_record (disk_block s (file_block s nd l)) (recs_size (rss ! nat l)) v name))
          else Next (prev', s))"
proof -
  note dd = dir_okD [OF d]
  obtain prev' where "get_disk_block_from_inode_block nd l prev s = Some (file_block s nd l, prev')" "walk_ok s nd (l + 1) prev'"
    using walk_step [OF m dd(1,3) l w] .
  moreover have "find_space (disk_block s (file_block s nd l)) (int (length name) + 1) 0
    = (if has_room (rss ! nat l) (name, v) then Some (recs_size (rss ! nat l)) else None)"
    using holds_run(2) [OF dd(5) [OF l], of "int (length name) + 1"] by (simp add: has_room_def rec_size_def)
  ultimately show ?thesis
    using file_block_data [OF m dd(1) l] m
    by (intro exI [of _ prev']) (simp add: add_to_block_def run)
qed

lemma add_loop_run:
  assumes m: "mounted s" and d: "dir_ok s F nd rss"
  shows "(\<exists>prev. for_loop 0 (i_blocks_num nd) (add_to_block nd v name) (0, s) = Some (Next (prev, s))
      \<and> (\<forall>k. 0 \<le> k \<and> k < i_blocks_num nd \<longrightarrow> \<not> has_room (rss ! nat k) (name, v)))
    \<or> (\<exists>l prev. 0 \<le> l \<and> l < i_blocks_num nd \<and> has_room (rss ! nat l) (name, v)
      \<and> (\<forall>k. 0 \<le> k \<and> k < l \<longrightarrow> \<not> has_room (rss ! nat k) (name, v))
      \<and> for_loop 0 (i_blocks_num nd) (add_to_block nd v name) (0, s) = Some (Return True (prev,
          upd_block s (file_block s nd l)
            (put_record (disk_block s (file_block s nd l)) (recs_size (rss ! nat l)) v name))))"
proof -
  define none where "none = (\<lambda>l. \<forall>k. 0 \<le> k \<and> k < l \<longrightarrow> \<not> has_room (rss ! nat k) (name, v))"
  define I where "I = (\<lambda>l x. \<exists>prev. x = (prev, s) \<and> walk_ok s nd l prev \<and> none l)"
  define Q where "Q = (\<lambda>x. \<exists>prev. x = (prev :: int, s) \<and> none (i_blocks_num nd))"
  define R where "R = (\<lambda>r x. r = True \<and> (\<exists>l prev. 0 \<le> l \<and> l < i_blocks_num nd \<and> has_room (rss ! nat l) (name, v)
    \<and> none l \<and> x = (prev :: int, upd_block s (file_block s nd l)
        (put_record (disk_block s (file_block s nd l)) (recs_size (rss ! nat l)) v name))))"
  have "(\<exists>x. for_loop 0 (i_blocks_num nd) (add_to_block nd v name) (0, s) = Some (Next x) \<and> Q x)
      \<or> (\<exists>r x. for_loop 0 (i_blocks_num nd) (add_to_block nd v name) (0, s) = Some (Return r x) \<and> R r x)"
  proof (rule for_loop_rule [where I = I])
    show "I 0 (0, s)" by (auto simp: I_def none_def)
    show "0 \<le> i_blocks_num nd" using dir_okD(4) [OF d] by linarith
    show "Q x" if "I (i_blocks_num nd) x" for x using that by (auto simp: I_def Q_def)
    fix l x assume l: "0 \<le> l" "l < i_blocks_num nd" and "I l x"
    then obtain prev where x: "x = (prev, s)" "walk_ok s nd l prev" "none l" by (auto simp: I_def)
    show "(\<exists>s'. add_to_block nd v name l x = Some (Next s') \<and> I (l + 1) s') \<or>
       (\<exists>s'. add_to_block nd v name l x = Some (Break s') \<and> Q s') \<or>
       (\<exists>r s'. add_to_block nd v name l x = Some (Return r s') \<and> R r s')"
    proof (cases "has_room (rss ! nat l) (name, v)")
      case True
      then show ?thesis using add_to_block_run [OF m d l x(2), of v name] l x by (auto simp: R_def)
    next
      case False
      then have "none (l + 1)" using range_step [OF x(3) [unfolded none_def]] by (simp add: none_def)
      then show ?thesis using add_to_block_run [OF m d l x(2), of v name] False x by (auto simp: I_def)
    qed
  qed
  then show ?thesis by (auto simp: Q_def R_def none_def)
qed

text \<open>A file is untouched by what happens to other blocks.\<close>

lemma file_ok_frame:
  assumes ok: "file_ok s F nd" and ch: "only_changes A s t" "\<And>q. q \<in> used (i_blocks_num nd) \<Longrightarrow> block_at s nd q \<notin> A"
    and G: "\<And>q. q \<in> used (i_blocks_num nd) \<Longrightarrow> block_at s nd q \<notin> G"
  shows "file_ok t G nd" "\<And>q. q \<in> used (i_blocks_num nd) \<Longrightarrow> block_at t nd q = block_at s nd q"
    "\<And>l. 0 \<le> l \<Longrightarrow> l < i_blocks_num nd \<Longrightarrow> file_block t nd l = file_block s nd l
       \<and> disk_block t (file_block s nd l) = disk_block s (file_block s nd l)"
proof -
  let ?U = "used (i_blocks_num nd)"
  have tr: "tree_ok s F nd ?U" "tidy s nd ?U" "length (i_direct_blocks nd) = 12" "0 \<le> i_blocks_num nd"
    using ok by (simp_all add: file_ok_def)
  show same: "block_at t nd q = block_at s nd q" if "q \<in> ?U" for q
    by (rule block_at_unchanged [OF tr(1) ch that])
  have blk: "disk_block t (block_at s nd q) = disk_block s (block_at s nd q)" if "q \<in> ?U" for q
    by (rule only_changes_block [OF ch(1) ch(2) [OF that]])
  show "file_block t nd l = file_block s nd l \<and> disk_block t (file_block s nd l) = disk_block s (file_block s nd l)"
    if "0 \<le> l" "l < i_blocks_num nd" for l
    using same blk pos_of_mem [OF that] by (simp add: file_block_def)
  have "tree_ok s G nd ?U" using tr(1) G by (simp add: tree_ok_def)
  then have "tree_ok t G nd ?U"
    by (rule tree_ok_cong [OF _ same order_refl]) (simp_all add: only_changes_geometry [OF ch(1)])
  moreover have "tidy t nd ?U" using tr(2) same blk by (simp add: tidy_def)
  ultimately show "file_ok t G nd" using tr(3,4) by (simp add: file_ok_def)
qed

lemma dir_ok_frame:
  assumes "dir_ok s F nd rss" "only_changes A s t" "\<And>q. q \<in> used (i_blocks_num nd) \<Longrightarrow> block_at s nd q \<notin> A"
    "\<And>q. q \<in> used (i_blocks_num nd) \<Longrightarrow> block_at s nd q \<notin> G"
  shows "dir_ok t G nd rss"
  using file_ok_frame [OF dir_okD(1) [OF assms(1)] assms(2-4)] assms(1) by (simp add: dir_ok_def)

text \<open>What adding an entry to a directory achieves. The blocks that may change are the ones of the
  directory and the free ones.\<close>

definition dir_attrs :: "inode \<Rightarrow> inode" where
  "dir_attrs nd = (attrs nd)\<lparr>i_child_num := 0, i_file_size := 0\<rparr>"

definition dir_grown ::
  "altfs \<Rightarrow> int set \<Rightarrow> inode \<Rightarrow> dirent list list \<Rightarrow> dirent \<Rightarrow> altfs \<Rightarrow> int set \<Rightarrow> inode \<Rightarrow> dirent list list \<Rightarrow> bool" where
  "dir_grown s F nd rss r t G nd' rss' \<longleftrightarrow> freelist t G \<and> G \<subseteq> F \<and> dir_ok t G nd' rss' \<and> entry_added rss r rss'
     \<and> i_child_num nd' = (i_child_num nd + 1) mod 2 ^ 64
     \<and> i_file_size nd' = i_file_size nd + 4096 * (i_blocks_num nd' - i_blocks_num nd)
     \<and> dir_attrs nd' = dir_attrs nd
     \<and> G \<union> block_at t nd' ` used (i_blocks_num nd') = F \<union> block_at s nd ` used (i_blocks_num nd)
     \<and> only_changes (insert 0 F \<union> block_at s nd ` used (i_blocks_num nd)) s t \<and> head_only s t
     \<and> (superblock_synced s \<longrightarrow> superblock_synced t)"

lemma add_in_block:
  assumes F: "freelist s F" and d: "dir_ok s F nd rss" and l: "0 \<le> l" "l < i_blocks_num nd"
    and r: "dirent_ok (name, v)" and room: "has_room (rss ! nat l) (name, v)"
    and first: "\<forall>k. 0 \<le> k \<and> k < l \<longrightarrow> \<not> has_room (rss ! nat k) (name, v)"
  defines "t \<equiv> upd_block s (file_block s nd l)
      (put_record (disk_block s (file_block s nd l)) (recs_size (rss ! nat l)) v name)"
  shows "dir_grown s F nd rss (name, v) t F (child_more nd) (rss[nat l := rss ! nat l @ [(name, v)]])"
proof -
  note dd = dir_okD [OF d]
  let ?b = "put_record (disk_block s (file_block s nd l)) (recs_size (rss ! nat l)) v name"
  note w = write_content [OF F dd(1) l, where b = ?b, folded t_def]
  have "holds ?b (rss ! nat l @ [(name, v)])"
    using holds_put_record [OF dd(5) [OF l] r] room by (simp add: has_room_def)
  moreover have "is_block ?b"
    using room recs_size_nonneg [of "rss ! nat l"]
    by (intro is_block_put_record) (simp_all add: has_room_def is_block_disk_block)
  ultimately have "dir_ok t F nd (rss[nat l := rss ! nat l @ [(name, v)]])"
    unfolding t_def by (rule dir_ok_write [OF F d l])
  then have ok: "dir_ok t F (child_more nd) (rss[nat l := rss ! nat l @ [(name, v)]])"
    by (subst dir_ok_same_blocks [OF same_blocks_child(1)]) (simp_all add: child_more_def)
  have "entry_added rss (name, v) (rss[nat l := rss ! nat l @ [(name, v)]])"
  proof -
    have "\<not> has_room (rss ! k) (name, v)" if "k < nat l" for k using first that by (auto dest: spec [of _ "int k"])
    then show ?thesis unfolding entry_added_def using room l dd(4) by (intro disjI1 exI [of _ "nat l"]) auto
  qed
  moreover have "only_changes (insert 0 F \<union> block_at s nd ` used (i_blocks_num nd)) s t"
    by (rule only_changes_mono [OF w(6)]) (use pos_of_mem [OF l] in \<open>auto simp: file_block_def\<close>)
  moreover obtain sb where "altfs_superblock s = Ptr sb" using F by (auto simp: freelist_def)
  then have "head_only s t" using w(7) by (auto intro: head_only_refl)
  moreover have "block_at t (child_more nd) ` used (i_blocks_num nd) = block_at s nd ` used (i_blocks_num nd)"
    using w(3) by (simp add: same_blocks_at [of nd "child_more nd"])
  ultimately show ?thesis
    using ok w(1,8) unfolding dir_grown_def
    by (auto simp: child_more_def dir_attrs_def attrs_def)
qed

lemma add_in_new_block_run:
  assumes F: "freelist s F" "4 \<le> card F" and d: "dir_ok s F nd rss" and r: "dirent_ok (name, v)"
    and n: "i_blocks_num nd < MAX_FILE_BLOCKS" and full: "\<forall>rs \<in> set rss. \<not> has_room rs (name, v)"
  shows "\<exists>nd' t G. add_in_new_block nd v name s = Some (True, nd', t)
    \<and> dir_grown s F nd rss (name, v) t G nd' (rss @ [[(name, v)]])"
proof -
  note dd = dir_okD [OF d]
  define N where "N = i_blocks_num nd"
  have m: "mounted s" and ne: "F \<noteq> {}" using freelist_mounted [OF F(1)] F(2) by auto
  have tr: "tree_ok s F nd (used N)" "0 \<le> N" using dd(1) by (simp_all add: file_ok_def N_def)
  obtain b t where t: "allocate_data_block s = Some (b, t)" "b \<in> F" "freelist t (F - {b})"
    "only_changes (insert 0 F) s t" "head_only s t" "superblock_synced s \<longrightarrow> superblock_synced t"
    using allocate_data_block_free [OF F(1) ne] by blast
  have out: "block_at s nd q \<notin> insert 0 F" if "q \<in> used N" for q
    using tree_ok_facts [OF tr(1) that] data_block_valid [OF m, of 0] by auto
  have bs: "data_block s b" "0 < b" using freelist_data_block [OF F(1) t(2)] data_block_valid [OF m] by auto
  have mt: "mounted t" using freelist_mounted [OF t(3)] .
  have bt: "data_block t b" using bs(1) by (simp add: only_changes_geometry [OF t(4)])
  let ?r = "put_record zero_buf 0 v name"
  define u where "u = upd_block t b ?r"
  have ub: "disk_block u k = (if k = b then clip ?r else disk_block t k)" for k
    unfolding u_def using mt by (simp add: mem_simps)
  have chu: "only_changes {b} t u" unfolding u_def using mt by (simp add: only_changes_upd)
  have sbu: "altfs_superblock u = altfs_superblock t" by (simp add: u_def)
  obtain sb where sb: "altfs_superblock t = Ptr sb" "superblock_ok sb" using t(3) by (auto simp: freelist_def)
  have fu: "freelist u (F - {b})"
    by (rule freelist_unaffected [OF t(3) chu _ sb(1) _ sb(2)]) (use sb(1) sbu in auto)
  have su: "only_changes (insert 0 F) s u"
    by (rule only_changes_trans_same [OF t(4) only_changes_mono [OF chu]]) (use t(2) in blast)
  have ou: "block_at s nd q \<notin> insert 0 F" if "q \<in> used (i_blocks_num nd)" for q
    using out that by (simp add: N_def)
  have subF: "block_at s nd q \<notin> F - {b}" if "q \<in> used (i_blocks_num nd)" for q
    using ou [OF that] by blast
  note fr = file_ok_frame [OF dd(1) su ou subF]
  have "b \<notin> block_at u nd ` used N" using fr(2) out t(2) by (auto simp: N_def)
  then have ad: "addable u (F - {b}) nd b"
    using bt by (simp add: addable_def N_def only_changes_geometry [OF chu])
  have "3 \<le> card (F - {b})" using F(2) t(2) finite_freelist [OF F(1)] by (simp add: card_Diff_singleton)
  then obtain nd1 w G where w: "add_datablock_to_inode nd b u = Some (True, nd1, w)" "block_added u (F - {b}) nd b w G nd1"
    using add_datablock_run [OF fu _ fr(1) n ad] by blast
  then have a: "freelist w G" "G \<subseteq> F - {b}" "i_blocks_num nd1 = N + 1" "file_ok w G nd1" "file_block w nd1 N = b"
    "\<And>q. q \<in> used N \<Longrightarrow> block_at w nd1 q = block_at u nd q"
    "insert b (F - {b} - G) = block_at w nd1 ` (used (N + 1) - used N)"
    "only_changes (insert 0 (F - {b}) \<union> block_at u nd ` used N) u w" "head_only u w"
    "superblock_synced u \<longrightarrow> superblock_synced w"
    "\<And>l. 0 \<le> l \<Longrightarrow> l < N \<Longrightarrow> disk_block w (file_block u nd l) = disk_block u (file_block u nd l)"
    "disk_block w b = disk_block u b" "attrs nd1 = attrs nd"
    unfolding block_added_def N_def by blast+
  define nd2 where "nd2 = child_more (nd1\<lparr>i_file_size := i_file_size nd1 + 4096\<rparr>)"
  have sb2: "same_blocks nd1 nd2" "i_mode nd2 = i_mode nd1" "i_blocks_num nd2 = N + 1"
    by (simp_all add: nd2_def same_blocks_def child_more_def a(3))
  have run: "add_in_new_block nd v name s = Some (True, nd2, w)"
    using t(1) bs(2) mt bt w(1) by (simp add: add_in_new_block_def run u_def [symmetric] nd2_def)
  have fb: "file_block w nd1 k = file_block s nd k \<and> disk_block w (file_block s nd k) = disk_block s (file_block s nd k)"
    if k: "0 \<le> k" "k < N" for k
  proof -
    have "file_block w nd1 k = file_block u nd k" using a(6) pos_of_mem [OF k] by (simp add: file_block_def)
    then show ?thesis using fr(3) [of k] a(11) [OF k] k by (simp add: N_def)
  qed
  have isb: "is_block ?r" using rec_size_pos r by (intro is_block_put_record) (auto simp: rec_size_def dirent_ok_def)
  have "holds (disk_block w (file_block w nd1 k)) ((rss @ [[(name, v)]]) ! nat k)" if k: "0 \<le> k" "k < N + 1" for k
  proof (cases "k = N")
    case True
    have "holds ?r [(name, v)]"
      using holds_put_record [OF holds_zero r] r by (simp add: rec_size_def dirent_ok_def)
    moreover have "nat N = length rss" using dd(4) by (simp add: N_def)
    ultimately show ?thesis using isb by (simp add: True a(5,12) ub nth_append)
  next
    case False
    then have "0 \<le> k" "k < N" using k by auto
    then show ?thesis using fb dd(4) dd(5) [of k] by (simp add: nth_append N_def nat_less_iff)
  qed
  then have "dir_ok w G nd1 (rss @ [[(name, v)]])"
    using a(3,4) n dd(2,4) attrs_fields(1) [OF a(13)] by (simp add: dir_ok_def N_def)
  then have ok: "dir_ok w G nd2 (rss @ [[(name, v)]])" by (simp only: dir_ok_same_blocks [OF sb2(1,2)])
  have blk: "block_at w nd2 = block_at w nd1" by (rule same_blocks_at [OF sb2(1)])
  have "used (N + 1) = used N \<union> (used (N + 1) - used N)" using used_Suc [OF tr(2)] by blast
  then have "block_at w nd1 ` used (N + 1) = block_at w nd1 ` used N \<union> insert b (F - {b} - G)"
    using a(7) by (metis image_Un)
  moreover have "block_at w nd1 ` used N = block_at s nd ` used N" using a(6) fr(2) by (auto simp: N_def image_iff)
  ultimately have im: "G \<union> block_at w nd2 ` used (i_blocks_num nd2) = F \<union> block_at s nd ` used (i_blocks_num nd)"
    using a(2) t(2) by (auto simp: blk sb2(3) N_def [symmetric])
  have ch: "only_changes (insert 0 F \<union> block_at s nd ` used (i_blocks_num nd)) s w"
    by (rule only_changes_trans_same [OF only_changes_mono [OF su] only_changes_mono [OF a(8)]])
      (use fr(2) in \<open>auto simp: N_def\<close>)
  have ho: "head_only s w" using t(5) a(9) by (auto simp: head_only_def sbu)
  have sy: "superblock_synced s \<longrightarrow> superblock_synced w"
    using t(6) a(10) bs(2) by (auto simp: superblock_synced_def sbu ub)
  have at: "i_child_num nd1 = i_child_num nd" "i_file_size nd1 = i_file_size nd"
    using attrs_fields [OF a(13)] by simp_all
  have da: "dir_attrs nd2 = dir_attrs nd" using a(13) by (simp add: dir_attrs_def nd2_def child_more_def attrs_def)
  have "entry_added rss (name, v) (rss @ [[(name, v)]])" using full by (simp add: entry_added_def)
  then have "dir_grown s F nd rss (name, v) w G nd2 (rss @ [[(name, v)]])"
    unfolding dir_grown_def using a(1,2) ok at ch ho sy im da
    by (intro conjI) (auto simp: nd2_def child_more_def a(3) N_def)
  then show ?thesis using run by blast
qed

text \<open>A new block is needed only where no block has room.\<close>

theorem add_directory_entry_run:
  assumes F: "freelist s F" and d: "dir_ok s F nd rss" and r: "dirent_ok (name, v)"
    and room: "(\<exists>rs \<in> set rss. has_room rs (name, v)) \<or> 4 \<le> card F \<and> i_blocks_num nd < MAX_FILE_BLOCKS"
  shows "\<exists>nd' t G rss'. add_directory_entry nd v name s = Some (True, nd', t)
    \<and> dir_grown s F nd rss (name, v) t G nd' rss'"
proof -
  note dd = dir_okD [OF d]
  have m: "mounted s" using F by (rule freelist_mounted)
  have len: "length name \<le> 255" using r by (simp add: dirent_ok_def)
  from add_loop_run [OF m d, of v name] show ?thesis
  proof (elim disjE exE conjE)
    fix prev
    assume loop: "for_loop 0 (i_blocks_num nd) (add_to_block nd v name) (0, s) = Some (Next (prev, s))"
      and none: "\<forall>k. 0 \<le> k \<and> k < i_blocks_num nd \<longrightarrow> \<not> has_room (rss ! nat k) (name, v)"
    have "\<forall>rs \<in> set rss. \<not> has_room rs (name, v)"
    proof
      fix rs assume "rs \<in> set rss"
      then obtain k where "k < length rss" "rs = rss ! k" by (auto simp: in_set_conv_nth)
      then show "\<not> has_room rs (name, v)" using none dd(4) by (auto dest: spec [of _ "int k"])
    qed
    then have "4 \<le> card F" "i_blocks_num nd < MAX_FILE_BLOCKS" using room by blast+
    from add_in_new_block_run [OF F this(1) d r this(2) \<open>\<forall>rs \<in> set rss. \<not> has_room rs (name, v)\<close>] show ?thesis
      using loop dd(2) len by (fastforce simp: add_directory_entry_def)
  next
    fix l prev
    assume l: "0 \<le> l" "l < i_blocks_num nd" and rm: "has_room (rss ! nat l) (name, v)"
      and first: "\<forall>k. 0 \<le> k \<and> k < l \<longrightarrow> \<not> has_room (rss ! nat k) (name, v)"
      and loop: "for_loop 0 (i_blocks_num nd) (add_to_block nd v name) (0, s) = Some (Return True (prev,
          upd_block s (file_block s nd l)
            (put_record (disk_block s (file_block s nd l)) (recs_size (rss ! nat l)) v name)))"
    show ?thesis
      using add_in_block [OF F d l r rm first] loop dd(2) len
      by (fastforce simp: add_directory_entry_def)
  qed
qed

lemma add_directory_entry_refuses:
  "\<not> S_ISDIR (i_mode nd) \<or> 255 < length name \<Longrightarrow> add_directory_entry nd v name s = Some (False, nd, s)"
  by (auto simp: add_directory_entry_def)

section \<open>Removing an entry\<close>

theorem remove_directory_entry_run:
  assumes F: "freelist s F" and d: "dir_ok s F nd rss" and fp: "get_file_position_in_dir name nd s = Some fp"
    and at: "found_at s nd rss name l fp"
  shows "\<exists>nd' t. remove_directory_entry now nd name s = Some (True, nd', t)
    \<and> nd' = child_less (nd\<lparr>i_ctime := now, i_mtime := now\<rparr>)
    \<and> t = upd_block s (file_block s nd l) (cut_record (disk_block s (file_block s nd l)) (offset fp))
    \<and> freelist t F \<and> dir_ok t F nd' (rss[nat l := del_first name (rss ! nat l)])"
proof -
  note dd = dir_okD [OF d]
  have l: "0 \<le> l" "l < i_blocks_num nd" "p_plock_num fp = file_block s nd l"
    "p_block fp = Some (disk_block s (file_block s nd l))" "rec_pos 0 (rss ! nat l) name = Some (offset fp)"
    using at by (simp_all add: found_at_def)
  have m: "mounted s" using F by (rule freelist_mounted)
  let ?b = "disk_block s (file_block s nd l)"
  let ?c = "cut_record ?b (offset fp)"
  let ?nd = "child_less (nd\<lparr>i_ctime := now, i_mtime := now\<rparr>)"
  obtain xs r ys where rs: "rss ! nat l = xs @ r # ys" "offset fp = recs_size xs"
    using rec_pos_split [OF l(5)] by auto
  have h: "holds ?b (rss ! nat l)" using dd(5) l(1,2) by blast
  then have "record_at ?b (offset fp) r" by (simp add: holds_def rs recs_append)
  then have o: "0 \<le> offset fp" "0 \<le> get_le 2 ?b (offset fp)"
    using recs_size_nonneg [of xs] get_le_range [of 2 ?b] by (simp_all add: rs(2))
  have "offset fp \<le> 4096"
    using h recs_size_nonneg [of "r # ys"] by (simp add: holds_def rs)
  then have "is_block ?c" using o by (intro is_block_cut_record) simp_all
  moreover have "holds ?c (del_first name (rss ! nat l))" by (rule holds_cut_record [OF h l(5)])
  ultimately have ok: "dir_ok (upd_block s (file_block s nd l) ?c) F nd (rss[nat l := del_first name (rss ! nat l)])"
    by (intro dir_ok_write [OF F d l(1,2)])
  have sb: "same_blocks nd ?nd" "i_mode ?nd = i_mode nd" by (simp_all add: same_blocks_def child_less_def)
  have "remove_directory_entry now nd name s = Some (True, ?nd, upd_block s (file_block s nd l) ?c)"
    using fp l o(1) file_block_data [OF m dd(1) l(1,2)] m
    by (simp add: remove_directory_entry_def cut_record_def Let_def run)
  then show ?thesis
    using ok write_content(1) [OF F dd(1) l(1,2)] by (simp add: dir_ok_same_blocks [OF sb])
qed

section \<open>The entries of a directory\<close>

text \<open>A directory as a list of names and inode numbers.\<close>

lemma map_of_concat:
  assumes "l < length rss" "\<And>k. k < l \<Longrightarrow> map_of (rss ! k) name = None" "map_of (rss ! l) name = Some v"
  shows "map_of (concat rss) name = Some v"
  using assms
proof (induction rss arbitrary: l)
  case (Cons rs rss)
  show ?case
  proof (cases l)
    case 0
    then show ?thesis using Cons.prems by (simp add: map_add_def)
  next
    case (Suc k)
    have tl: "map_of (rss ! j) name = None" if "j < k" for j using Cons.prems(2) [of "Suc j"] that Suc by simp
    have "map_of (concat rss) name = Some v"
      using Cons.prems Suc by (intro Cons.IH [of k] tl) auto
    moreover have "map_of rs name = None" using Cons.prems(2) [of 0] Suc by simp
    ultimately show ?thesis by (simp add: map_add_def)
  qed
qed simp

lemma map_of_concat_None:
  "(\<And>rs. rs \<in> set rss \<Longrightarrow> map_of rs name = None) \<Longrightarrow> map_of (concat rss) name = None"
  by (induction rss) (auto simp: map_add_def)

lemma concat_del_first:
  assumes "l < length rss" "\<And>k. k < l \<Longrightarrow> map_of (rss ! k) name = None" "map_of (rss ! l) name = Some v"
  shows "concat (rss[l := del_first name (rss ! l)]) = del_first name (concat rss)"
  using assms
proof (induction rss arbitrary: l)
  case (Cons rs rss)
  have del: "del_first name (xs @ ys) = (if name \<in> fst ` set xs then del_first name xs @ ys else xs @ del_first name ys)" for xs ys :: "dirent list"
    by (induction xs) auto
  show ?case
  proof (cases l)
    case 0
    then have "name \<in> fst ` set rs" using Cons.prems(3) by (force dest: map_of_SomeD)
    then show ?thesis using 0 by (simp add: del)
  next
    case (Suc k)
    have tl: "map_of (rss ! j) name = None" if "j < k" for j using Cons.prems(2) [of "Suc j"] that Suc by simp
    have "concat (rss[k := del_first name (rss ! k)]) = del_first name (concat rss)"
      using Cons.prems Suc by (intro Cons.IH tl) auto
    moreover have "name \<notin> fst ` set rs" using Cons.prems(2) [of 0] Suc by (simp add: map_of_eq_None_iff)
    ultimately show ?thesis using Suc by (simp add: del)
  qed
qed simp

lemma mset_concat_upd:
  "l < length rss \<Longrightarrow> mset (concat (rss[l := rss ! l @ [r]])) = add_mset r (mset (concat rss))"
proof (induction rss arbitrary: l)
  case (Cons rs rss)
  then show ?case by (cases l) auto
qed simp

lemma entry_added_mset: "entry_added rss r rss' \<Longrightarrow> mset (concat rss') = add_mset r (mset (concat rss))"
  by (auto simp: entry_added_def mset_concat_upd)

lemma map_of_mset:
  assumes "mset xs = mset ys" "distinct (map fst xs)"
  shows "map_of xs = map_of ys"
proof -
  have "distinct (map fst ys)" "set xs = set ys"
    using assms by (metis mset_map distinct_count_atmost_1 set_mset_mset, metis set_mset_mset)
  then show ?thesis using assms(2) by (intro map_of_inject_set [THEN iffD2])
qed

lemma entry_added_map:
  assumes "entry_added rss (name, v) rss'" "distinct (map fst (concat rss))" "map_of (concat rss) name = None"
  shows "map_of (concat rss') = (map_of (concat rss))(name \<mapsto> v)" "distinct (map fst (concat rss'))"
proof -
  have m: "mset ((name, v) # concat rss) = mset (concat rss')" using entry_added_mset [OF assms(1)] by simp
  have d: "distinct (map fst ((name, v) # concat rss))" using assms(2,3) by (simp add: map_of_eq_None_iff)
  show "map_of (concat rss') = (map_of (concat rss))(name \<mapsto> v)" using map_of_mset [OF m d] by simp
  show "distinct (map fst (concat rss'))" using m d by (metis mset_map distinct_count_atmost_1 set_mset_mset)
qed

lemma found_at_value:
  assumes "dir_ok s F nd rss" "found_at s nd rss name l fp"
  shows "map_of (concat rss) name = Some (to_ssize (get_le 8 (the (p_block fp)) (offset fp + 2)))" "0 \<le> offset fp"
    "concat (rss[nat l := del_first name (rss ! nat l)]) = del_first name (concat rss)"
proof -
  note dd = dir_okD [OF assms(1)]
  have l: "0 \<le> l" "l < i_blocks_num nd" "p_block fp = Some (disk_block s (file_block s nd l))"
    "rec_pos 0 (rss ! nat l) name = Some (offset fp)" "nat l < length rss"
    and none: "\<forall>k. 0 \<le> k \<and> k < l \<longrightarrow> map_of (rss ! nat k) name = None"
    using assms(2) dd(4) by (auto simp: found_at_def)
  have before: "map_of (rss ! k) name = None" if "k < nat l" for k
    using spec [OF none, of "int k"] that by simp
  have v: "map_of (rss ! nat l) name = Some (to_ssize (get_le 8 (the (p_block fp)) (offset fp + 2)))"
    using rec_pos_value [OF _ l(4)] dd(5) [OF l(1,2)] l(3) by (simp add: holds_def)
  show "map_of (concat rss) name = Some (to_ssize (get_le 8 (the (p_block fp)) (offset fp + 2)))"
    by (rule map_of_concat [OF l(5) before v])
  show "concat (rss[nat l := del_first name (rss ! nat l)]) = del_first name (concat rss)"
    by (rule concat_del_first [OF l(5) before v])
  show "0 \<le> offset fp" using rec_pos_split [OF l(4)] recs_size_nonneg by auto
qed

end
