(* ===== verification/Path_Lookup.thy ===== *)
theory Path_Lookup
  imports Directory_Changes Inode_Table
begin

text \<open>
  The parts of a path (\<open>copy_parent_path\<close>, \<open>copy_file_name\<close>) and the lookup of a path (\<open>name_i\<close>)
  of \<open>src/directory_ops.c\<close>. The reference is \<open>resolve\<close>, which walks down the directories without a
  cache; \<open>name_i\<close> agrees with it whatever the cache holds, as long as the entries of the cache do.
\<close>

section \<open>The parts of a path\<close>

text \<open>A component of a path.\<close>

definition is_name :: "cstr \<Rightarrow> bool" where
  "is_name n \<longleftrightarrow> n \<noteq> [] \<and> slash \<notin> set n \<and> is_cstr n"

lemma last_index_scan_skip:
  assumes "k \<le> i" "\<And>j. k \<le> j \<Longrightarrow> j < i \<Longrightarrow> q ! j \<noteq> slash \<or> int j = n - 1"
  shows "last_index_scan q n i = last_index_scan q n k"
  using assms
proof (induction i)
  case (Suc i)
  then show ?case by (cases "k = Suc i") auto
qed simp

lemma last_index_name:
  assumes "slash \<notin> set n" "n \<noteq> []" "tail = [] \<or> tail = [slash]"
  shows "get_last_index_of_parent_path (xs @ slash # n @ tail) (int (length (xs @ slash # n @ tail))) = int (length xs)"
proof -
  let ?p = "xs @ slash # n @ tail"
  have "last_index_scan ?p (int (length ?p)) (length ?p) = last_index_scan ?p (int (length ?p)) (Suc (length xs))"
  proof (rule last_index_scan_skip)
    show "Suc (length xs) \<le> length ?p" by simp
    fix j assume j: "Suc (length xs) \<le> j" "j < length ?p"
    define i where "i = j - Suc (length xs)"
    have i: "j = Suc (length xs) + i" "i < length (n @ tail)" using j by (auto simp: i_def)
    then have "?p ! j = (n @ tail) ! i" by (simp add: nth_append)
    moreover have "i < length n \<Longrightarrow> (n @ tail) ! i \<noteq> slash"
      using assms(1) by (metis nth_append nth_mem)
    moreover have "\<not> i < length n \<Longrightarrow> int j = int (length ?p) - 1"
      using i assms(3) by auto
    ultimately show "?p ! j \<noteq> slash \<or> int j = int (length ?p) - 1" by auto
  qed
  also have "int (length n) + int (length tail) \<noteq> 0" using assms(2) length_greater_0_conv [of n] by linarith
  then have "last_index_scan ?p (int (length ?p)) (Suc (length xs)) = int (length xs)" by (simp add: nth_append)
  finally show ?thesis by (simp only: get_last_index_of_parent_path_def nat_int)
qed

lemma copy_parent_run:
  assumes "is_name n" "tail = [] \<or> tail = [slash]"
  shows "copy_parent_path (xs @ slash # n @ tail) = Some (if xs = [] then [slash] else xs)"
  using assms last_index_name [of n tail xs] by (auto simp: copy_parent_path_def is_name_def Let_def)

lemma copy_name_run:
  assumes "is_name n" "tail = [] \<or> tail = [slash]"
  shows "copy_file_name (xs @ slash # n @ tail) = Some n"
proof -
  have n: "slash \<notin> set n" "n \<noteq> []" using assms(1) by (simp_all add: is_name_def)
  note i = last_index_name [OF n assms(2), of xs]
  let ?p = "xs @ slash # n @ tail"
  have "?p ! (length ?p - 1) = slash \<longleftrightarrow> tail = [slash]"
  proof (cases "tail = []")
    case True
    then have "?p ! (length ?p - 1) = last n" using n(2) by (simp add: last_conv_nth nth_append)
    moreover have "last n \<noteq> slash" using n last_in_set by metis
    ultimately show ?thesis using True by simp
  next
    case False
    then have "tail = [slash]" using assms(2) by simp
    then show ?thesis by (simp add: nth_append)
  qed
  moreover have "nat (int k - 1) = k - 1" for k by arith
  ultimately have s: "?p ! nat (int (length ?p) - 1) = slash \<longleftrightarrow> tail = [slash]"
    by (simp only:)
  show ?thesis
    using assms(2) i s by (auto simp: copy_file_name_def Let_def nat_add_distrib)
qed

text \<open>The path of a list of components.\<close>

definition path_of :: "cstr list \<Rightarrow> cstr" where
  "path_of ns = (if ns = [] then [slash] else concat (map (\<lambda>n. slash # n) ns))"

lemma path_of_snoc: "path_of (ns @ [n]) = (if ns = [] then [] else path_of ns) @ slash # n"
  by (simp add: path_of_def)

lemma path_parts:
  assumes "is_name n"
  shows "copy_parent_path (path_of (ns @ [n])) = Some (path_of ns)"
    "copy_file_name (path_of (ns @ [n])) = Some n"
  using copy_parent_run [OF assms, of "[]"] copy_name_run [OF assms, of "[]"]
  by (auto simp: path_of_snoc) (auto simp: path_of_def)

section \<open>The directories of a file system\<close>

text \<open>\<open>ents k\<close> are the records of the directory with inode number \<open>k\<close>.\<close>

definition dirs_ok :: "altfs \<Rightarrow> int set \<Rightarrow> (int \<Rightarrow> dirent list list) \<Rightarrow> bool" where
  "dirs_ok s F ents \<longleftrightarrow> table_ready s \<and> freelist s F \<and>
     (\<forall>k. inum_ok s k \<and> S_ISDIR (i_mode (inode_of s k)) \<longrightarrow> dir_ok s F (inode_of s k) (ents k)
        \<and> (\<forall>(n, v) \<in> set (concat (ents k)). inum_ok s v))"

definition dir_lookup :: "altfs \<Rightarrow> (int \<Rightarrow> dirent list list) \<Rightarrow> int \<Rightarrow> cstr \<Rightarrow> int option" where
  "dir_lookup s ents k name =
     (if S_ISDIR (i_mode (inode_of s k)) then map_of (concat (ents k)) name else None)"

lemma dir_lookup_valid:
  "dirs_ok s F ents \<Longrightarrow> inum_ok s k \<Longrightarrow> dir_lookup s ents k name = Some v \<Longrightarrow> inum_ok s v"
  by (fastforce simp: dirs_ok_def dir_lookup_def split: if_splits dest: map_of_SomeD)

lemma dirent_names:
  assumes "dir_ok s F nd rss" "(n, v) \<in> set (concat rss)"
  shows "dirent_ok (n, v)"
proof -
  have "dirent_ok r" if "recs b p rs" "r \<in> set rs" for b p rs r
    using that by (induction rs arbitrary: p) (auto simp: record_at_def)
  moreover obtain rs where "rs \<in> set rss" "(n, v) \<in> set rs" using assms(2) by auto
  then obtain l where "l < length rss" "(n, v) \<in> set (rss ! l)" by (auto simp: in_set_conv_nth [of rs])
  moreover have "holds (disk_block s (file_block s nd (int l))) (rss ! l)"
    using dir_okD(4) [OF assms(1)] dir_okD(5) [OF assms(1), of "int l"] \<open>l < length rss\<close> by simp
  ultimately show ?thesis by (auto simp: holds_def)
qed

lemma inum_in_parent_run:
  assumes ok: "dirs_ok s F ents" and k: "inum_ok s k" and n: "copy_file_name q = Some name"
  shows "inum_in_parent q k s = Some (dir_lookup s ents k name)"
proof -
  have rd: "table_ready s" "freelist s F" using ok by (simp_all add: dirs_ok_def)
  have m: "mounted s" using rd(2) by (rule freelist_mounted)
  let ?nd = "inode_of s k"
  show ?thesis
  proof (cases "S_ISDIR (i_mode ?nd)")
    case False
    then show ?thesis
      using rd k n by (simp add: inum_in_parent_def run get_file_position_in_dir_def dir_lookup_def Let_def)
  next
    case True
    then have d: "dir_ok s F ?nd (ents k)" using ok k by (simp add: dirs_ok_def)
    show ?thesis
    proof (cases "length name \<le> 255")
      case False
      have "map_of (concat (ents k)) name = None"
        using dirent_names [OF d] False by (fastforce simp: map_of_eq_None_iff dirent_ok_def)
      then show ?thesis
        using rd k n True False by (simp add: inum_in_parent_def run get_file_position_in_dir_def dir_lookup_def Let_def)
    next
      case len: True
      obtain fp where fp: "get_file_position_in_dir name ?nd s = Some fp"
        "offset fp = -1 \<and> (\<forall>l. 0 \<le> l \<and> l < i_blocks_num ?nd \<longrightarrow> map_of (ents k ! nat l) name = None)
         \<or> (\<exists>l. found_at s ?nd (ents k) name l fp)"
        using get_file_position_run [OF m d len] by blast
      from fp(2) show ?thesis
      proof (elim disjE exE conjE)
        assume none: "offset fp = -1" "\<forall>l. 0 \<le> l \<and> l < i_blocks_num ?nd \<longrightarrow> map_of (ents k ! nat l) name = None"
        have "map_of (concat (ents k)) name = None"
        proof (rule map_of_concat_None)
          fix rs assume "rs \<in> set (ents k)"
          then obtain l where "l < length (ents k)" "rs = ents k ! l" by (auto simp: in_set_conv_nth)
          then show "map_of rs name = None"
            using spec [OF none(2), of "int l"] dir_okD(4) [OF d] by simp
        qed
        then show ?thesis
          using rd k n True fp(1) none(1) by (simp add: inum_in_parent_def run dir_lookup_def)
      next
        fix l assume at: "found_at s ?nd (ents k) name l fp"
        note v = found_at_value [OF d at]
        obtain b where "p_block fp = Some b" using at by (auto simp: found_at_def)
        then show ?thesis
          using rd k n True fp(1) v by (simp add: inum_in_parent_def run dir_lookup_def)
      qed
    qed
  qed
qed

section \<open>The lookup of a path\<close>

function resolve :: "(int \<Rightarrow> cstr \<Rightarrow> int option) \<Rightarrow> cstr \<Rightarrow> int" where
  "resolve D p =
     (if p = [slash] then ROOT_INODE_NUM
      else case copy_parent_path p of
          None \<Rightarrow> -1
        | Some parent \<Rightarrow> (let k = resolve D parent in
            if k = -1 then -1
            else case copy_file_name p of
                None \<Rightarrow> -1
              | Some name \<Rightarrow> (case D k name of None \<Rightarrow> -1 | Some v \<Rightarrow> v)))"
  by pat_completeness auto
termination
  by (relation "measure (\<lambda>(_, p). length p)") (auto dest: parent_shorter)

declare resolve.simps [simp del]

text \<open>The components of a path from the root.\<close>

fun walk_down :: "(int \<Rightarrow> cstr \<Rightarrow> int option) \<Rightarrow> int \<Rightarrow> cstr list \<Rightarrow> int option" where
  "walk_down D k [] = Some k"
| "walk_down D k (n # ns) = (case D k n of None \<Rightarrow> None | Some v \<Rightarrow> walk_down D v ns)"

lemma walk_down_snoc:
  "walk_down D k (ns @ [n]) = (case walk_down D k ns of None \<Rightarrow> None | Some v \<Rightarrow> D v n)"
  by (induction ns arbitrary: k) (auto split: option.splits)

lemma resolve_path_of:
  assumes "\<forall>n \<in> set ns. is_name n" "\<And>ns v. walk_down D ROOT_INODE_NUM ns = Some v \<Longrightarrow> v \<noteq> -1"
  shows "resolve D (path_of ns) = (case walk_down D ROOT_INODE_NUM ns of None \<Rightarrow> -1 | Some v \<Rightarrow> v)"
  using assms(1)
proof (induction ns rule: rev_induct)
  case Nil
  then show ?case by (subst resolve.simps) (simp add: path_of_def)
next
  case (snoc n ns)
  have n: "is_name n" using snoc.prems by simp
  have "path_of (ns @ [n]) \<noteq> [slash]"
    using n by (auto simp: path_of_snoc is_name_def path_of_def Cons_eq_append_conv append_eq_Cons_conv)
  moreover have "v \<noteq> -1" if "walk_down D ROOT_INODE_NUM ns = Some v" for v using assms(2) that .
  ultimately show ?case
    using snoc path_parts [OF n, of ns] by (subst resolve.simps) (auto simp: walk_down_snoc split: option.splits)
qed

lemma walk_down_valid:
  "dirs_ok s F ents \<Longrightarrow> inum_ok s k \<Longrightarrow> walk_down (dir_lookup s ents) k ns = Some v \<Longrightarrow> inum_ok s v"
  by (induction ns arbitrary: k) (auto split: option.splits dest: dir_lookup_valid)

lemma resolve_valid:
  assumes "dirs_ok s F ents" "inum_ok s 2"
  shows "resolve (dir_lookup s ents) p = -1 \<or> inum_ok s (resolve (dir_lookup s ents) p)"
proof (induction p rule: length_induct)
  case (1 p)
  show ?case
  proof (cases "copy_parent_path p")
    case (Some parent)
    then have "resolve (dir_lookup s ents) parent = -1 \<or> inum_ok s (resolve (dir_lookup s ents) parent)"
      using 1 parent_shorter by blast
    then show ?thesis
      using Some assms dir_lookup_valid [OF assms(1)]
      by (subst (1 2) resolve.simps) (auto simp: Let_def split: option.splits)
  qed (use assms(2) in \<open>subst (1 2) resolve.simps, simp\<close>)
qed

text \<open>What the cache may hold: what the walk over the directories would find.\<close>

definition cache_agrees :: "inode_cache option \<Rightarrow> (cstr \<Rightarrow> int) \<Rightarrow> bool" where
  "cache_agrees c R \<longleftrightarrow> cache_ok c \<and> (\<forall>(k, v) \<in> cache_content c. v = R k \<and> v \<noteq> -1)"

theorem name_i_run:
  assumes ok: "dirs_ok s F ents" "inum_ok s 2"
  defines "R \<equiv> resolve (dir_lookup s ents)"
  shows "fs_disk st = s \<Longrightarrow> cache_agrees (inodeCache st) R \<Longrightarrow> int (length p) \<le> cache_room (inodeCache st) \<Longrightarrow>
    \<exists>c. name_i p st = Some (R p, st\<lparr>inodeCache := c\<rparr>) \<and> cache_agrees c R
      \<and> cache_room (inodeCache st) - int (length p) \<le> cache_room c"
proof (induction p arbitrary: st rule: length_induct)
  case (1 p)
  show ?case
  proof (cases "p = [slash]")
    case True
    then show ?thesis using 1
      by (intro exI [of _ "inodeCache st"]) (simp add: name_i.simps [of "[_]"] R_def resolve.simps [of _ "[_]"])
  next
    case root: False
    then have nr: "\<not> (length p = 1 \<and> p ! 0 = slash)" by (cases p) auto
    have Rp: "R p = (case copy_parent_path p of None \<Rightarrow> -1
        | Some parent \<Rightarrow> (if R parent = -1 then -1
            else case copy_file_name p of None \<Rightarrow> -1
              | Some name \<Rightarrow> (case dir_lookup s ents (R parent) name of None \<Rightarrow> -1 | Some v \<Rightarrow> v)))"
      using root unfolding R_def by (subst resolve.simps) (simp add: Let_def split: option.split)
    obtain v c1 where g: "get_cache_entry (inodeCache st) (Some p) = Some (v, c1)" "v = -1 \<or> v = R p"
      "cache_agrees c1 R" "cache_room c1 = cache_room (inodeCache st)"
    proof (cases "p = []")
      case True
      have "get_cache_entry (inodeCache st) (Some []) = Some (-1, inodeCache st)"
        by (cases "inodeCache st") (simp_all add: get_cache_entry_def)
      then show ?thesis using True that 1 by blast
    next
      case False
      have P: "cache_ok (inodeCache st)" "\<forall>(k, v) \<in> cache_content (inodeCache st). v = R k \<and> v \<noteq> -1"
        using "1.prems"(2) by (auto simp: cache_agrees_def)
      obtain v c1 where "get_cache_entry (inodeCache st) (Some p) = Some (v, c1)" "cache_ok c1"
        "v = -1 \<or> (v = R p \<and> v \<noteq> -1)" "\<forall>(k, v) \<in> cache_content c1. v = R k \<and> v \<noteq> -1"
        "cache_room c1 = cache_room (inodeCache st)"
        using inode_numbers.get_keeps [OF P(1) False P(2)] .
      then show ?thesis using that [of v c1] unfolding cache_agrees_def by blast
    qed
    show ?thesis
    proof (cases "0 < v")
      case True
      then show ?thesis using g nr by (intro exI [of _ c1]) (auto simp: name_i.simps [of p])
    next
      case nv: False
      show ?thesis
      proof (cases "copy_parent_path p")
        case None
        then show ?thesis using g nr nv Rp by (intro exI [of _ c1]) (auto simp: name_i.simps [of p])
      next
        case (Some parent)
        have sh: "length parent < length p" by (rule parent_shorter [OF Some])
        obtain c2 where c2: "name_i parent (st\<lparr>inodeCache := c1\<rparr>) = Some (R parent, st\<lparr>inodeCache := c2\<rparr>)"
          "cache_agrees c2 R" "cache_room c1 - int (length parent) \<le> cache_room c2"
          using "1.IH" [rule_format, OF sh, of "st\<lparr>inodeCache := c1\<rparr>"] 1 g(3,4) sh by auto
        show ?thesis
        proof (cases "R parent = -1")
          case True
          then show ?thesis using g c2 nr nv Rp Some sh
            by (intro exI [of _ c2]) (auto simp: name_i.simps [of p])
        next
          case pv: False
          then have k: "inum_ok s (R parent)" using resolve_valid [OF ok] by (auto simp: R_def)
          obtain name where name: "copy_file_name p = Some name"
            using Some by (auto simp: copy_parent_path_def copy_file_name_def Let_def split: if_splits)
          have inum: "inum_in_parent p (R parent) s = Some (dir_lookup s ents (R parent) name)"
            by (rule inum_in_parent_run [OF ok(1) k name])
          show ?thesis
          proof (cases "dir_lookup s ents (R parent) name")
            case None
            then show ?thesis using g c2 nr nv Rp Some sh pv name inum "1.prems"
              by (intro exI [of _ c2]) (auto simp: name_i.simps [of p])
          next
            case v: (Some w)
            then have Rw: "R p = w" using Rp Some pv name by simp
            have w: "w \<noteq> -1" using dir_lookup_valid [OF ok(1) k v] by (simp add: inum_ok_def)
            have "p \<noteq> []" "0 < cache_room c2" using sh c2(3) g(4) "1.prems" by auto
            moreover have P: "cache_ok c2" "\<forall>(k, v) \<in> cache_content c2. v = R k \<and> v \<noteq> -1" "R p = R p \<and> R p \<noteq> -1"
              using c2(2) Rw w by (auto simp: cache_agrees_def)
            ultimately obtain c3 where "set_cache_entry c2 (Some p) (R p) = Some c3" "cache_ok c3"
              "\<forall>(k, v) \<in> cache_content c3. v = R k \<and> v \<noteq> -1" "cache_room c2 - 1 \<le> cache_room c3"
              using inode_numbers.set_keeps [OF P(1) _ _ P(2,3)] by blast
            then have c3: "set_cache_entry c2 (Some p) (R p) = Some c3" "cache_agrees c3 R"
              "cache_room c2 - 1 \<le> cache_room c3" unfolding cache_agrees_def by blast+
            from c3 show ?thesis using g c2 nr nv Rw v Some sh pv inum "1.prems"
              by (intro exI [of _ c3]) (auto simp: name_i.simps [of p])
          qed
        qed
      qed
    qed
  qed
qed

end
