(* ===== verification/Mounting.thy ===== *)
theory Mounting
  imports Inode_Table
begin

text \<open>
  The state \<open>altfs_makefs\<close> leaves behind, the reload of the superblock of an existing file system
  (\<open>load_superblock\<close>, \<open>teardown\<close> of \<open>src/superblock_layer.c\<close>) and the smallest disk on which the
  examples of the development run.
\<close>

section \<open>A fresh file system\<close>

definition empty_inode :: inode where
  "empty_inode = \<lparr>i_mode = 0, i_uid = 0, i_gid = 0, i_status_change_time = 0, i_atime = 0, i_ctime = 0,
     i_mtime = 0, i_links_count = 0, i_file_size = 0, i_blocks_num = 0, i_allocated = False,
     i_direct_blocks = replicate 12 0, i_single_indirect = 0, i_double_indirect = 0,
     i_triple_indirect = 0, i_child_num = 0, i_padding = 0\<rparr>"

lemma get_list_zero_buf: "get_list n zero_buf p = replicate n 0"
  by (induction n arbitrary: p) (simp_all del: get_le.simps)

lemma inode_at_zero_buf: "inode_at zero_buf k = empty_inode"
  by (simp add: inode_at_def empty_inode_def Let_def get_list_zero_buf del: get_le.simps get_list.simps)

lemma empty_inode_fields [simp]:
  "i_blocks_num empty_inode = 0" "\<not> i_allocated empty_inode" "i_file_size empty_inode = 0"
  by (simp_all add: empty_inode_def)

lemma empty_inode_ok: "inode_ok empty_inode"
  using inode_ok_inode_at [of zero_buf 0] by (simp add: inode_at_zero_buf)

theorem makefs_fresh:
  assumes geo: "geometry_ok s" and n: "NUM_OF_DATA_BLOCKS s mod 512 \<noteq> 0"
  shows "\<exists>t. altfs_makefs True s = Some (True, t) \<and> FS_SIZE t = FS_SIZE s
    \<and> freelist t {n. data_block s n} \<and> superblock_synced t \<and> inode_table_inv t
    \<and> altfs_superblock t = Ptr (initial_superblock s)
    \<and> (\<forall>k. inum_ok s k \<longrightarrow> inode_of t k = empty_inode)"
proof -
  obtain t where t: "altfs_makefs True s = Some (True, t)" "FS_SIZE t = FS_SIZE s"
    "freelist t {n. data_block s n}" "superblock_synced t" "altfs_superblock t = Ptr (initial_superblock s)"
    "\<forall>n. inode_block s n \<longrightarrow> disk_block t n = zero_buf"
    using makefs_run [OF assms, of True] by (auto simp: altfs_makefs_def)
  have eq: "BLOCK_COUNT t = BLOCK_COUNT s" "INODE_BLOCK_COUNT t = INODE_BLOCK_COUNT s"
    using t(2) by (simp_all add: BLOCK_COUNT_def INODE_BLOCK_COUNT_def)
  have geot: "geometry_ok t" using geo eq t(2) by (simp add: geometry_ok_def)
  have free: "inode_of t k = empty_inode" if "inum_ok s k" for k
    using t(6) inum_block [OF that] by (simp add: inode_of_def inode_at_zero_buf)
  have "table_sb t (initial_superblock s)"
    using t(5) initial_superblock_ok [OF geo] by (simp add: table_sb_def eq initial_superblock_def)
  moreover have "1 \<le> INODE_BLOCK_COUNT s" using geo by (simp add: geometry_ok_def)
  then have "next_free t 3 (first_free (initial_superblock s))"
    using free [of 3] by (auto simp: next_free_def first_free_def initial_superblock_def inum_ok_def eq)
  ultimately have "inode_table_inv t"
    using geot freelist_mounted [OF t(3)] by (auto simp: inode_table_inv_def)
  then show ?thesis using t free by blast
qed

section \<open>Loading the superblock\<close>

lemma buf_zero_block: "is_block b \<Longrightarrow> buf_zero b \<longleftrightarrow> b = zero_buf"
proof
  assume b: "is_block b" and z: "buf_zero b"
  show "b = zero_buf"
  proof
    fix i show "b i = zero_buf i"
      using b z by (cases "0 \<le> i \<and> i < 4096") (auto simp: is_block_def buf_zero_def list_all_iff)
  qed
qed (simp add: buf_zero_def list_all_iff)

text \<open>A superblock that was written is found again after a restart, when nothing but the disk is
  left.\<close>

theorem load_written_superblock:
  assumes m: "mounted s" "geometry_ok s" and sb: "table_sb s sb"
  shows "\<exists>t. altfs_write_superblock s = Some (True, t)
    \<and> load_superblock (t\<lparr>altfs_superblock := Null\<rparr>) = Some (True, t)"
proof -
  let ?t = "sync_superblock s sb"
  note v0 = geometry_valid_0 [OF m(2)]
  have w: "altfs_write_superblock s = Some (True, ?t)"
    using m v0 sb by (simp add: table_sb_def run)
  have get: "get_superblock (put_superblock zero_buf sb) = sb"
    using sb by (simp add: table_sb_def mem_simps)
  have nz: "s_num_of_inodes_per_block sb = 18" "s_inodes_count sb = INODE_BLOCK_COUNT s * 18"
    "1 \<le> INODE_BLOCK_COUNT s" using sb m(2) by (simp_all add: table_sb_def geometry_ok_def)
  have "put_superblock zero_buf sb \<noteq> zero_buf"
  proof
    assume "put_superblock zero_buf sb = zero_buf"
    then have "sb = get_superblock zero_buf" using get by simp
    then have "s_num_of_inodes_per_block sb = 0" by (simp add: get_superblock_def)
    then show False using nz by simp
  qed
  then have "\<not> buf_zero (put_superblock zero_buf sb)" by (simp add: buf_zero_block)
  moreover have "?t\<lparr>altfs_superblock := Ptr sb\<rparr> = ?t"
    using sb by (simp add: table_sb_def)
  ultimately have "load_superblock (?t\<lparr>altfs_superblock := Null\<rparr>) = Some (True, ?t)"
    using m v0 nz get by (simp add: load_superblock_def run mem_simps)
  then show ?thesis using w by blast
qed

text \<open>A disk that holds no file system, or one of other dimensions, is refused.\<close>

theorem load_foreign_superblock:
  assumes m: "mounted s" "geometry_ok s"
    and bad: "disk_block s 0 = zero_buf
      \<or> s_num_of_inodes_per_block (get_superblock (disk_block s 0)) \<noteq> 18
      \<or> s_inodes_count (get_superblock (disk_block s 0)) \<noteq> INODE_BLOCK_COUNT s * 18"
  shows "load_superblock s = Some (False, s)"
  using bad m geometry_valid_0 [OF m(2)] buf_zero_block [of "disk_block s 0"]
  by (auto simp: load_superblock_def run)

end
