(* ===== verification/File_System.thy ===== *)
theory File_System
  imports Path_Lookup Block_Release Mounting
begin

text \<open>
  The invariant of the whole file system: the inode table, the free list and the files fit together.
  Every data block of the disk is free or belongs to exactly one file, inodes that are not allocated
  have no blocks and are no directories,
  and the entries of directories lead to inodes. The main lemma says what an operation on one file
  has to keep so that the invariant holds again when its inode is written.
\<close>

definition file_blocks :: "altfs \<Rightarrow> inode \<Rightarrow> int set" where
  "file_blocks s nd = block_at s nd ` used (i_blocks_num nd)"

definition fs_inv :: "altfs \<Rightarrow> int set \<Rightarrow> (int \<Rightarrow> dirent list list) \<Rightarrow> bool" where
  "fs_inv s F ents \<longleftrightarrow> inode_table_inv s \<and> freelist s F \<and> superblock_synced s \<and> inum_ok s 2
     \<and> (\<forall>k. inum_ok s k \<longrightarrow> file_ok s F (inode_of s k)
          \<and> (\<not> i_allocated (inode_of s k) \<longrightarrow> i_blocks_num (inode_of s k) = 0 \<and> \<not> S_ISDIR (i_mode (inode_of s k))))
     \<and> (\<forall>j k. inum_ok s j \<and> inum_ok s k \<and> j \<noteq> k \<longrightarrow>
          file_blocks s (inode_of s j) \<inter> file_blocks s (inode_of s k) = {})
     \<and> (\<forall>b. data_block s b \<longrightarrow> b \<in> F \<or> (\<exists>k. inum_ok s k \<and> b \<in> file_blocks s (inode_of s k)))
     \<and> (\<forall>k. inum_ok s k \<and> S_ISDIR (i_mode (inode_of s k)) \<longrightarrow> dir_ok s F (inode_of s k) (ents k)
          \<and> (\<forall>(n, v) \<in> set (concat (ents k)). inum_ok s v))"

text \<open>The contents of block \<open>l\<close> of a file, and that a file is the same in two states.\<close>

definition file_data :: "altfs \<Rightarrow> inode \<Rightarrow> int \<Rightarrow> buf" where
  "file_data s nd l = disk_block s (file_block s nd l)"

definition same_file :: "altfs \<Rightarrow> altfs \<Rightarrow> int \<Rightarrow> bool" where
  "same_file s t k \<longleftrightarrow> inode_of t k = inode_of s k
     \<and> (\<forall>l. 0 \<le> l \<and> l < i_blocks_num (inode_of s k) \<longrightarrow> file_data t (inode_of t k) l = file_data s (inode_of s k) l)"

lemma same_file_trans: "same_file s t k \<Longrightarrow> same_file t u k \<Longrightarrow> same_file s u k"
  by (auto simp: same_file_def)

lemma fs_invD:
  assumes "fs_inv s F ents"
  shows "inode_table_inv s" "freelist s F" "superblock_synced s" "inum_ok s 2"
    "\<And>k. inum_ok s k \<Longrightarrow> file_ok s F (inode_of s k)"
    "\<And>k. inum_ok s k \<Longrightarrow> \<not> i_allocated (inode_of s k) \<Longrightarrow>
       i_blocks_num (inode_of s k) = 0 \<and> \<not> S_ISDIR (i_mode (inode_of s k))"
    "\<And>j k. inum_ok s j \<Longrightarrow> inum_ok s k \<Longrightarrow> j \<noteq> k \<Longrightarrow>
       file_blocks s (inode_of s j) \<inter> file_blocks s (inode_of s k) = {}"
    "\<And>k. inum_ok s k \<Longrightarrow> S_ISDIR (i_mode (inode_of s k)) \<Longrightarrow> dir_ok s F (inode_of s k) (ents k)
       \<and> (\<forall>(n, v) \<in> set (concat (ents k)). inum_ok s v)"
    "\<And>b. data_block s b \<Longrightarrow> b \<in> F \<or> (\<exists>k. inum_ok s k \<and> b \<in> file_blocks s (inode_of s k))"
    "mounted s" "table_ready s" "dirs_ok s F ents"
  using assms freelist_mounted [of s F] inode_table_inv_ready [of s]
  unfolding fs_inv_def dirs_ok_def by blast+

lemma file_blocks_data:
  assumes "fs_inv s F ents" "inum_ok s k" "b \<in> file_blocks s (inode_of s k)"
  shows "data_block s b" "b \<notin> F" "b \<noteq> 0" "\<not> inode_block s b"
proof -
  have tr: "tree_ok s F (inode_of s k) (used (i_blocks_num (inode_of s k)))"
    using fs_invD(5) [OF assms(1,2)] by (simp add: file_ok_def)
  show b: "data_block s b" "b \<notin> F" using tree_ok_facts [OF tr] assms(3) by (auto simp: file_blocks_def)
  then show "b \<noteq> 0" "\<not> inode_block s b"
    using data_block_valid [OF fs_invD(10) [OF assms(1)]] data_block_not_inode by auto
qed

lemma next_free_agree:
  assumes "0 \<le> m" "\<And>j. inum_ok t j = inum_ok s j"
    and "\<And>j. inum_ok s j \<Longrightarrow> m \<le> j \<Longrightarrow> i_allocated (inode_of t j) = i_allocated (inode_of s j)"
  shows "next_free t m r = next_free s m r"
proof (cases r)
  case (Some k)
  have "inum_ok s j" if "m \<le> j" "j < k" "inum_ok s k" for j using that assms(1) by (simp add: inum_ok_def)
  then show ?thesis using assms(2,3) Some by (auto simp: next_free_def)
qed (use assms(2,3) in \<open>auto simp: next_free_def\<close>)

text \<open>A step that changes the blocks and the inode of file \<open>k\<close> only.\<close>

theorem fs_inv_change:
  assumes inv: "fs_inv s F ents" and k: "inum_ok s k"
    and tab: "inode_table_inv u" "freelist u G" "superblock_synced u"
    and G: "G \<union> file_blocks u nd = F \<union> file_blocks s (inode_of s k)"
    and ch: "only_changes (insert 0 F \<union> file_blocks s (inode_of s k) \<union> {n. inode_block s n}) s u"
    and nodes: "inode_of u k = nd" "\<And>j. inum_ok s j \<Longrightarrow> j \<noteq> k \<Longrightarrow> inode_of u j = inode_of s j"
    and nd: "file_ok u G nd" "\<not> i_allocated nd \<Longrightarrow> i_blocks_num nd = 0 \<and> \<not> S_ISDIR (i_mode nd)"
    and dir: "S_ISDIR (i_mode nd) \<Longrightarrow> dir_ok u G nd rss \<and> (\<forall>(n, v) \<in> set (concat rss). inum_ok s v)"
  shows "fs_inv u G (ents(k := rss))"
    "\<And>j. inum_ok s j \<Longrightarrow> j \<noteq> k \<Longrightarrow> same_file s u j"
proof -
  note iv = fs_invD [OF inv] and uk = nodes(1) and uj = nodes(2)
  let ?A = "insert 0 F \<union> file_blocks s (inode_of s k) \<union> {n. inode_block s n}"
  have io: "inum_ok u j = inum_ok s j" for j by (simp add: inum_ok_def only_changes_geometry [OF ch])
  have other: "block_at s (inode_of s j) q \<notin> ?A" "block_at s (inode_of s j) q \<notin> G"
    if "inum_ok s j" "j \<noteq> k" "q \<in> used (i_blocks_num (inode_of s j))" for j q
  proof -
    have b: "block_at s (inode_of s j) q \<in> file_blocks s (inode_of s j)" using that(3) by (simp add: file_blocks_def)
    then have "block_at s (inode_of s j) q \<notin> file_blocks s (inode_of s k)" using iv(7) [OF that(1) k that(2)] by blast
    then show "block_at s (inode_of s j) q \<notin> ?A" "block_at s (inode_of s j) q \<notin> G"
      using file_blocks_data [OF inv that(1) b] G by auto
  qed
  have fr: "file_ok u G (inode_of s j)"
    "\<And>q. q \<in> used (i_blocks_num (inode_of s j)) \<Longrightarrow> block_at u (inode_of s j) q = block_at s (inode_of s j) q"
    "\<And>l. 0 \<le> l \<Longrightarrow> l < i_blocks_num (inode_of s j) \<Longrightarrow> file_block u (inode_of s j) l = file_block s (inode_of s j) l
       \<and> disk_block u (file_block s (inode_of s j) l) = disk_block s (file_block s (inode_of s j) l)"
    if "inum_ok s j" "j \<noteq> k" for j
    using file_ok_frame [OF iv(5) [OF that(1)] ch other [OF that]] by blast+
  show "same_file s u j" if "inum_ok s j" "j \<noteq> k" for j
    using fr(3) [OF that] uj [OF that] by (simp add: same_file_def file_data_def)
  have bj: "file_blocks u (inode_of s j) = file_blocks s (inode_of s j)" if "inum_ok s j" "j \<noteq> k" for j
    using fr(2) [OF that] by (auto simp: file_blocks_def)
  have disj: "file_blocks u nd \<inter> file_blocks s (inode_of s j) = {}" if "inum_ok s j" "j \<noteq> k" for j
    using G iv(7) [OF that(1) k that(2)] file_blocks_data(2) [OF inv that(1)] by blast
  have files: "file_ok u G (inode_of u j)"
    "\<not> i_allocated (inode_of u j) \<Longrightarrow> i_blocks_num (inode_of u j) = 0 \<and> \<not> S_ISDIR (i_mode (inode_of u j))"
    if "inum_ok s j" for j
    using nd uk fr(1) [OF that] uj [OF that] iv(6) [OF that] by (cases "j = k"; simp)+
  have apart: "file_blocks u (inode_of u i) \<inter> file_blocks u (inode_of u j) = {}"
    if "inum_ok s i" "inum_ok s j" "i \<noteq> j" for i j
    using that disj bj uj uk iv(7) [OF that] by (cases "i = k"; cases "j = k") auto
  have dirs: "dir_ok u G (inode_of u j) ((ents(k := rss)) j) \<and> (\<forall>(n, v) \<in> set (concat ((ents(k := rss)) j)). inum_ok s v)"
    if "inum_ok s j" "S_ISDIR (i_mode (inode_of u j))" for j
  proof (cases "j = k")
    case True
    then show ?thesis using dir that(2) by (simp add: uk)
  next
    case False
    then have d: "dir_ok s F (inode_of s j) (ents j)" "\<forall>(n, v) \<in> set (concat (ents j)). inum_ok s v"
      using iv(8) [OF that(1)] that(2) uj [OF that(1) False] by simp_all
    from dir_ok_frame [OF d(1) ch other [OF that(1) False]] show ?thesis
      using d(2) uj [OF that(1) False] False by simp
  qed
  have all: "b \<in> G \<or> (\<exists>j. inum_ok s j \<and> b \<in> file_blocks u (inode_of u j))" if "data_block u b" for b
  proof -
    have "data_block s b" using that by (simp add: only_changes_data_block [OF ch])
    then consider "b \<in> F \<union> file_blocks s (inode_of s k)" | j where "inum_ok s j" "j \<noteq> k" "b \<in> file_blocks s (inode_of s j)"
      using iv(9) by blast
    then show ?thesis
    proof cases
      case 1
      then have "b \<in> G \<union> file_blocks u nd" by (simp only: G)
      then show ?thesis using k uk by auto
    next
      case 2
      then show ?thesis using bj [OF 2(1,2)] uj [OF 2(1,2)] by auto
    qed
  qed
  show "fs_inv u G (ents(k := rss))"
    unfolding fs_inv_def io using tab iv(4) files apart dirs all by blast
qed

text \<open>Writing the inode of file \<open>k\<close> after its blocks have changed.\<close>

theorem fs_inv_update:
  assumes inv: "fs_inv s F ents" and k: "inum_ok s k"
    and G: "freelist t G" "G \<union> file_blocks t nd = F \<union> file_blocks s (inode_of s k)"
    and ch: "only_changes (insert 0 F \<union> file_blocks s (inode_of s k)) s t" "head_only s t" "superblock_synced t"
    and nd: "file_ok t G nd" "inode_ok nd" "3 \<le> k \<Longrightarrow> i_allocated nd = i_allocated (inode_of s k)"
      "\<not> i_allocated nd \<Longrightarrow> i_blocks_num nd = 0 \<and> \<not> S_ISDIR (i_mode nd)"
    and dir: "S_ISDIR (i_mode nd) \<Longrightarrow> dir_ok t G nd rss \<and> (\<forall>(n, v) \<in> set (concat rss). inum_ok s v)"
  defines "u \<equiv> upd_inode t k nd"
  shows "fs_inv u G (ents(k := rss))" "inode_of u k = nd"
    "\<And>j. inum_ok s j \<Longrightarrow> j \<noteq> k \<Longrightarrow> inode_of u j = inode_of s j"
    "\<And>j. inum_ok s j \<Longrightarrow> j \<noteq> k \<Longrightarrow> same_file s u j"
    "\<And>b. \<not> inode_block s b \<Longrightarrow> disk_block u b = disk_block t b"
    "\<And>l. 0 \<le> l \<Longrightarrow> l < i_blocks_num nd \<Longrightarrow> file_data u nd l = file_data t nd l"
proof -
  note iv = fs_invD [OF inv]
  have m: "mounted s" "mounted t" using iv(10) G(1) freelist_mounted by auto
  note geo = only_changes_geometry [OF ch(1)]
  have io: "inum_ok t j = inum_ok s j" "inum_ok u j = inum_ok s j" for j
    by (simp_all add: inum_ok_def u_def geo)
  have ib: "inode_block t = inode_block s" by (simp add: fun_eq_iff geo)
  have cu: "only_changes {n. inode_block s n} t u"
    using only_changes_upd_inode [OF m(2), of k nd] k by (simp add: u_def io ib)
  show blk: "disk_block u b = disk_block t b" if "\<not> inode_block s b" for b
    using that by (intro only_changes_block [OF cu]) simp
  have it: "disk_block t b = disk_block s b" if "inode_block s b" for b
    using that freelist_not_inode_block [OF iv(2)] file_blocks_data(4) [OF inv k]
    by (intro only_changes_block [OF ch(1)]) (auto simp: inode_block_def)
  have st: "inode_of t j = inode_of s j" if "inum_ok s j" for j
    by (rule inode_of_cong) (rule it [OF inum_block [OF that]])
  show uk: "inode_of u k = nd" using m(2) nd(2) by (simp add: u_def mem_simps)
  show uj: "inode_of u j = inode_of s j" if "inum_ok s j" "j \<noteq> k" for j
    using that m(2) nd(2) st by (simp add: u_def mem_simps)
  have su: "only_changes (insert 0 F \<union> file_blocks s (inode_of s k) \<union> {n. inode_block s n}) s u"
    by (rule only_changes_trans [OF ch(1) cu])
  have nb: "block_at t nd q \<notin> {n. inode_block s n}" "block_at t nd q \<notin> G" if "q \<in> used (i_blocks_num nd)" for q
    using nd(1) that data_block_not_inode [of t] by (auto simp: file_ok_def tree_ok_def ib)
  note fk = file_ok_frame [OF nd(1) cu nb]
  show "file_data u nd l = file_data t nd l" if "0 \<le> l" "l < i_blocks_num nd" for l
    using fk(3) that by (simp add: file_data_def)
  have bk: "file_blocks u nd = file_blocks t nd" using fk(2) by (auto simp: file_blocks_def)
  obtain sb where sb: "geometry_ok s" "table_sb s sb" "next_free s 3 (first_free sb)"
    using iv(1) by (auto simp: inode_table_inv_def)
  obtain h where h: "altfs_superblock t = Ptr (sb\<lparr>s_freelist_head := h\<rparr>)"
    using ch(2) sb(2) by (auto simp: head_only_def table_sb_def)
  have sbu: "altfs_superblock u = altfs_superblock t" by (simp add: u_def)
  have fu: "freelist u G"
    by (rule freelist_unaffected [OF G(1) cu])
      (use freelist_not_inode_block [OF G(1)] h sbu G(1) in \<open>auto simp: ib freelist_def\<close>)
  have "superblock_ok (sb\<lparr>s_freelist_head := h\<rparr>)" using G(1) h by (auto simp: freelist_def)
  then have "table_sb u (sb\<lparr>s_freelist_head := h\<rparr>)"
    using sb(2) h sbu only_changes_geometry(2) [OF su] by (simp add: table_sb_def)
  moreover have "next_free u 3 (first_free (sb\<lparr>s_freelist_head := h\<rparr>))"
  proof -
    have "next_free u 3 (first_free sb) = next_free s 3 (first_free sb)"
    proof (rule next_free_agree)
      fix j assume "inum_ok s j" "3 \<le> j"
      then show "i_allocated (inode_of u j) = i_allocated (inode_of s j)" using uk uj nd(3) by (cases "j = k") auto
    qed (simp_all add: io)
    moreover have "first_free (sb\<lparr>s_freelist_head := h\<rparr>) = first_free sb" by (simp add: first_free_def)
    ultimately show ?thesis using sb(3) by (simp only:)
  qed
  ultimately have inv_u: "inode_table_inv u"
    using m sb(1) only_changes_geometry [OF su] by (auto simp: inode_table_inv_def)
  have syu: "superblock_synced u"
    using ch(3) blk [of 0] by (simp add: superblock_synced_def sbu inode_block_def)
  have Gu: "G \<union> file_blocks u nd = F \<union> file_blocks s (inode_of s k)" using G(2) bk by simp
  have du: "S_ISDIR (i_mode nd) \<Longrightarrow> dir_ok u G nd rss \<and> (\<forall>(n, v) \<in> set (concat rss). inum_ok s v)"
    using dir dir_ok_frame [OF _ cu nb] by blast
  note change = fs_inv_change [OF inv k inv_u fu syu Gu su uk uj fk(1) nd(4) du]
  show "fs_inv u G (ents(k := rss))" using change(1) by blast
  show "same_file s u j" if "inum_ok s j" "j \<noteq> k" for j using change(2) that by blast
qed

text \<open>Writing an inode with the blocks and the type it has.\<close>

theorem fs_inv_attrs:
  assumes inv: "fs_inv s F ents" and k: "inum_ok s k"
    and nd: "same_blocks (inode_of s k) nd" "inode_ok nd" "i_mode nd = i_mode (inode_of s k)"
      "i_allocated nd = i_allocated (inode_of s k)"
  defines "t \<equiv> upd_inode s k nd"
  shows "fs_inv t F ents" "inode_of t k = nd" "\<And>j. inum_ok s j \<Longrightarrow> j \<noteq> k \<Longrightarrow> same_file s t j"
    "\<And>l. 0 \<le> l \<Longrightarrow> l < i_blocks_num nd \<Longrightarrow> file_data t nd l = file_data s nd l"
proof -
  note iv = fs_invD [OF inv] and sb = same_blocks_file [OF nd(1)]
  obtain b where "altfs_superblock s = Ptr b" using iv(2) by (auto simp: freelist_def)
  then have ho: "head_only s s" by (intro head_only_refl)
  have eq: "F \<union> file_blocks s nd = F \<union> file_blocks s (inode_of s k)"
    using sb(4) by (simp add: file_blocks_def same_blocks_at [OF nd(1)])
  have fok: "file_ok s F nd" using iv(5) [OF k] sb(2) by simp
  have p: "3 \<le> k \<Longrightarrow> i_allocated nd = i_allocated (inode_of s k)"
    "\<not> i_allocated nd \<Longrightarrow> i_blocks_num nd = 0 \<and> \<not> S_ISDIR (i_mode nd)"
    using nd(3,4) iv(6) [OF k] sb(4) by simp_all
  have d: "S_ISDIR (i_mode nd) \<Longrightarrow> dir_ok s F nd (ents k) \<and> (\<forall>(n, v) \<in> set (concat (ents k)). inum_ok s v)"
    using iv(8) [OF k] nd(3) by (simp add: dir_ok_same_blocks [OF nd(1,3)])
  note up = fs_inv_update [OF inv k iv(2) eq only_changes_refl ho iv(3) fok nd(2) p d, folded t_def]
  have "fs_inv t F (ents(k := ents k))" using up(1) by blast
  then show "fs_inv t F ents" by simp
  show "inode_of t k = nd" using up(2) by blast
  show "file_data t nd l = file_data s nd l" if "0 \<le> l" "l < i_blocks_num nd" for l using up(6) that by blast
  show "same_file s t j" if "inum_ok s j" "j \<noteq> k" for j using up(4) that by blast
qed

text \<open>Taking a free inode.\<close>

theorem fs_inv_allocate:
  assumes inv: "fs_inv s F ents" and sb: "altfs_superblock s = Ptr sb" "first_free sb = Some v"
  shows "\<exists>t. allocate_inode s = Some (v, t) \<and> fs_inv t F ents \<and> inum_ok s v \<and> 3 \<le> v \<and> \<not> i_allocated (inode_of s v)
    \<and> inode_of t v = (inode_of s v)\<lparr>i_allocated := True, i_links_count := 0\<rparr>
    \<and> (\<forall>j. inum_ok s j \<and> j \<noteq> v \<longrightarrow> same_file s t j)
    \<and> only_changes {n. n = 0 \<or> inode_block s n} s t"
proof -
  note iv = fs_invD [OF inv]
  obtain t f where t: "allocate_inode s = Some (v, t)" "inum_ok s v" "\<not> i_allocated (inode_of s v)"
    "inode_of t v = (inode_of s v)\<lparr>i_allocated := True, i_links_count := 0\<rparr>"
    "\<And>j. 0 \<le> j \<Longrightarrow> j \<noteq> v \<Longrightarrow> inode_of t j = inode_of s j" "inode_table_inv t" "superblock_synced t"
    "only_changes {n. n = 0 \<or> inode_block s n} s t" "altfs_superblock t = Ptr (sb\<lparr>s_first_ino := f\<rparr>)"
    using allocate_inode_free [OF iv(1) sb] by blast
  have "3 \<le> v" using iv(1) sb by (auto simp: inode_table_inv_def table_sb_def next_free_def)
  have ok: "superblock_ok (sb\<lparr>s_first_ino := f\<rparr>)" using t(6,9) by (auto simp: inode_table_inv_def table_sb_def)
  have Ft: "freelist t F"
    by (rule freelist_unaffected [OF iv(2) t(8) _ sb(1) t(9) ok]) (use freelist_not_inode_block [OF iv(2)] in auto)
  have b0: "i_blocks_num (inode_of s v) = 0" "\<not> S_ISDIR (i_mode (inode_of s v))" using iv(6) t(2,3) by blast+
  then have e: "file_blocks s (inode_of s v) = {}" "file_blocks t (inode_of t v) = {}"
    using t(4) by (simp_all add: file_blocks_def used_def)
  have same: "same_blocks (inode_of s v) (inode_of t v)" using t(4) by (simp add: same_blocks_def)
  have "file_ok t F (inode_of s v)"
    using file_ok_frame(1) [OF iv(5) [OF t(2)] t(8)] b0(1) by (simp add: used_def)
  then have fok: "file_ok t F (inode_of t v)" using same_blocks_file(2) [OF same] by simp
  have ch: "only_changes (insert 0 F \<union> file_blocks s (inode_of s v) \<union> {n. inode_block s n}) s t"
    by (rule only_changes_mono [OF t(8)]) auto
  have oth: "inode_of t j = inode_of s j" if "inum_ok s j" "j \<noteq> v" for j
    using t(5) that by (simp add: inum_ok_nonneg)
  have eq: "F \<union> file_blocks t (inode_of t v) = F \<union> file_blocks s (inode_of s v)" by (simp add: e)
  have nd: "\<not> S_ISDIR (i_mode (inode_of t v))" "i_allocated (inode_of t v)" using t(4) b0(2) by simp_all
  have "fs_inv t F (ents(v := ents v))" "\<And>j. inum_ok s j \<Longrightarrow> j \<noteq> v \<Longrightarrow> same_file s t j"
    by (rule fs_inv_change [OF inv t(2) t(6) Ft t(7) eq ch refl oth fok]; use nd in simp)+
  then show ?thesis using t(1-4,8) \<open>3 \<le> v\<close> by (auto simp: fun_upd_idem)
qed

end
