(* ===== verification/Sample_Disk.thy ===== *)
theory Sample_Disk
  imports File_Edits Mounting
begin

text \<open>
  Growing a file block by block, as the write path of the program does (allocate a block, add it to
  the inode), and concrete file systems: a formatted disk of 100 blocks, one of \<open>2 ^ 21\<close> blocks,
  and files of any length on them. They show that the states the theorems speak of exist.
\<close>

lemma cleared_empty: "cleared_inode nd = empty_inode\<lparr>i_padding := i_padding nd\<rparr>"
  by (simp add: cleared_inode_def empty_inode_def numeral_eq_Suc)

section \<open>Growing a file\<close>

primrec grow_file :: "nat \<Rightarrow> inode \<Rightarrow> altfs \<Rightarrow> (inode \<times> altfs) option" where
  "grow_file 0 nd s = Some (nd, s)"
| "grow_file (Suc k) nd s = do {
     (d, s) \<leftarrow> allocate_data_block s;
     (ok, nd, s) \<leftarrow> add_datablock_to_inode nd d s;
     if ok then grow_file k nd s else None
   }"

lemma card_path: "card (path (pos_of l)) \<le> 4"
proof -
  have c: "card (path p) \<le> length p \<and> finite (path p)" for p
    by (induction p) (auto intro: card_insert_le_m1 simp: card_insert_if)
  have "length (pos_of l) \<le> 4" by (simp add: pos_of_def)
  then show ?thesis using c [of "pos_of l"] by linarith
qed

lemma block_added_card:
  assumes "block_added s F nd d t G nd'" "file_ok s F nd" "d \<notin> F" "finite F"
  shows "card F \<le> card G + 3"
proof -
  define n where "n = i_blocks_num nd"
  have b: "insert d (F - G) = block_at t nd' ` (used (n + 1) - used n)" "G \<subseteq> F"
    using assms(1) unfolding block_added_def n_def by blast+
  have fin: "finite (path p)" for p by (induction p) auto
  have sub: "used (n + 1) - used n \<subseteq> path (pos_of n)"
    using assms(2) used_Suc [of n] by (auto simp: file_ok_def n_def)
  have "card (used (n + 1) - used n) \<le> 4"
    by (rule le_trans [OF card_mono [OF fin sub] card_path])
  moreover have "finite (used (n + 1) - used n)" by (rule finite_subset [OF sub fin])
  ultimately have "card (insert d (F - G)) \<le> 4"
    unfolding b(1) by (rule le_trans [OF card_image_le, rotated])
  then have "card (F - G) \<le> 3" using assms(3,4) by simp
  moreover have "card F = card G + card (F - G)"
    using b(2) assms(4) by (metis card_Diff_subset card_mono finite_subset le_add_diff_inverse)
  ultimately show ?thesis by simp
qed

lemma file_ok_allocate:
  assumes F: "freelist s F" "F \<noteq> {}" and ok: "file_ok s F nd"
  shows "\<exists>d t. allocate_data_block s = Some (d, t) \<and> freelist t (F - {d}) \<and> file_ok t (F - {d}) nd
    \<and> addable t (F - {d}) nd d \<and> d \<in> F
    \<and> (\<forall>q \<in> used (i_blocks_num nd). block_at t nd q = block_at s nd q)
    \<and> (superblock_synced s \<longrightarrow> superblock_synced t)"
proof -
  have U: "tree_ok s F nd (used (i_blocks_num nd))" "tidy s nd (used (i_blocks_num nd))"
    "length (i_direct_blocks nd) = 12" "0 \<le> i_blocks_num nd" using ok by (auto simp: file_ok_def)
  obtain d t where "allocate_data_block s = Some (d, t)" "d \<in> F" "freelist t (F - {d})"
    "tree_ok t (F - {d}) nd (used (i_blocks_num nd))" "data_block t d"
    "d \<notin> block_at t nd ` used (i_blocks_num nd)" "tidy s nd (used (i_blocks_num nd)) \<longrightarrow> tidy t nd (used (i_blocks_num nd))"
    "\<forall>q \<in> used (i_blocks_num nd). block_at t nd q = block_at s nd q"
    "superblock_synced s \<longrightarrow> superblock_synced t"
    using allocate_for_file [OF F U(1)] by blast
  then show ?thesis using U by (auto simp: file_ok_def addable_def)
qed

theorem grow_file_run:
  assumes "freelist s F" "file_ok s F nd" "i_blocks_num nd + int k \<le> MAX_FILE_BLOCKS" "4 * k \<le> card F"
  shows "\<exists>nd' t G. grow_file k nd s = Some (nd', t) \<and> freelist t G \<and> file_ok t G nd'
    \<and> i_blocks_num nd' = i_blocks_num nd + int k \<and> G \<subseteq> F \<and> card F \<le> card G + 4 * k
    \<and> (\<forall>l. 0 \<le> l \<and> l < i_blocks_num nd \<longrightarrow> file_block t nd' l = file_block s nd l)"
  using assms
proof (induction k arbitrary: s F nd)
  case (Suc k)
  have fin: "finite F" using finite_freelist [OF Suc.prems(1)] .
  have ne: "F \<noteq> {}" using Suc.prems(4) by auto
  obtain d t where t: "allocate_data_block s = Some (d, t)" "freelist t (F - {d})" "file_ok t (F - {d}) nd"
    "addable t (F - {d}) nd d" "d \<in> F" "\<And>q. q \<in> used (i_blocks_num nd) \<Longrightarrow> block_at t nd q = block_at s nd q"
    using file_ok_allocate [OF Suc.prems(1) ne Suc.prems(2)] by blast
  have c: "card (F - {d}) = card F - 1" using t(5) by simp
  then have "3 \<le> card (F - {d})" "i_blocks_num nd < MAX_FILE_BLOCKS" using Suc.prems(3,4) by auto
  then obtain nd1 u G where u: "add_datablock_to_inode nd d t = Some (True, nd1, u)"
    "block_added t (F - {d}) nd d u G nd1"
    using add_datablock_run [OF t(2) _ t(3) _ t(4)] by blast
  then have G: "freelist u G" "file_ok u G nd1" "i_blocks_num nd1 = i_blocks_num nd + 1" "G \<subseteq> F - {d}"
    "\<And>q. q \<in> used (i_blocks_num nd) \<Longrightarrow> block_at u nd1 q = block_at t nd q"
    by (auto simp: block_added_def)
  have cG: "card F \<le> card G + 4"
    using block_added_card [OF u(2) t(3)] c fin by auto
  then obtain nd' v H where v: "grow_file k nd1 u = Some (nd', v)" "freelist v H" "file_ok v H nd'"
    "i_blocks_num nd' = i_blocks_num nd1 + int k" "H \<subseteq> G" "card G \<le> card H + 4 * k"
    "\<And>l. 0 \<le> l \<Longrightarrow> l < i_blocks_num nd1 \<Longrightarrow> file_block v nd' l = file_block u nd1 l"
    using Suc.IH [OF G(1,2)] Suc.prems(3,4) G(3) by auto
  have "file_block v nd' l = file_block s nd l" if "0 \<le> l" "l < i_blocks_num nd" for l
  proof -
    have "pos_of l \<in> used (i_blocks_num nd)" using that pos_of_used pos_of_in_path by blast
    then show ?thesis using that v(7) G(3,5) t(6) by (simp add: file_block_def)
  qed
  moreover have "grow_file (Suc k) nd s = Some (nd', v)" using t(1) u(1) v(1) by simp
  moreover have "H \<subseteq> F" "card F \<le> card H + 4 * Suc k" using v(5,6) G(4) cG by auto
  moreover have "i_blocks_num nd' = i_blocks_num nd + int (Suc k)" using v(4) G(3) by simp
  ultimately show ?case using v(2,3) by blast
qed auto

section \<open>Concrete disks\<close>

definition blank_disk :: "int \<Rightarrow> altfs" where
  "blank_disk n = \<lparr>FS_SIZE = 4096 * n, mem_ptr = Null, altfs_superblock = Null\<rparr>"

lemma blank_disk_simps [simp]:
  "FS_SIZE (blank_disk n) = 4096 * n" "BLOCK_COUNT (blank_disk n) = n"
  "altfs_superblock (blank_disk n) = Null"
  by (simp_all add: blank_disk_def BLOCK_COUNT_def)

lemma blank_disk_data_blocks:
  "{b. data_block (blank_disk n) b} = {n * 15 div 1000 + 1..<n}"
  by (auto simp: data_block_def INODE_BLOCK_COUNT_def)

lemma formatted_disk:
  assumes "67 \<le> n" "n \<le> 2 ^ 40" "(n - n * 15 div 1000 - 1) mod 512 \<noteq> 0"
  shows "\<exists>s. altfs_makefs True (blank_disk n) = Some (True, s) \<and> FS_SIZE s = 4096 * n
    \<and> freelist s {n * 15 div 1000 + 1..<n} \<and> superblock_synced s \<and> inode_table_inv s
    \<and> altfs_superblock s = Ptr (initial_superblock (blank_disk n))
    \<and> (\<forall>k. 0 \<le> k \<and> k < n * 15 div 1000 * 18 \<longrightarrow> inode_of s k = empty_inode)"
proof -
  have "geometry_ok (blank_disk n)"
    using assms(1,2) by (simp add: geometry_ok_def INODE_BLOCK_COUNT_def in_ssize_def)
  moreover have "NUM_OF_DATA_BLOCKS (blank_disk n) mod 512 \<noteq> 0"
    using assms(3) by (simp add: NUM_OF_DATA_BLOCKS_def INODE_BLOCK_COUNT_def)
  ultimately show ?thesis
    using makefs_fresh [of "blank_disk n"]
    by (simp add: blank_disk_data_blocks inum_ok_def INODE_BLOCK_COUNT_def)
qed

lemma small_disk:
  obtains s where "freelist s {2..<100}" "superblock_synced s" "inode_table_inv s"
    "altfs_superblock s = Ptr (initial_superblock (blank_disk 100))" "FS_SIZE s = 409600"
    "\<And>k. 0 \<le> k \<Longrightarrow> k < 18 \<Longrightarrow> inode_of s k = empty_inode"
  using formatted_disk [of 100] by auto

lemma small_disk_rest: "{2..<100 :: int} - {n} \<noteq> {}"
proof
  assume "{2..<100 :: int} - {n} = {}"
  then have "{2..<100} \<subseteq> {n}" by (simp only: Diff_eq_empty_iff)
  then have "2 \<in> {n}" "3 \<in> {n}" by (simp_all only: subset_iff) simp_all
  then show False by simp
qed

lemma file_ok_empty: "file_ok s F empty_inode"
  by (auto simp: file_ok_def empty_inode_def tree_ok_def tidy_def root_at_def nth_Cons'
      numeral_eq_Suc less_Suc_eq)

text \<open>A file of any length up to the bound, on a disk that is large enough.\<close>

lemma sample_file:
  assumes "67 \<le> n" "n \<le> 2 ^ 40" "(n - n * 15 div 1000 - 1) mod 512 \<noteq> 0"
    and "int k \<le> MAX_FILE_BLOCKS" "4 * int k + 4 \<le> n - n * 15 div 1000 - 1"
  shows "\<exists>s F nd. freelist s F \<and> 4 \<le> card F \<and> file_ok s F nd \<and> i_blocks_num nd = int k"
proof -
  let ?F = "{n * 15 div 1000 + 1..<n}"
  obtain s where s: "freelist s ?F" using formatted_disk [OF assms(1-3)] by blast
  have c: "4 * int k + 4 \<le> int (card ?F)" using assms(5) by simp
  then have "4 * k \<le> card ?F" by linarith
  then obtain nd t G where "freelist t G" "file_ok t G nd" "i_blocks_num nd = int k"
    "card ?F \<le> card G + 4 * k"
    using grow_file_run [OF s file_ok_empty, of k] assms(4) by auto
  moreover have "4 \<le> card G"
  proof -
    have "int (card ?F) \<le> int (card G) + 4 * int k" using calculation(4) by linarith
    then show ?thesis using c by linarith
  qed
  ultimately show ?thesis by blast
qed

end
