(* ===== verification/File_System_Setup.thy ===== *)
theory File_System_Setup
  imports File_System Sample_Disk Interface_Files
begin

text \<open>
  The running file system: the invariant of the disk together with a cache that agrees with the
  directories (\<open>fs_ready\<close>), how it comes into being (\<open>altfs_makefs\<close>, then \<open>altfs_init\<close> of
  \<open>src/interface_layer.c\<close>), and the operations that only look at it.
\<close>

section \<open>The state of a running file system\<close>

abbreviation resolved :: "fs \<Rightarrow> (int \<Rightarrow> dirent list list) \<Rightarrow> cstr \<Rightarrow> int" where
  "resolved st ents \<equiv> resolve (dir_lookup (fs_disk st) ents)"

definition fs_ready :: "fs \<Rightarrow> int set \<Rightarrow> (int \<Rightarrow> dirent list list) \<Rightarrow> bool" where
  "fs_ready st F ents \<longleftrightarrow> fs_inv (fs_disk st) F ents \<and> cache_agrees (inodeCache st) (resolved st ents)"

abbreviation room :: "fs \<Rightarrow> int" where
  "room st \<equiv> cache_room (inodeCache st)"

lemma fs_readyD:
  assumes "fs_ready st F ents"
  shows "fs_inv (fs_disk st) F ents" "cache_agrees (inodeCache st) (resolved st ents)"
  using assms by (simp_all add: fs_ready_def)

text \<open>Looking up a path changes the cache only.\<close>

lemma name_i_ready:
  assumes "fs_ready st F ents" "int (length p) \<le> room st"
  obtains c where "name_i p st = Some (resolved st ents p, st\<lparr>inodeCache := c\<rparr>)"
    "fs_ready (st\<lparr>inodeCache := c\<rparr>) F ents" "room st - int (length p) \<le> cache_room c"
proof -
  note iv = fs_invD [OF fs_readyD(1) [OF assms(1)]]
  obtain c where "name_i p st = Some (resolved st ents p, st\<lparr>inodeCache := c\<rparr>)"
    "cache_agrees c (resolved st ents)" "room st - int (length p) \<le> cache_room c"
    using name_i_run [OF iv(12) iv(4) refl fs_readyD(2) [OF assms(1)] assms(2)] by blast
  then show ?thesis using assms(1) by (intro that [of c]) (simp_all add: fs_ready_def)
qed

lemma resolved_inum:
  assumes "fs_ready st F ents"
  shows "resolved st ents p = -1 \<or> inum_ok (fs_disk st) (resolved st ents p)"
  using fs_invD(4,12) [OF fs_readyD(1) [OF assms]] resolve_valid by blast

section \<open>Formatting and starting\<close>

lemma load_superblock_run:
  assumes "mounted s" "geometry_ok s" "table_sb s sb" "superblock_synced s" "q \<noteq> Freed"
  shows "load_superblock (s\<lparr>altfs_superblock := q\<rparr>) = Some (True, s)"
proof -
  have sb: "get_superblock (disk_block s 0) = sb" using assms(3,4) by (auto simp: superblock_synced_def table_sb_def)
  have nz: "s_num_of_inodes_per_block sb = 18" "s_inodes_count sb = INODE_BLOCK_COUNT s * 18"
    "1 \<le> INODE_BLOCK_COUNT s" using assms(2,3) by (simp_all add: table_sb_def geometry_ok_def)
  have "disk_block s 0 \<noteq> zero_buf"
  proof
    assume "disk_block s 0 = zero_buf"
    then have "s_num_of_inodes_per_block sb = 0" using sb by (auto simp: get_superblock_def)
    then show False using nz by simp
  qed
  then have "\<not> buf_zero (disk_block s 0)" by (simp add: buf_zero_block is_block_disk_block)
  moreover have "s\<lparr>altfs_superblock := Ptr sb\<rparr> = s" using assms(3) by (simp add: table_sb_def)
  ultimately show ?thesis
    using assms(1,2,5) sb nz geometry_valid_0 [OF assms(2)] by (cases q) (simp_all add: load_superblock_def run)
qed

lemma fresh_fs_inv:
  assumes "inode_table_inv s" "freelist s {b. data_block s b}" "superblock_synced s"
    "\<And>k. inum_ok s k \<Longrightarrow> inode_of s k = empty_inode" "inum_ok s 2"
  shows "fs_inv s {b. data_block s b} ents"
  using assms file_ok_empty
  by (auto simp: fs_inv_def file_blocks_def used_def S_ISDIR_def) (simp_all add: empty_inode_def)

lemma dir_attrs_inode_ok:
  assumes "mounted s" "file_ok s F nd'" "dir_attrs nd' = dir_attrs nd" "inode_ok nd"
    "0 \<le> i_child_num nd'" "i_child_num nd' < 2 ^ 64" "in_ssize (i_file_size nd')"
  shows "inode_ok nd'"
proof (rule file_ok_inode_ok [OF assms(1,2)])
  show "attrs nd' = attrs (nd\<lparr>i_child_num := i_child_num nd', i_file_size := i_file_size nd'\<rparr>)"
    using assms(3) by (cases nd; cases nd') (simp add: dir_attrs_def attrs_def)
  show "inode_ok (nd\<lparr>i_child_num := i_child_num nd', i_file_size := i_file_size nd'\<rparr>)"
    using assms(4-7) by (simp add: inode_ok_def)
qed

lemma dir_grown_inode_ok:
  assumes "dir_grown s F nd rss r t G nd' rss'" "inode_ok nd" "in_ssize (i_file_size nd')"
  shows "inode_ok nd'"
proof -
  have g: "freelist t G" "dir_ok t G nd' rss'" "i_child_num nd' = (i_child_num nd + 1) mod 2 ^ 64"
    "dir_attrs nd' = dir_attrs nd"
    using assms(1) by (simp_all add: dir_grown_def)
  show ?thesis
    by (rule dir_attrs_inode_ok [OF freelist_mounted [OF g(1)] dir_okD(1) [OF g(2)] g(4) assms(2)])
      (use g(3) assms(3) in simp_all)
qed

text \<open>The inode table while the blocks of a file are being changed.\<close>

lemma table_during:
  assumes inv: "fs_inv s F ents" and k: "inum_ok s k" and G: "freelist t G"
    and ch: "only_changes (insert 0 F \<union> file_blocks s (inode_of s k)) s t" "head_only s t"
  shows "table_ready t" "\<And>j. inum_ok t j = inum_ok s j" "\<And>j. inum_ok s j \<Longrightarrow> inode_of t j = inode_of s j"
proof -
  note iv = fs_invD [OF inv] and geo = only_changes_geometry [OF ch(1)]
  show io: "inum_ok t j = inum_ok s j" for j by (simp add: inum_ok_def geo)
  have "disk_block t b = disk_block s b" if "inode_block s b" for b
    using that freelist_not_inode_block [OF iv(2)] file_blocks_data(4) [OF inv k]
    by (intro only_changes_block [OF ch(1)]) (auto simp: inode_block_def)
  then show "inode_of t j = inode_of s j" if "inum_ok s j" for j
    using inum_block [OF that] by (intro inode_of_cong) simp
  obtain sb h where sb: "geometry_ok s" "table_sb s sb" "altfs_superblock t = Ptr (sb\<lparr>s_freelist_head := h\<rparr>)"
    using iv(1) ch(2) by (auto simp: inode_table_inv_def head_only_def table_sb_def)
  then have "superblock_ok (sb\<lparr>s_freelist_head := h\<rparr>)" using G by (auto simp: freelist_def)
  then show "table_ready t"
    using sb freelist_mounted [OF G] by (auto simp: table_ready_def table_sb_def geo)
qed

text \<open>The first two entries of a directory, as \<open>setup_filesystem\<close> and \<open>altfs_mkdir\<close> add them.\<close>

definition dot_records :: "int \<Rightarrow> int \<Rightarrow> dirent list list" where
  "dot_records v w = [[([46], v), ([46, 46], w)]]"

lemma dots_dirent_ok: "in_ssize v \<Longrightarrow> dirent_ok ([46], v) \<and> dirent_ok ([46, 46], v)"
  by (simp add: dirent_ok_def is_cstr_def)

lemma add_dots_run:
  assumes F: "freelist s F" "4 \<le> card F" and d: "dir_ok s F nd []" and v: "in_ssize v" "in_ssize w"
  obtains nd1 s1 nd2 t G where "add_directory_entry nd v [46] s = Some (True, nd1, s1)"
    "add_directory_entry nd1 w [46, 46] s1 = Some (True, nd2, t)"
    "freelist t G" "dir_ok t G nd2 (dot_records v w)" "i_child_num nd2 = (i_child_num nd + 2) mod 2 ^ 64"
    "i_file_size nd2 = i_file_size nd + 4096" "dir_attrs nd2 = dir_attrs nd"
    "G \<union> file_blocks t nd2 = F" "only_changes (insert 0 F) s t" "head_only s t"
    "superblock_synced s \<longrightarrow> superblock_synced t"
proof -
  have n0: "i_blocks_num nd = 0" using dir_okD(4) [OF d] by simp
  note g = dir_grown_def [of s F nd "[]"]
  obtain nd1 s1 G1 rss1 where a1: "add_directory_entry nd v [46] s = Some (True, nd1, s1)"
    "dir_grown s F nd [] ([46], v) s1 G1 nd1 rss1"
    using add_directory_entry_run [OF F(1) d, of "[46]" v] dots_dirent_ok [OF v(1)] F(2) n0
    by (auto simp: MAX_FILE_BLOCKS_def)
  have r1: "rss1 = [[([46], v)]]" using a1(2) by (simp add: dir_grown_def entry_added_def)
  have d1: "freelist s1 G1" "dir_ok s1 G1 nd1 [[([46], v)]]" "G1 \<subseteq> F"
    "G1 \<union> block_at s1 nd1 ` used (i_blocks_num nd1) = F" "only_changes (insert 0 F) s s1"
    "i_child_num nd1 = (i_child_num nd + 1) mod 2 ^ 64" "dir_attrs nd1 = dir_attrs nd" "head_only s s1"
    "i_file_size nd1 = i_file_size nd + 4096 * i_blocks_num nd1" "superblock_synced s \<longrightarrow> superblock_synced s1"
    using a1(2) n0 by (simp_all add: dir_grown_def r1 used_def)
  have n1: "i_blocks_num nd1 = 1" using dir_okD(4) [OF d1(2)] by simp
  have room: "has_room [([46], v)] ([46, 46], w)" by (simp add: has_room_def rec_size_def)
  obtain nd2 t G rss2 where a2: "add_directory_entry nd1 w [46, 46] s1 = Some (True, nd2, t)"
    "dir_grown s1 G1 nd1 [[([46], v)]] ([46, 46], w) t G nd2 rss2"
    using add_directory_entry_run [OF d1(1,2), of "[46, 46]" w] dots_dirent_ok [OF v(2)] room by auto
  have r2: "rss2 = dot_records v w"
    using a2(2) room by (auto simp: dir_grown_def entry_added_def dot_records_def)
  have d2: "freelist t G" "dir_ok t G nd2 (dot_records v w)" "G \<subseteq> G1"
    "G \<union> block_at t nd2 ` used (i_blocks_num nd2) = F"
    "only_changes (insert 0 G1 \<union> block_at s1 nd1 ` used (i_blocks_num nd1)) s1 t"
    "i_child_num nd2 = (i_child_num nd1 + 1) mod 2 ^ 64" "dir_attrs nd2 = dir_attrs nd1" "head_only s1 t"
    "i_file_size nd2 = i_file_size nd1 + 4096 * (i_blocks_num nd2 - 1)" "superblock_synced s1 \<longrightarrow> superblock_synced t"
    using a2(2) n1 d1(4) by (simp_all add: dir_grown_def r2)
  have n2: "i_blocks_num nd2 = 1" using dir_okD(4) [OF d2(2)] by (simp add: dot_records_def)
  have "only_changes (insert 0 F) s t"
    by (rule only_changes_trans_same [OF d1(5) only_changes_mono [OF d2(5)]]) (use d1(3,4) in blast)
  moreover have "i_child_num nd2 = (i_child_num nd + 2) mod 2 ^ 64" by (simp add: d2(6) d1(6) mod_add_left_eq add.assoc)
  ultimately show ?thesis
    using d1 d2 n1 n2 head_only_trans [OF d1(8) d2(8)]
    by (intro that [OF a1(1) a2(1) d2(1,2)]) (auto simp: file_blocks_def)
qed

lemma fresh_root_facts:
  assumes "in_ssize now"
  defines "nd \<equiv> fresh_root now empty_inode"
  shows "dir_ok s F nd []" "inode_ok nd" "i_allocated nd" "i_child_num nd = 0" "i_file_size nd = 0"
proof -
  have sb: "same_blocks empty_inode nd" by (simp add: same_blocks_def nd_def fresh_root_def)
  show "dir_ok s F nd []"
    using same_blocks_file(2) [OF sb] file_ok_empty
    by (auto simp: dir_ok_def nd_def fresh_root_def S_ISDIR_def MAX_FILE_BLOCKS_def)
  show "inode_ok nd" using empty_inode_ok assms(1) by (simp add: nd_def inode_ok_def fresh_root_def)
qed (simp_all add: nd_def fresh_root_def)

theorem create_root_run:
  assumes inv: "fs_inv s F ents" and F: "4 \<le> card F" and root: "inode_of s 2 = empty_inode" and now: "in_ssize now"
  shows "\<exists>t G. create_root now empty_inode \<lparr>fs_disk = s, inodeCache = c\<rparr> = Some (True, \<lparr>fs_disk = t, inodeCache = c\<rparr>)
    \<and> fs_inv t G (ents(2 := dot_records 2 2)) \<and> card F \<le> card G + 1
    \<and> dir_attrs (inode_of t 2) = dir_attrs (fresh_root now empty_inode)
    \<and> i_child_num (inode_of t 2) = 2 \<and> i_file_size (inode_of t 2) = 4096
    \<and> (\<forall>k. inum_ok s k \<and> k \<noteq> 2 \<longrightarrow> inode_of t k = inode_of s k) \<and> FS_SIZE t = FS_SIZE s"
proof -
  note iv = fs_invD [OF inv]
  let ?nd = "fresh_root now empty_inode"
  note fr = fresh_root_facts [OF now]
  have z: "in_ssize 2" by (simp add: in_ssize_def)
  obtain nd1 s1 nd2 u G where a: "add_directory_entry ?nd 2 [46] s = Some (True, nd1, s1)"
    "add_directory_entry nd1 2 [46, 46] s1 = Some (True, nd2, u)"
    "freelist u G" "dir_ok u G nd2 (dot_records 2 2)" "i_child_num nd2 = (i_child_num ?nd + 2) mod 2 ^ 64"
    "i_file_size nd2 = i_file_size ?nd + 4096" "dir_attrs nd2 = dir_attrs ?nd"
    "G \<union> file_blocks u nd2 = F" "only_changes (insert 0 F) s u" "head_only s u"
    "superblock_synced s \<longrightarrow> superblock_synced u"
    using add_dots_run [OF iv(2) F fr(1) z z] .
  have n2: "i_blocks_num nd2 = 1" using dir_okD(4) [OF a(4)] by (simp add: dot_records_def)
  have ok2: "inode_ok nd2"
    by (rule dir_attrs_inode_ok [OF freelist_mounted [OF a(3)] dir_okD(1) [OF a(4)] a(7) fr(2)])
      (simp_all add: a(5,6) fr(4,5) in_ssize_def)
  have al: "i_allocated nd2"
    using a(7) fr(3) by (cases nd2; cases ?nd) (simp add: dir_attrs_def attrs_def)
  have fb: "file_blocks s (inode_of s 2) = {}" by (simp add: root file_blocks_def used_def)
  have ch: "only_changes (insert 0 F \<union> file_blocks s (inode_of s 2)) s u" using a(9) fb by simp
  have G: "G \<union> file_blocks u nd2 = F \<union> file_blocks s (inode_of s 2)" using a(8) fb by simp
  note tr = table_during [OF inv iv(4) a(3) ch a(10)]
  have dd: "S_ISDIR (i_mode nd2) \<Longrightarrow> dir_ok u G nd2 (dot_records 2 2)
      \<and> (\<forall>(n, v) \<in> set (concat (dot_records 2 2)). inum_ok s v)"
    using a(4) iv(4) by (simp add: dot_records_def)
  have al': "3 \<le> (2 :: int) \<Longrightarrow> i_allocated nd2 = i_allocated (inode_of s 2)"
    "\<not> i_allocated nd2 \<Longrightarrow> i_blocks_num nd2 = 0 \<and> \<not> S_ISDIR (i_mode nd2)" using al by simp_all
  let ?t = "upd_inode u 2 nd2"
  note up = fs_inv_update(1-3) [OF inv iv(4) a(3) G ch a(10) mp [OF a(11) iv(3)] dir_okD(1) [OF a(4)] ok2 al' dd]
  have "create_root now empty_inode \<lparr>fs_disk = s, inodeCache = c\<rparr> = Some (True, \<lparr>fs_disk = ?t, inodeCache = c\<rparr>)"
    using a(1,2) tr(1,2) iv(4) by (simp add: create_root_def run)
  moreover have "card F \<le> card G + 1"
  proof -
    have "{0..<1 :: int} = {0}" by auto
    then have "file_blocks u nd2 = {block_at u nd2 (pos_of 0)}" by (simp add: file_blocks_def n2 used_def pos_of_def)
    then have "F = insert (block_at u nd2 (pos_of 0)) G" using a(8) by auto
    then show ?thesis using card_insert_le_m1 [of "Suc (card G)" G "block_at u nd2 (pos_of 0)"] by simp
  qed
  ultimately show ?thesis
    using up(1,3) by (intro exI [of _ ?t] exI [of _ G]) (simp add: up(2) a(5-7) fr(4,5) only_changes_geometry [OF ch])
qed

text \<open>Formatting and starting: the root directory has the entries \<open>.\<close> and \<open>..\<close>, both itself.\<close>

theorem setup_run:
  assumes fresh: "inode_table_inv s" "freelist s {b. data_block s b}" "superblock_synced s"
      "\<And>k. inum_ok s k \<Longrightarrow> inode_of s k = empty_inode" "inum_ok s 2" "4 \<le> card {b. data_block s b}"
    and now: "in_ssize now" and q: "q \<noteq> Freed"
  shows "\<exists>st G. altfs_init now \<lparr>fs_disk = s\<lparr>altfs_superblock := q\<rparr>, inodeCache = c\<rparr> = Some (True, st)
    \<and> fs_ready st G ((\<lambda>_. [])(2 := dot_records 2 2)) \<and> room st = 100000
    \<and> card {b. data_block s b} \<le> card G + 1 \<and> FS_SIZE (fs_disk st) = FS_SIZE s
    \<and> dir_attrs (inode_of (fs_disk st) 2) = dir_attrs (fresh_root now empty_inode)
    \<and> i_child_num (inode_of (fs_disk st) 2) = 2 \<and> i_file_size (inode_of (fs_disk st) 2) = 4096
    \<and> (\<forall>k. inum_ok s k \<and> k \<noteq> 2 \<longrightarrow> inode_of (fs_disk st) k = empty_inode)"
proof -
  let ?c = "Some (create_inode_cache 100000)"
  have inv: "fs_inv s {b. data_block s b} (\<lambda>_. [])" by (rule fresh_fs_inv [OF fresh(1-5)])
  note iv = fs_invD [OF inv]
  obtain sb where sb: "mounted s" "geometry_ok s" "table_sb s sb" using fresh(1) by (auto simp: inode_table_inv_def)
  have ld: "load_superblock (s\<lparr>altfs_superblock := q\<rparr>) = Some (True, s)"
    by (rule load_superblock_run [OF sb fresh(3) q])
  obtain t G where t: "create_root now empty_inode \<lparr>fs_disk = s, inodeCache = ?c\<rparr> = Some (True, \<lparr>fs_disk = t, inodeCache = ?c\<rparr>)"
    "fs_inv t G ((\<lambda>_. [])(2 := dot_records 2 2))" "card {b. data_block s b} \<le> card G + 1"
    "dir_attrs (inode_of t 2) = dir_attrs (fresh_root now empty_inode)"
    "i_child_num (inode_of t 2) = 2" "i_file_size (inode_of t 2) = 4096"
    "\<forall>k. inum_ok s k \<and> k \<noteq> 2 \<longrightarrow> inode_of t k = inode_of s k" "FS_SIZE t = FS_SIZE s"
    using create_root_run [OF inv fresh(6) fresh(4) [OF fresh(5)] now, of ?c] by blast
  have "altfs_init now \<lparr>fs_disk = s\<lparr>altfs_superblock := q\<rparr>, inodeCache = c\<rparr> = Some (True, \<lparr>fs_disk = t, inodeCache = ?c\<rparr>)"
    using ld iv(11) fresh(5) fresh(4) [OF fresh(5)] t(1)
    by (simp add: altfs_init_def setup_filesystem_def run)
  moreover have "cache_agrees ?c R" for R
    using create_inv [of 100000] by (simp add: cache_agrees_def cache_ok_def cache_content_def)
  ultimately show ?thesis
    using t(2-8) fresh(4) by (intro exI [of _ "\<lparr>fs_disk = t, inodeCache = ?c\<rparr>"] exI [of _ G])
      (simp add: fs_ready_def cache_room_def create_inode_cache_def)
qed

end
