(* ===== verification/Creating_Files.thy ===== *)
theory Creating_Files
  imports File_System_Setup
begin

text \<open>
  Creating files and directories (\<open>create_new_file\<close>, \<open>altfs_mknod\<close>, \<open>altfs_mkdir\<close> of
  \<open>src/interface_layer.c\<close>): the invariant holds again, the new path resolves to the new inode, and
  no other path and no other file changes.
\<close>

section \<open>More entries in a directory\<close>

lemma map_of_insert: "name \<notin> fst ` set xs \<Longrightarrow> map_of (xs @ (name, v) # ys) = (map_of (xs @ ys))(name \<mapsto> v)"
  by (induction xs) (auto simp: fun_eq_iff)

lemma entry_added_lookup:
  assumes "entry_added rss (name, v) rss'" "map_of (concat rss) name = None"
  shows "map_of (concat rss') = (map_of (concat rss))(name \<mapsto> v)"
proof -
  have nm: "name \<notin> fst ` set (concat rss)" using assms(2) unfolding map_of_eq_None_iff .
  from assms(1) consider l where "l < length rss" "rss' = rss[l := rss ! l @ [(name, v)]]"
    | "rss' = rss @ [[(name, v)]]" by (auto simp: entry_added_def)
  then show ?thesis
  proof cases
    case 1
    let ?xs = "concat (take l rss) @ rss ! l" and ?ys = "concat (drop (Suc l) rss)"
    have c: "concat rss = ?xs @ ?ys"
      using arg_cong [OF id_take_nth_drop [OF 1(1)], of concat] by simp
    have "rss' = take l rss @ (rss ! l @ [(name, v)]) # drop (Suc l) rss"
      unfolding 1(2) by (rule upd_conv_take_nth_drop [OF 1(1)])
    then have c': "concat rss' = ?xs @ (name, v) # ?ys" by simp
    have "name \<notin> fst ` set ?xs" using nm unfolding c by auto
    then show ?thesis unfolding c' c by (rule map_of_insert)
  next
    case 2
    then show ?thesis using map_of_insert [OF nm, of v "[]"] by simp
  qed
qed

lemma entry_added_set: "entry_added rss r rss' \<Longrightarrow> set (concat rss') = insert r (set (concat rss))"
  using entry_added_mset [of rss r rss'] by (metis set_mset_add_mset_insert set_mset_mset)

lemma resolve_mono:
  assumes "\<And>k n v. P k \<Longrightarrow> D k n = Some v \<Longrightarrow> D' k n = Some v"
    and "\<And>p. resolve D p = -1 \<or> P (resolve D p)" "resolve D p \<noteq> -1"
  shows "resolve D' p = resolve D p"
  using assms(3)
proof (induction p rule: length_induct)
  case (1 p)
  show ?case
  proof (cases "p = [slash]")
    case True
    then show ?thesis by (simp add: resolve.simps)
  next
    case False
    obtain parent where p: "copy_parent_path p = Some parent"
      using "1.prems" False by (cases "copy_parent_path p") (simp_all add: resolve.simps [of D p])
    have k: "resolve D parent \<noteq> -1" using "1.prems" False p by (auto simp: resolve.simps [of D p])
    then have k': "resolve D' parent = resolve D parent" using 1 parent_shorter [OF p] by blast
    obtain name where n: "copy_file_name p = Some name"
      using "1.prems" False p k by (cases "copy_file_name p") (simp_all add: resolve.simps [of D p] Let_def)
    obtain v where "D (resolve D parent) name = Some v"
      using "1.prems" False p k n by (cases "D (resolve D parent) name") (simp_all add: resolve.simps [of D p] Let_def)
    then show ?thesis
      using assms(1) assms(2) [of parent] False p k k' n by (simp add: resolve.simps [of D p] resolve.simps [of D' p] Let_def)
  qed
qed

lemma cache_agrees_mono:
  assumes "cache_agrees c R" "\<And>p. R p \<noteq> -1 \<Longrightarrow> R' p = R p"
  shows "cache_agrees c R'"
proof -
  have "v = R' p \<and> v \<noteq> -1" if "(p, v) \<in> cache_content c" for p v
    using assms that unfolding cache_agrees_def by fastforce
  then show ?thesis using assms(1) unfolding cache_agrees_def by blast
qed

section \<open>Creating a file\<close>

text \<open>What \<open>create_new_file\<close> needs: the parent is a directory one may write to, without an entry of
  the name; a free inode; and room for a record, or four free blocks.\<close>

definition can_add :: "altfs \<Rightarrow> int set \<Rightarrow> (int \<Rightarrow> dirent list list) \<Rightarrow> int \<Rightarrow> cstr \<Rightarrow> bool" where
  "can_add s F ents k name \<longleftrightarrow> inum_ok s k \<and> S_ISDIR (i_mode (inode_of s k)) \<and> map_of (concat (ents k)) name = None
     \<and> length name \<le> 255 \<and> is_cstr name \<and> in_ssize (i_file_size (inode_of s k) + 4096)
     \<and> ((\<exists>rs \<in> set (ents k). has_room rs (name, 0)) \<or> 4 \<le> card F \<and> i_blocks_num (inode_of s k) < MAX_FILE_BLOCKS)"

lemma has_room_value: "has_room rs (name, v) = has_room rs (name, w)"
  by (simp add: has_room_def rec_size_def)

lemma dir_grown_blocks:
  assumes "dir_grown s F nd rss r t G nd' rss'" "dir_ok s F nd rss"
  shows "i_blocks_num nd' = i_blocks_num nd \<or> i_blocks_num nd' = i_blocks_num nd + 1"
proof -
  have "dir_ok t G nd' rss'" "entry_added rss r rss'" using assms(1) by (simp_all add: dir_grown_def)
  then show ?thesis using dir_okD(4) [of t G nd' rss'] dir_okD(4) [OF assms(2)] by (auto simp: entry_added_def)
qed

lemma inum_ssize: "table_ready s \<Longrightarrow> inum_ok s v \<Longrightarrow> in_ssize v"
  by (auto simp: table_ready_def table_sb_def superblock_ok_def inum_ok_def in_ssize_def)

text \<open>A file that grows by one block takes at most four blocks.\<close>

lemma finite_used: "finite (used n)"
proof -
  have "finite (path p)" for p by (induction p) auto
  then show ?thesis by (simp add: used_def)
qed

lemma card_used_Suc: "0 \<le> n \<Longrightarrow> card (used (n + 1)) \<le> card (used n) + 4"
  using card_Un_le [of "used n" "path (pos_of n)"] card_path [of n] by (simp add: used_Suc)

lemma card_file_blocks:
  assumes "freelist s F" "file_ok s F nd"
  shows "card (F \<union> file_blocks s nd) = card F + card (used (i_blocks_num nd))"
proof -
  have tr: "inj_on (block_at s nd) (used (i_blocks_num nd))" "F \<inter> file_blocks s nd = {}"
    using assms(2) by (auto simp: file_ok_def tree_ok_def file_blocks_def)
  have "finite (file_blocks s nd)" by (simp add: file_blocks_def finite_used)
  then have "card (F \<union> file_blocks s nd) = card F + card (file_blocks s nd)"
    by (intro card_Un_disjoint finite_freelist [OF assms(1)] tr(2))
  then show ?thesis using card_image [OF tr(1)] by (simp add: file_blocks_def)
qed

lemma blocks_card:
  assumes "freelist s F" "freelist t G" "file_ok s F nd" "file_ok t G nd'"
    "G \<union> file_blocks t nd' = F \<union> file_blocks s nd"
    "i_blocks_num nd' = i_blocks_num nd \<or> i_blocks_num nd' = i_blocks_num nd + 1"
  shows "card F \<le> card G + 4"
proof -
  have "card G + card (used (i_blocks_num nd')) = card F + card (used (i_blocks_num nd))"
    using card_file_blocks [OF assms(1,3)] card_file_blocks [OF assms(2,4)] assms(5) by simp
  moreover have "0 \<le> i_blocks_num nd" using assms(3) by (simp add: file_ok_def)
  ultimately show ?thesis using assms(6) card_used_Suc [of "i_blocks_num nd"] by auto
qed

text \<open>Adding an entry to directory \<open>k\<close> and writing its inode back.\<close>

lemma add_entry_run:
  assumes inv: "fs_inv s F ents" and can: "can_add s F ents k name" and v: "inum_ok s v" and now: "in_ssize now"
  obtains nd t G rss' where "add_directory_entry (inode_of s k) v name s = Some (True, nd, t)"
    "freelist t G" "table_ready t" "\<forall>j. inum_ok t j = inum_ok s j"
    "fs_inv (upd_inode t k (nd\<lparr>i_mtime := now, i_ctime := now\<rparr>)) G (ents(k := rss'))"
    "entry_added (ents k) (name, v) rss'"
    "\<forall>j. inum_ok s j \<and> j \<noteq> k \<longrightarrow> same_file s (upd_inode t k (nd\<lparr>i_mtime := now, i_ctime := now\<rparr>)) j"
    "inode_of (upd_inode t k (nd\<lparr>i_mtime := now, i_ctime := now\<rparr>)) k = nd\<lparr>i_mtime := now, i_ctime := now\<rparr>"
    "dir_attrs nd = dir_attrs (inode_of s k)" "i_child_num nd = (i_child_num (inode_of s k) + 1) mod 2 ^ 64"
    "card F \<le> card G + 4"
proof -
  note iv = fs_invD [OF inv]
  have c: "inum_ok s k" "S_ISDIR (i_mode (inode_of s k))" "length name \<le> 255" "is_cstr name"
    "in_ssize (i_file_size (inode_of s k) + 4096)"
    "(\<exists>rs \<in> set (ents k). has_room rs (name, v)) \<or> 4 \<le> card F \<and> i_blocks_num (inode_of s k) < MAX_FILE_BLOCKS"
    using can has_room_value [of _ name 0 v] by (auto simp: can_add_def)
  have d: "dir_ok s F (inode_of s k) (ents k)" "\<forall>(n, v) \<in> set (concat (ents k)). inum_ok s v"
    using iv(8) [OF c(1,2)] by auto
  have "in_ssize v" using inum_ssize [OF iv(11) v] .
  then have r: "dirent_ok (name, v)" using c by (simp add: dirent_ok_def)
  obtain nd t G rss' where a: "add_directory_entry (inode_of s k) v name s = Some (True, nd, t)"
    "dir_grown s F (inode_of s k) (ents k) (name, v) t G nd rss'"
    using add_directory_entry_run [OF iv(2) d(1) r c(6)] by blast
  have g: "freelist t G" "dir_ok t G nd rss'" "entry_added (ents k) (name, v) rss'" "dir_attrs nd = dir_attrs (inode_of s k)"
    "G \<union> file_blocks t nd = F \<union> file_blocks s (inode_of s k)"
    "only_changes (insert 0 F \<union> file_blocks s (inode_of s k)) s t" "head_only s t"
    "superblock_synced s \<longrightarrow> superblock_synced t" "i_child_num nd = (i_child_num (inode_of s k) + 1) mod 2 ^ 64"
    "i_file_size nd = i_file_size (inode_of s k) + 4096 * (i_blocks_num nd - i_blocks_num (inode_of s k))"
    using a(2) by (simp_all add: dir_grown_def file_blocks_def)
  let ?nd = "nd\<lparr>i_mtime := now, i_ctime := now\<rparr>"
  have sb: "same_blocks nd ?nd" "i_mode ?nd = i_mode nd" by (simp_all add: same_blocks_def)
  note sbf = same_blocks_file [OF sb(1)]
  have sz: "in_ssize (i_file_size (inode_of s k))" using inode_ok_inode_of [of s k] by (simp add: inode_ok_def)
  have "in_ssize (i_file_size nd)" using dir_grown_blocks [OF a(2) d(1)] g(10) c(5) sz by auto
  then have "inode_ok nd" by (rule dir_grown_inode_ok [OF a(2) inode_ok_inode_of])
  then have ok: "inode_ok ?nd" using now by (simp add: inode_ok_def)
  have al: "i_allocated nd = i_allocated (inode_of s k)" "i_mode nd = i_mode (inode_of s k)"
    using g(4) by (cases nd; cases "inode_of s k"; simp add: dir_attrs_def attrs_def)+
  have fb: "file_blocks t ?nd = file_blocks t nd" by (simp add: file_blocks_def same_blocks_at [OF sb(1)])
  have p: "G \<union> file_blocks t ?nd = F \<union> file_blocks s (inode_of s k)" using g(5) fb by simp
  have dk: "dir_ok t G ?nd rss'" using g(2) by (simp add: dir_ok_same_blocks [OF sb])
  have nd: "file_ok t G ?nd" "3 \<le> k \<Longrightarrow> i_allocated ?nd = i_allocated (inode_of s k)"
    "\<not> i_allocated ?nd \<Longrightarrow> i_blocks_num ?nd = 0 \<and> \<not> S_ISDIR (i_mode ?nd)"
    using dir_okD(1) [OF dk] al iv(6) [OF c(1)] c(2) by auto
  have dd: "S_ISDIR (i_mode ?nd) \<Longrightarrow> dir_ok t G ?nd rss' \<and> (\<forall>(n, v) \<in> set (concat rss'). inum_ok s v)"
    using dk d(2) v entry_added_set [OF g(3)] by auto
  note up = fs_inv_update [OF inv c(1) g(1) p g(6,7) mp [OF g(8) iv(3)] nd(1) ok nd(2,3) dd]
  note tab = table_during [OF inv c(1) g(1,6,7)]
  have "card F \<le> card G + 4"
    using blocks_card [OF iv(2) g(1) iv(5) [OF c(1)] dir_okD(1) [OF g(2)] g(5)] dir_grown_blocks [OF a(2) d(1)] by blast
  then show ?thesis
    using that [OF a(1) g(1) tab(1) allI [OF tab(2)] _ g(3) _ _ g(4,9)] up(1,2,4) by blast
qed

text \<open>The new file \<open>v\<close> with the inode \<open>node\<close> (and the records \<open>new\<close>, for a directory), entered under \<open>name\<close> in directory \<open>k\<close> and found
  at path \<open>p\<close>. Nothing else changes: paths that led somewhere lead there again, and the other files
  are the same.\<close>

definition file_created ::
  "fs \<Rightarrow> int set \<Rightarrow> (int \<Rightarrow> dirent list list) \<Rightarrow> cstr \<Rightarrow> int \<Rightarrow> cstr \<Rightarrow> int \<Rightarrow> inode
     \<Rightarrow> dirent list list \<Rightarrow> fs \<Rightarrow> int set \<Rightarrow> (int \<Rightarrow> dirent list list) \<Rightarrow> bool" where
  "file_created st F ents p k name v node new st' F' ents' \<longleftrightarrow>
     fs_ready st' F' ents' \<and> (\<exists>rss. entry_added (ents k) (name, v) rss \<and> ents' = ents(k := rss, v := new))
     \<and> inum_ok (fs_disk st) v \<and> v \<noteq> k
     \<and> inode_of (fs_disk st') v = node \<and> (\<forall>j. inum_ok (fs_disk st') j = inum_ok (fs_disk st) j)
     \<and> (\<forall>j. inum_ok (fs_disk st) j \<and> j \<noteq> k \<and> j \<noteq> v \<longrightarrow> same_file (fs_disk st) (fs_disk st') j)
     \<and> resolved st' ents' p = v \<and> (\<forall>q. resolved st ents q \<noteq> -1 \<longrightarrow> resolved st' ents' q = resolved st ents q)"

lemma new_node_facts:
  assumes "inode_ok nd" "in_ssize now" "0 \<le> mode" "mode < 2 ^ 32"
  shows "inode_ok (new_node now mode nd)" "i_allocated (new_node now mode nd) = i_allocated nd"
    "i_blocks_num (new_node now mode nd) = 0" "i_mode (new_node now mode nd) = mode"
    "i_blocks_num nd = 0 \<Longrightarrow> same_blocks nd (new_node now mode nd)"
  using assms by (simp_all add: new_node_def inode_ok_def same_blocks_def in_ssize_def)

lemma can_add_cong:
  "\<lbrakk>\<And>j. inum_ok t j = inum_ok s j; inode_of t k = inode_of s k\<rbrakk> \<Longrightarrow> can_add t F ents k name = can_add s F ents k name"
  by (simp add: can_add_def)

text \<open>The inode of a new file is filled in.\<close>

lemma write_new_node:
  assumes inv: "fs_inv u G ents" and v: "inum_ok u v" "i_allocated (inode_of u v)" "i_blocks_num (inode_of u v) = 0"
    and nd: "in_ssize now" "0 \<le> mode" "mode < 2 ^ 32"
  defines "node \<equiv> new_node now mode (inode_of u v)"
  shows "fs_inv (upd_inode u v node) G (ents(v := []))" "inode_of (upd_inode u v node) v = node"
    "\<And>j. inum_ok u j \<Longrightarrow> j \<noteq> v \<Longrightarrow> same_file u (upd_inode u v node) j"
proof -
  note iv = fs_invD [OF inv]
  note nf = new_node_facts [OF inode_ok_inode_of nd, where s1 = u and k1 = v, folded node_def]
  have b: "i_blocks_num node = 0" "i_allocated node" "same_blocks (inode_of u v) node"
    using nf(2-5) v(2,3) by (simp_all add: node_def new_node_facts)
  have fok: "file_ok u G node" using iv(5) [OF v(1)] same_blocks_file(2) [OF b(3)] by simp
  have eq: "G \<union> file_blocks u node = G \<union> file_blocks u (inode_of u v)"
    using b(1) v(3) by (simp add: file_blocks_def used_def)
  obtain sb where "altfs_superblock u = Ptr sb" using iv(2) by (auto simp: freelist_def)
  then have ho: "head_only u u" by (intro head_only_refl)
  have p1: "3 \<le> v \<Longrightarrow> i_allocated node = i_allocated (inode_of u v)"
    and p2: "\<not> i_allocated node \<Longrightarrow> i_blocks_num node = 0 \<and> \<not> S_ISDIR (i_mode node)" using b(2) v(2) by simp_all
  have p3: "S_ISDIR (i_mode node) \<Longrightarrow> dir_ok u G node [] \<and> (\<forall>(n, v) \<in> set (concat []). inum_ok u v)"
    using fok b(1) by (auto simp: dir_ok_def MAX_FILE_BLOCKS_def)
  note up = fs_inv_update [OF inv v(1) iv(2) eq only_changes_refl ho iv(3) fok nf(1) p1 p2 p3]
  show "fs_inv (upd_inode u v node) G (ents(v := []))" "inode_of (upd_inode u v node) v = node" using up(1,2) by blast+
  show "same_file u (upd_inode u v node) j" if "inum_ok u j" "j \<noteq> v" for j using up(4) that by blast
qed

lemma created_lookup:
  assumes inv: "fs_inv s F ents" and k: "inum_ok s k" "S_ISDIR (i_mode (inode_of s k))"
    and v: "inum_ok s v" "\<not> i_allocated (inode_of s v)"
    and e: "entry_added (ents k) (name, v) rss" "map_of (concat (ents k)) name = None"
    and kt: "i_mode (inode_of t k) = i_mode (inode_of s k)"
    and oth: "\<And>j. inum_ok s j \<Longrightarrow> j \<noteq> k \<Longrightarrow> j \<noteq> v \<Longrightarrow> inode_of t j = inode_of s j"
    and j: "inum_ok s j" "dir_lookup s ents j n = Some w"
  shows "dir_lookup t (ents(k := rss, v := [])) j n = Some w"
proof -
  have kv: "k \<noteq> v" and jv: "j \<noteq> v" using fs_invD(6) [OF inv] k v j by (auto simp: dir_lookup_def split: if_splits)
  show ?thesis
  proof (cases "j = k")
    case True
    then have "map_of (concat (ents k)) n = Some w" using j(2) k(2) by (simp add: dir_lookup_def)
    moreover from this have "n \<noteq> name" using e(2) by auto
    ultimately show ?thesis using True kv k(2) kt entry_added_lookup [OF e] by (simp add: dir_lookup_def)
  next
    case False
    then show ?thesis using j jv oth [OF j(1) False jv] by (auto simp: dir_lookup_def split: if_splits)
  qed
qed

theorem create_new_file_run:
  assumes rdy: "fs_ready st F ents" "int (length p) \<le> room st"
    and p: "copy_parent_path p = Some pp" "copy_file_name p = Some name" "k = resolved st ents pp" "k \<noteq> -1"
    and can: "can_add (fs_disk st) F ents k name" "has_bit (i_mode (inode_of (fs_disk st) k)) S_IWUSR"
    and ino: "altfs_superblock (fs_disk st) = Ptr sb" "first_free sb = Some v"
    and args: "in_ssize now" "0 \<le> mode" "mode < 2 ^ 32"
  shows "\<exists>st' F' ents' node. create_new_file now p mode st = Some (v, Ptr node, k, st')
    \<and> node = new_node now mode ((inode_of (fs_disk st) v)\<lparr>i_allocated := True\<rparr>)
    \<and> file_created st F ents p k name v node [] st' F' ents'
    \<and> room st - int (length p) \<le> room st' \<and> card F \<le> card F' + 4"
proof -
  let ?s = "fs_disk st"
  note inv = fs_readyD(1) [OF rdy(1)] and iv = fs_invD [OF fs_readyD(1) [OF rdy(1)]]
  have k: "inum_ok ?s k" "S_ISDIR (i_mode (inode_of ?s k))" "map_of (concat (ents k)) name = None"
    using can by (auto simp: can_add_def)
  have "int (length pp) \<le> room st" using parent_shorter [OF p(1)] rdy(2) by linarith
  from name_i_ready [OF rdy(1) this] obtain c where c: "name_i pp st = Some (k, st\<lparr>inodeCache := c\<rparr>)"
    "fs_ready (st\<lparr>inodeCache := c\<rparr>) F ents" "room st - int (length pp) \<le> cache_room c"
    unfolding p(3) .
  obtain t where t: "allocate_inode ?s = Some (v, t)" "fs_inv t F ents" "inum_ok ?s v" "3 \<le> v"
    "\<not> i_allocated (inode_of ?s v)" "inode_of t v = (inode_of ?s v)\<lparr>i_allocated := True, i_links_count := 0\<rparr>"
    "\<And>j. inum_ok ?s j \<Longrightarrow> j \<noteq> v \<Longrightarrow> same_file ?s t j" "only_changes {n. n = 0 \<or> inode_block ?s n} ?s t"
    using fs_inv_allocate [OF inv ino] by blast
  have kv: "k \<noteq> v" using iv(6) [OF k(1)] k(2) t(5) by auto
  have io: "inum_ok t j = inum_ok ?s j" for j by (simp add: inum_ok_def only_changes_geometry [OF t(8)])
  have kt: "inode_of t k = inode_of ?s k" using t(7) [OF k(1) kv] by (simp add: same_file_def)
  have cant: "can_add t F ents k name" using can(1) by (simp only: can_add_cong [OF io kt])
  have vt: "inum_ok t v" using t(3) io by simp
  obtain nd u G rss where a: "add_directory_entry (inode_of t k) v name t = Some (True, nd, u)"
    "freelist u G" "table_ready u" "\<forall>j. inum_ok u j = inum_ok t j"
    "fs_inv (upd_inode u k (nd\<lparr>i_mtime := now, i_ctime := now\<rparr>)) G (ents(k := rss))"
    "entry_added (ents k) (name, v) rss"
    "\<forall>j. inum_ok t j \<and> j \<noteq> k \<longrightarrow> same_file t (upd_inode u k (nd\<lparr>i_mtime := now, i_ctime := now\<rparr>)) j"
    "inode_of (upd_inode u k (nd\<lparr>i_mtime := now, i_ctime := now\<rparr>)) k = nd\<lparr>i_mtime := now, i_ctime := now\<rparr>"
    "dir_attrs nd = dir_attrs (inode_of t k)" "i_child_num nd = (i_child_num (inode_of t k) + 1) mod 2 ^ 64"
    "card F \<le> card G + 4"
    using add_entry_run [OF t(2) cant vt args(1)] .
  define w where "w = upd_inode u k (nd\<lparr>i_mtime := now, i_ctime := now\<rparr>)"
  note a' = a(5,7,8) [folded w_def]
  have iow: "inum_ok w j = inum_ok ?s j" for j by (simp add: w_def a(4) io)
  have vw: "inode_of w v = (inode_of ?s v)\<lparr>i_allocated := True, i_links_count := 0\<rparr>"
    using a'(2) vt kv t(6) by (auto simp: same_file_def)
  have v0: "i_blocks_num (inode_of w v) = 0" "i_allocated (inode_of w v)"
    using vw iv(6) [OF t(3,5)] by simp_all
  define node where "node = new_node now mode (inode_of w v)"
  have node: "node = new_node now mode ((inode_of ?s v)\<lparr>i_allocated := True\<rparr>)"
    by (simp add: node_def new_node_def vw)
  define x where "x = upd_inode w v node"
  have "inum_ok w v" using t(3) iow by simp
  note wn = write_new_node [OF a'(1) this v0(2,1) args, folded node_def, folded x_def]
  have iox: "inum_ok x j = inum_ok ?s j" for j by (simp add: x_def iow)
  note tw = fs_invD(11) [OF a'(1)]
  let ?st = "st\<lparr>fs_disk := x, inodeCache := c\<rparr>" and ?ents = "ents(k := rss, v := [])"
  have anc: "add_new_child now name mode k (inode_of ?s k) (st\<lparr>inodeCache := c\<rparr>) = Some (v, Ptr node, k, ?st)"
    using t(1,4) a(1,3) k(1) \<open>inum_ok w v\<close> tw io a(4)
    by (simp add: add_new_child_def kt w_def [symmetric] run) (simp add: node_def [symmetric] x_def)
  then have create: "create_new_file now p mode st = Some (v, Ptr node, k, ?st)"
    using p c(1) iv(11) k can(2) by (simp add: create_new_file_def run)
  have oth: "same_file ?s x j" if "inum_ok ?s j" "j \<noteq> k" "j \<noteq> v" for j
  proof (rule same_file_trans [OF same_file_trans [OF t(7) [OF that(1,3)]]])
    show "same_file t w j" using a'(2) that io by simp
    show "same_file w x j" using wn(3) that iow by simp
  qed
  have "same_file w x k" using wn(3) [of k] k(1) kv iow by simp
  then have kx: "i_mode (inode_of x k) = i_mode (inode_of ?s k)"
    using a'(3) a(9) kt by (cases nd; cases "inode_of ?s k") (simp add: same_file_def dir_attrs_def attrs_def)
  have othn: "\<And>j. inum_ok ?s j \<Longrightarrow> j \<noteq> k \<Longrightarrow> j \<noteq> v \<Longrightarrow> inode_of x j = inode_of ?s j"
    using oth by (simp add: same_file_def)
  have look: "dir_lookup x ?ents j n = Some y" if "inum_ok ?s j" "dir_lookup ?s ents j n = Some y" for j n y
    by (rule created_lookup [OF inv k(1,2) t(3,5) a(6) k(3) kx othn that])
  have mono: "resolve (dir_lookup x ?ents) q = resolved st ents q" if "resolved st ents q \<noteq> -1" for q
    by (rule resolve_mono [where P = "inum_ok ?s", OF look resolved_inum [OF rdy(1)] that])
  have "p \<noteq> [slash]" using p(1) by (auto simp: copy_parent_path_def get_last_index_of_parent_path_def)
  moreover have "dir_lookup x ?ents k name = Some v"
    using kv kx k(2) entry_added_lookup [OF a(6) k(3)] by (simp add: dir_lookup_def)
  moreover have "resolve (dir_lookup x ?ents) pp = k" using mono [of pp] p(3,4) by simp
  ultimately have new: "resolve (dir_lookup x ?ents) p = v"
    using p(1,2,4) by (simp add: resolve.simps [of _ p])
  have "cache_agrees c (resolved st ents)" using fs_readyD(2) [OF c(2)] by simp
  then have "cache_agrees c (resolve (dir_lookup x ?ents))" using mono by (rule cache_agrees_mono)
  then have "fs_ready ?st G ?ents" using wn(1) by (simp add: fs_ready_def)
  then have "file_created st F ents p k name v node [] ?st G ?ents"
    unfolding file_created_def using a(6) wn(2) iox oth new mono t(3) kv by auto
  moreover have "room st - int (length p) \<le> room ?st" using c(3) parent_shorter [OF p(1)] by simp
  ultimately show ?thesis using create node a(11) by blast
qed

text \<open>The path of a new file is free.\<close>

lemma resolved_none:
  assumes "copy_parent_path p = Some pp" "copy_file_name p = Some name" "k = resolved st ents pp"
    and "map_of (concat (ents k)) name = None"
  shows "resolved st ents p = -1"
proof -
  have "p \<noteq> [slash]" using assms(1) by (auto simp: copy_parent_path_def get_last_index_of_parent_path_def)
  then show ?thesis using assms by (simp add: resolve.simps [of _ p] Let_def dir_lookup_def)
qed

lemma file_created_cache:
  "file_created (st\<lparr>inodeCache := c\<rparr>) F ents p k name v node new st' F' ents' = file_created st F ents p k name v node new st' F' ents'"
  by (simp add: file_created_def)

text \<open>The conditions under which a file can be created at path \<open>p\<close>.\<close>

definition creatable :: "fs \<Rightarrow> int set \<Rightarrow> (int \<Rightarrow> dirent list list) \<Rightarrow> cstr \<Rightarrow> int \<Rightarrow> cstr \<Rightarrow> int \<Rightarrow> bool" where
  "creatable st F ents p k name v \<longleftrightarrow>
     (\<exists>pp. copy_parent_path p = Some pp \<and> copy_file_name p = Some name \<and> k = resolved st ents pp \<and> k \<noteq> -1)
     \<and> can_add (fs_disk st) F ents k name \<and> has_bit (i_mode (inode_of (fs_disk st) k)) S_IWUSR
     \<and> (\<exists>sb. altfs_superblock (fs_disk st) = Ptr sb \<and> first_free sb = Some v)"

theorem create_run:
  assumes rdy: "fs_ready st F ents" "2 * int (length p) \<le> room st"
    and cr: "creatable st F ents p k name v"
    and args: "in_ssize now" "0 \<le> mode" "mode < 2 ^ 32"
  obtains c st' F' ents' node where "name_i p st = Some (-1, st\<lparr>inodeCache := c\<rparr>)"
    "create_new_file now p mode (st\<lparr>inodeCache := c\<rparr>) = Some (v, Ptr node, k, st')"
    "node = new_node now mode ((inode_of (fs_disk st) v)\<lparr>i_allocated := True\<rparr>)"
    "file_created st F ents p k name v node [] st' F' ents'"
    "room st - 2 * int (length p) \<le> room st'" "card F \<le> card F' + 4"
proof -
  obtain pp sb where c: "copy_parent_path p = Some pp" "copy_file_name p = Some name" "k = resolved st ents pp" "k \<noteq> -1"
    "can_add (fs_disk st) F ents k name" "has_bit (i_mode (inode_of (fs_disk st) k)) S_IWUSR"
    "altfs_superblock (fs_disk st) = Ptr sb" "first_free sb = Some v"
    using cr by (auto simp: creatable_def)
  have none: "resolved st ents p = -1"
    by (rule resolved_none [OF c(1-3)]) (use c(5) in \<open>simp add: can_add_def\<close>)
  have "int (length p) \<le> room st" using rdy(2) by linarith
  from name_i_ready [OF rdy(1) this] obtain d where d: "name_i p st = Some (-1, st\<lparr>inodeCache := d\<rparr>)"
    "fs_ready (st\<lparr>inodeCache := d\<rparr>) F ents" "room st - int (length p) \<le> cache_room d"
    unfolding none .
  let ?st = "st\<lparr>inodeCache := d\<rparr>"
  have r: "int (length p) \<le> room ?st" using d(3) rdy(2) by simp
  obtain st' F' ents' node where e: "create_new_file now p mode ?st = Some (v, Ptr node, k, st')"
    "node = new_node now mode ((inode_of (fs_disk st) v)\<lparr>i_allocated := True\<rparr>)"
    "file_created ?st F ents p k name v node [] st' F' ents'"
    "room ?st - int (length p) \<le> room st'" "card F \<le> card F' + 4"
    using create_new_file_run [OF d(2) r c(1,2), of k sb v now mode] c args by auto
  show ?thesis
    by (rule that [OF d(1) e(1,2)]) (use e(3-5) d(3) in \<open>simp_all add: file_created_cache\<close>)
qed

theorem mknod_run:
  assumes "fs_ready st F ents" "2 * int (length p) \<le> room st" "creatable st F ents p k name v"
    and "in_ssize now" "0 \<le> mode" "mode < 2 ^ 32"
  shows "\<exists>st' F' ents'. altfs_mknod now p mode dev st = Some (True, st')
    \<and> file_created st F ents p k name v (new_node now mode ((inode_of (fs_disk st) v)\<lparr>i_allocated := True\<rparr>)) [] st' F' ents'
    \<and> room st - 2 * int (length p) \<le> room st' \<and> card F \<le> card F' + 4"
proof -
  obtain c st' F' ents' node where e: "name_i p st = Some (-1, st\<lparr>inodeCache := c\<rparr>)"
    "create_new_file now p mode (st\<lparr>inodeCache := c\<rparr>) = Some (v, Ptr node, k, st')"
    "node = new_node now mode ((inode_of (fs_disk st) v)\<lparr>i_allocated := True\<rparr>)"
    "file_created st F ents p k name v node [] st' F' ents'"
    "room st - 2 * int (length p) \<le> room st'" "card F \<le> card F' + 4"
    using create_run [OF assms] .
  have "0 \<le> v" using e(4) by (simp add: file_created_def inum_ok_def)
  then have "altfs_mknod now p mode dev st = Some (True, st')" using e(1,2) by (simp add: altfs_mknod_def)
  then show ?thesis using e(3-6) by blast
qed

section \<open>Creating a directory\<close>

theorem mkdir_run:
  assumes rdy: "fs_ready st F ents" "2 * int (length p) \<le> room st" "creatable st F ents p k name v" "8 \<le> card F"
    and args: "in_ssize now" "0 \<le> S_IFDIR OR mode" "S_IFDIR OR mode < 2 ^ 32" "S_ISDIR (S_IFDIR OR mode)"
  shows "\<exists>st' F' ents' node. altfs_mkdir now p mode st = Some (True, st')
    \<and> file_created st F ents p k name v node (dot_records v k) st' F' ents'
    \<and> i_mode node = S_IFDIR OR mode \<and> i_child_num node = 2 \<and> i_links_count node = 1
    \<and> room st - 2 * int (length p) \<le> room st'"
proof -
  obtain c st' F' ents' node where e: "name_i p st = Some (-1, st\<lparr>inodeCache := c\<rparr>)"
    "create_new_file now p (S_IFDIR OR mode) (st\<lparr>inodeCache := c\<rparr>) = Some (v, Ptr node, k, st')"
    "node = new_node now (S_IFDIR OR mode) ((inode_of (fs_disk st) v)\<lparr>i_allocated := True\<rparr>)"
    "file_created st F ents p k name v node [] st' F' ents'"
    "room st - 2 * int (length p) \<le> room st'" "card F \<le> card F' + 4"
    using create_run [OF rdy(1-3) args(1-3)] .
  let ?s = "fs_disk st'"
  obtain rss where f: "fs_ready st' F' ents'" "ents' = ents(k := rss, v := [])" "entry_added (ents k) (name, v) rss"
    "inum_ok (fs_disk st) v" "v \<noteq> k" "inode_of ?s v = node" "\<And>j. inum_ok ?s j = inum_ok (fs_disk st) j"
    "\<And>j. inum_ok (fs_disk st) j \<Longrightarrow> j \<noteq> k \<Longrightarrow> j \<noteq> v \<Longrightarrow> same_file (fs_disk st) ?s j"
    "resolved st' ents' p = v" "\<And>q. resolved st ents q \<noteq> -1 \<Longrightarrow> resolved st' ents' q = resolved st ents q"
    using e(4) unfolding file_created_def by blast
  note inv = fs_readyD(1) [OF f(1)] and iv = fs_invD [OF fs_readyD(1) [OF f(1)]]
  have k: "inum_ok (fs_disk st) k" using rdy(3) by (simp add: creatable_def can_add_def)
  have vs: "inum_ok ?s v" "inum_ok ?s k" using f(4,7) k by simp_all
  have nd: "i_mode node = S_IFDIR OR mode" "i_blocks_num node = 0" "i_child_num node = 0" "i_links_count node = 1"
    "i_file_size node = 0" "i_allocated node" "inode_ok node"
    using e(3) inode_ok_inode_of [of ?s v] f(6) by (simp_all add: new_node_def)
  have dn: "dir_ok ?s F' node []" using iv(8) [OF vs(1)] f(2,6) nd(1) args(4) by simp
  have "4 \<le> card F'" using e(6) rdy(4) by linarith
  moreover have "in_ssize v" "in_ssize k" using inum_ssize [OF iv(11)] vs by blast+
  ultimately obtain nd1 s1 nd2 u G where a: "add_directory_entry node v [46] ?s = Some (True, nd1, s1)"
    "add_directory_entry nd1 k [46, 46] s1 = Some (True, nd2, u)"
    "freelist u G" "dir_ok u G nd2 (dot_records v k)" "i_child_num nd2 = (i_child_num node + 2) mod 2 ^ 64"
    "i_file_size nd2 = i_file_size node + 4096" "dir_attrs nd2 = dir_attrs node"
    "G \<union> file_blocks u nd2 = F'" "only_changes (insert 0 F') ?s u" "head_only ?s u"
    "superblock_synced ?s \<longrightarrow> superblock_synced u"
    using add_dots_run [OF iv(2) _ dn] by blast
  have n2: "i_allocated nd2" "i_mode nd2 = i_mode node" "i_links_count nd2 = 1"
    using a(7) nd(4,6) by (cases nd2; cases node; simp add: dir_attrs_def attrs_def)+
  have ok2: "inode_ok nd2"
    by (rule dir_attrs_inode_ok [OF freelist_mounted [OF a(3)] dir_okD(1) [OF a(4)] a(7) nd(7)])
      (simp_all add: a(5,6) nd(3,5) in_ssize_def)
  have fb: "file_blocks ?s (inode_of ?s v) = {}" using f(6) nd(2) by (simp add: file_blocks_def used_def)
  have ch: "only_changes (insert 0 F' \<union> file_blocks ?s (inode_of ?s v)) ?s u" using a(9) fb by simp
  have G: "G \<union> file_blocks u nd2 = F' \<union> file_blocks ?s (inode_of ?s v)" using a(8) fb by simp
  note tr = table_during [OF inv vs(1) a(3) ch a(10)]
  have dd: "S_ISDIR (i_mode nd2) \<Longrightarrow> dir_ok u G nd2 (dot_records v k)
      \<and> (\<forall>(n, v) \<in> set (concat (dot_records v k)). inum_ok ?s v)"
    using a(4) vs by (simp add: dot_records_def)
  have al: "3 \<le> v \<Longrightarrow> i_allocated nd2 = i_allocated (inode_of ?s v)"
    "\<not> i_allocated nd2 \<Longrightarrow> i_blocks_num nd2 = 0 \<and> \<not> S_ISDIR (i_mode nd2)" using n2(1) nd(6) f(6) by simp_all
  let ?t = "upd_inode u v nd2" and ?ents = "ents'(v := dot_records v k)"
  note up = fs_inv_update [OF inv vs(1) a(3) G ch a(10) mp [OF a(11) iv(3)] dir_okD(1) [OF a(4)] ok2 al dd]
  let ?st = "st'\<lparr>fs_disk := ?t\<rparr>"
  have "0 \<le> v" using f(4) by (simp add: inum_ok_def)
  then have run: "altfs_mkdir now p mode st = Some (True, ?st)"
    using e(1,2) a(1,2) tr(1,2) vs by (simp add: altfs_mkdir_def run)
  have tk: "inode_of ?t v = nd2" "\<And>j. inum_ok ?s j \<Longrightarrow> j \<noteq> v \<Longrightarrow> same_file ?s ?t j" using up(2,4) by blast+
  have look: "dir_lookup ?t ?ents j n = Some y" if "inum_ok ?s j" "dir_lookup ?s ents' j n = Some y" for j n y
  proof -
    have "j \<noteq> v" using that(2) f(2) by (auto simp: dir_lookup_def split: if_splits)
    then show ?thesis using that tk(2) [OF that(1)] by (auto simp: dir_lookup_def same_file_def split: if_splits)
  qed
  have mono: "resolve (dir_lookup ?t ?ents) q = resolved st' ents' q" if "resolved st' ents' q \<noteq> -1" for q
    by (rule resolve_mono [where P = "inum_ok ?s", OF look resolved_inum [OF f(1)] that])
  have "cache_agrees (inodeCache st') (resolve (dir_lookup ?t ?ents))"
    by (rule cache_agrees_mono [OF fs_readyD(2) [OF f(1)] mono])
  moreover have "fs_inv ?t G ?ents" using up(1) by blast
  ultimately have rd: "fs_ready ?st G ?ents" by (simp add: fs_ready_def)
  have "\<And>j. inum_ok ?t j = inum_ok (fs_disk st) j" using tr(2) f(7) by simp
  moreover have "same_file (fs_disk st) ?t j" if "inum_ok (fs_disk st) j" "j \<noteq> k" "j \<noteq> v" for j
    by (rule same_file_trans [OF f(8) [OF that] tk(2)]) (use that f(7) in simp_all)
  moreover have "resolve (dir_lookup ?t ?ents) p = v" using mono [of p] f(9) \<open>0 \<le> v\<close> by simp
  moreover have "resolve (dir_lookup ?t ?ents) q = resolved st ents q" if "resolved st ents q \<noteq> -1" for q
    using mono [of q] f(10) [OF that] that by simp
  ultimately have "file_created st F ents p k name v nd2 (dot_records v k) ?st G ?ents"
    unfolding file_created_def using rd f(2-5) tk(1) by (intro conjI exI [of _ rss]) auto
  then show ?thesis using run n2 nd(1,3) a(5) e(5) by (intro exI [of _ ?st]) auto
qed

end
