(* ===== verification/Reading_Files.thy ===== *)
theory Reading_Files
  imports Creating_Files
begin

text \<open>
  Looking at files: \<open>altfs_getattr\<close> and \<open>altfs_read\<close> of
  \<open>src/interface_layer.c\<close>. A read gives the bytes of the file in its range, whether they lie in one
  block or in many.
\<close>

section \<open>Attributes\<close>

theorem getattr_run:
  assumes "fs_ready st F ents" "int (length p) \<le> room st"
  shows "\<exists>c. fs_ready (st\<lparr>inodeCache := c\<rparr>) F ents \<and> room st - int (length p) \<le> cache_room c
    \<and> altfs_getattr p st = Some (if resolved st ents p = -1 then (- ENOENT, zero_stat, st\<lparr>inodeCache := c\<rparr>)
        else (0, (inode_to_stat (inode_of (fs_disk st) (resolved st ents p)) zero_stat)\<lparr>st_ino := resolved st ents p\<rparr>,
              st\<lparr>inodeCache := c\<rparr>))"
proof -
  obtain c where c: "name_i p st = Some (resolved st ents p, st\<lparr>inodeCache := c\<rparr>)"
    "fs_ready (st\<lparr>inodeCache := c\<rparr>) F ents" "room st - int (length p) \<le> cache_room c"
    using name_i_ready [OF assms] .
  show ?thesis
    using c fs_invD(11) [OF fs_readyD(1) [OF assms(1)]] resolved_inum [OF assms(1), of p]
    by (intro exI [of _ c]) (auto simp: altfs_getattr_def run)
qed

section \<open>The bytes of a file\<close>

definition file_byte :: "altfs \<Rightarrow> inode \<Rightarrow> int \<Rightarrow> byte" where
  "file_byte s nd x = file_data s nd (x div 4096) (x mod 4096)"

text \<open>\<open>b\<close> is \<open>buff\<close> with the first \<open>n\<close> bytes read from position \<open>pos\<close> of the file.\<close>

definition after_read :: "altfs \<Rightarrow> inode \<Rightarrow> int \<Rightarrow> buf \<Rightarrow> int \<Rightarrow> buf" where
  "after_read s nd pos buff n = (\<lambda>j. if 0 \<le> j \<and> j < n then file_byte s nd (pos + j) else buff j)"

lemma after_read_step:
  assumes "pos + n = l * 4096 + q" "0 \<le> q" "0 \<le> m" "q + m \<le> 4096" "0 \<le> n" "n + m \<le> cap"
  shows "copy_to_user cap (after_read s nd pos buff n) n (file_data s nd l) q m
    = Some (after_read s nd pos buff (n + m))"
proof -
  have "file_byte s nd (pos + j) = file_data s nd l (q + (j - n))" if "n \<le> j" "j < n + m" for j
  proof -
    have "pos + j = l * 4096 + (q + (j - n))" "0 \<le> q + (j - n)" "q + (j - n) < 4096" using that assms by auto
    then have "(pos + j) div 4096 = l" "(pos + j) mod 4096 = q + (j - n)" by (simp_all only:) simp_all
    then show ?thesis by (simp add: file_byte_def)
  qed
  then show ?thesis
    using assms by (auto simp: copy_to_user_def memcpy_def after_read_def fun_eq_iff)
qed

lemma read_chunk_run:
  assumes "mounted s" "file_ok s F nd" "0 \<le> l" "l < i_blocks_num nd" "walk_ok s nd l prev"
  obtains prev' where "get_disk_block_from_inode_block nd l prev s = Some (file_block s nd l, prev')"
    "walk_ok s nd (l + 1) prev'" "0 < file_block s nd l"
    "read_data_block (file_block s nd l) s = Some (Some (file_data s nd l))"
proof -
  note max = file_ok_max [OF assms(2)]
  obtain prev' where "get_disk_block_from_inode_block nd l prev s = Some (file_block s nd l, prev')"
    "walk_ok s nd (l + 1) prev'"
    using walk_step [OF assms(1,2) max assms(3-5)] .
  then show ?thesis
    using file_block_data [OF assms(1-4)] assms(1) by (intro that) (simp_all add: run file_data_def)
qed

text \<open>How many bytes have been read before block \<open>i\<close> of the \<open>k\<close> blocks of a read.\<close>

definition read_before :: "int \<Rightarrow> int \<Rightarrow> int \<Rightarrow> int \<Rightarrow> int" where
  "read_before sbo n k i = (if i = 0 then 0 else if i < k then i * 4096 - sbo else n)"

lemma read_blocks_run:
  assumes m: "mounted s" and ok: "file_ok s F nd"
    and n: "0 < n" "n \<le> cap" "0 \<le> pos" "pos + n \<le> 4096 * i_blocks_num nd"
  shows "read_blocks nd cap n pos buff s = Some (Some n, after_read s nd pos buff n)"
proof -
  have max: "i_blocks_num nd \<le> MAX_FILE_BLOCKS" using file_ok_max [OF ok] .
  define last where "last = pos + n - 1"
  define st where "st = pos div 4096"
  define sbo where "sbo = pos mod 4096"
  define k where "k = last div 4096 - st + 1"
  define ebo where "ebo = last mod 4096"
  have wrap: "(pos + n - 1) mod 2 ^ 64 = last" using n max by (simp add: last_def MAX_FILE_BLOCKS_def)
  have b: "0 \<le> st" "0 \<le> sbo" "sbo < 4096" "pos = st * 4096 + sbo" "last = (st + k - 1) * 4096 + ebo"
    "0 \<le> ebo" "ebo < 4096" "0 \<le> last"
    using n by (simp_all add: st_def sbo_def k_def ebo_def last_def)
  have "st \<le> last div 4096" using n by (simp add: st_def last_def zdiv_mono1)
  then have k1: "1 \<le> k" by (simp add: k_def)
  have "last div 4096 < i_blocks_num nd" using n by (simp add: last_def div_less_iff_less_mult)
  then have le: "st + k \<le> i_blocks_num nd" by (simp add: k_def)
  have tot: "n = (k - 1) * 4096 + ebo + 1 - sbo" using b(4,5) by (simp add: last_def algebra_simps)
  have start: "after_read s nd pos buff 0 = buff" by (rule ext) (auto simp: after_read_def)
  have rb: "read_blocks nd cap n pos buff s = (
     if k = 1 then do {
       (dblock_num, _) \<leftarrow> get_disk_block_from_inode_block nd st 0 s;
       if dblock_num \<le> 0 then Some (None, buff)
       else do {
         p \<leftarrow> read_data_block dblock_num s;
         case p of
           None \<Rightarrow> Some (None, buff)
         | Some buf_read \<Rightarrow> do {
             buff \<leftarrow> copy_to_user cap buff 0 buf_read sbo n;
             Some (Some n, buff)
           }
       }
     }
     else do {
       c \<leftarrow> for_loop 0 k (read_round nd cap st sbo ebo k s) (0, buff, 0);
       case c of
         Return _ (_, buff, _) \<Rightarrow> Some (None, buff)
       | Next (_, buff, bytes_read) \<Rightarrow> Some (Some bytes_read, buff)
       | Break (_, buff, bytes_read) \<Rightarrow> Some (Some bytes_read, buff)
     })"
  proof -
    have "c_div pos BLOCK_SIZE = st" "c_mod pos BLOCK_SIZE = sbo" "last div BLOCK_SIZE - st + 1 = k" "last mod BLOCK_SIZE = ebo"
      using n(3) by (simp_all add: st_def sbo_def k_def ebo_def)
    then show ?thesis unfolding read_blocks_def wrap Let_def by (simp only:)
  qed
  show ?thesis
  proof (cases "k = 1")
    case True
    have l: "st < i_blocks_num nd" using le k1 by simp
    obtain prev where g: "get_disk_block_from_inode_block nd st 0 s = Some (file_block s nd st, prev)"
      "0 < file_block s nd st" "read_data_block (file_block s nd st) s = Some (Some (file_data s nd st))"
      using read_chunk_run [OF m ok b(1) l walk_start] by blast
    have "copy_to_user cap (after_read s nd pos buff 0) 0 (file_data s nd st) sbo n = Some (after_read s nd pos buff (0 + n))"
      by (rule after_read_step) (use b tot True n in simp_all)
    then show ?thesis using g unfolding rb start by (simp add: True)
  next
    case False
    then have k2: "2 \<le> k" using k1 by simp
    define br where "br = read_before sbo n k"
    have br0: "br 0 = 0" by (simp add: br_def read_before_def)
    define I where "I = (\<lambda>i (prev, b, r). walk_ok s nd (st + i) prev \<and> r = br i \<and> b = after_read s nd pos buff (br i))"
    have "\<exists>x. for_loop 0 k (read_round nd cap st sbo ebo k s) (0, buff, 0) = Some (Next x) \<and> I k x"
    proof (rule for_loop_all)
      show "I 0 (0, buff, 0)" by (simp add: I_def br_def read_before_def start)
      show "0 \<le> k" using k2 by simp
      fix i x assume i: "0 \<le> i" "i < k" and x: "I i x"
      obtain prev bf r where [simp]: "x = (prev, bf, r)" by (cases x)
      have w: "walk_ok s nd (st + i) prev" "r = br i" "bf = after_read s nd pos buff (br i)" using x by (simp_all add: I_def)
      have l: "0 \<le> st + i" "st + i < i_blocks_num nd" using b(1) i le by auto
      obtain prev' where g: "get_disk_block_from_inode_block nd (st + i) prev s = Some (file_block s nd (st + i), prev')"
        "walk_ok s nd (st + i + 1) prev'" "0 < file_block s nd (st + i)"
        "read_data_block (file_block s nd (st + i)) s = Some (Some (file_data s nd (st + i)))"
        using read_chunk_run [OF m ok l w(1)] by blast
      define q where "q = (if i = 0 then sbo else 0)"
      define c where "c = (if i = 0 then 4096 - sbo else if i = k - 1 then ebo + 1 else 4096)"
      have step: "br (i + 1) = br i + c"
        using i k2 tot by (simp add: br_def read_before_def c_def algebra_simps)
      have bi: "pos + br i = (st + i) * 4096 + q" "0 \<le> br i"
        using i b by (auto simp: br_def read_before_def q_def algebra_simps)
      have "(i + 1) * 4096 \<le> (k - 1) * 4096" if "i < k - 1" using that by (intro mult_right_mono) auto
      then have "br i + c \<le> n"
        using i k2 tot b by (auto simp: br_def read_before_def c_def algebra_simps)
      then have "copy_to_user cap bf r (file_data s nd (st + i)) q c = Some (after_read s nd pos buff (br (i + 1)))"
        unfolding w step by (intro after_read_step) (use bi b n in \<open>auto simp: q_def c_def\<close>)
      then have "read_round nd cap st sbo ebo k s i x = Some (Next (prev', after_read s nd pos buff (br (i + 1)), br (i + 1)))"
        using g w(2) step br0 False unfolding read_round_def
        by (cases "i = 0"; cases "i = k - 1") (simp_all add: q_def c_def Let_def)
      then show "\<exists>x'. read_round nd cap st sbo ebo k s i x = Some (Next x') \<and> I (i + 1) x'"
        using g(2) by (simp add: I_def add.assoc)
    qed
    then show ?thesis
      unfolding rb using False k2 by (auto simp: I_def br_def read_before_def)
  qed
qed

section \<open>Reading\<close>

text \<open>A step after which every directory answers as before.\<close>

lemma fs_ready_step:
  assumes rdy: "fs_ready st F ents" and inv: "fs_inv t G ents" and io: "\<And>j. inum_ok t j = inum_ok (fs_disk st) j"
    and look: "\<And>j. inum_ok (fs_disk st) j \<Longrightarrow> dir_lookup t ents j = dir_lookup (fs_disk st) ents j"
  shows "fs_ready (st\<lparr>fs_disk := t\<rparr>) G ents" "resolve (dir_lookup t ents) q = resolved st ents q"
proof -
  have mono: "resolve (dir_lookup t ents) q = resolved st ents q" if "resolved st ents q \<noteq> -1" for q
    by (rule resolve_mono [where P = "inum_ok (fs_disk st)", OF _ resolved_inum [OF rdy] that]) (simp add: look)
  have "cache_agrees (inodeCache st) (resolve (dir_lookup t ents))"
    by (rule cache_agrees_mono [OF fs_readyD(2) [OF rdy] mono])
  then show rd: "fs_ready (st\<lparr>fs_disk := t\<rparr>) G ents" using inv by (simp add: fs_ready_def)
  show "resolve (dir_lookup t ents) q = resolved st ents q"
  proof (cases "resolve (dir_lookup t ents) q = -1")
    case True
    then show ?thesis using mono [of q] by (cases "resolved st ents q = -1") auto
  next
    case False
    have "resolved st ents q = resolve (dir_lookup t ents) q"
      by (rule resolve_mono [where P = "inum_ok (fs_disk st)", OF _ _ False])
        (use look resolved_inum [OF rd] io in auto)
    then show ?thesis by simp
  qed
qed

text \<open>A change of the inode that keeps the blocks and the type.\<close>

lemma fs_ready_attrs:
  assumes rdy: "fs_ready st F ents" and k: "inum_ok (fs_disk st) k"
    and nd: "same_blocks (inode_of (fs_disk st) k) nd" "inode_ok nd" "i_mode nd = i_mode (inode_of (fs_disk st) k)"
      "i_allocated nd = i_allocated (inode_of (fs_disk st) k)"
  defines "t \<equiv> upd_inode (fs_disk st) k nd"
  shows "fs_ready (st\<lparr>fs_disk := t\<rparr>) F ents" "inode_of t k = nd"
    "\<And>l. 0 \<le> l \<Longrightarrow> l < i_blocks_num nd \<Longrightarrow> file_data t nd l = file_data (fs_disk st) nd l"
    "\<And>j. inum_ok (fs_disk st) j \<Longrightarrow> j \<noteq> k \<Longrightarrow> same_file (fs_disk st) t j"
    "resolve (dir_lookup t ents) q = resolved st ents q"
proof -
  let ?s = "fs_disk st"
  note up = fs_inv_attrs [OF fs_readyD(1) [OF rdy] k nd, folded t_def]
  show tk: "inode_of t k = nd" by (rule up(2))
  show fd: "file_data t nd l = file_data ?s nd l" if "0 \<le> l" "l < i_blocks_num nd" for l using up(4) that .
  show sf: "same_file ?s t j" if "inum_ok ?s j" "j \<noteq> k" for j using up(3) that .
  have look: "dir_lookup t ents j = dir_lookup ?s ents j" if "inum_ok ?s j" for j
    using sf [OF that] tk nd(3) by (cases "j = k") (auto simp: dir_lookup_def same_file_def fun_eq_iff)
  have io: "inum_ok t j = inum_ok ?s j" for j by (simp add: t_def)
  show "fs_ready (st\<lparr>fs_disk := t\<rparr>) F ents" by (rule fs_ready_step(1) [OF rdy up(1) io look])
  show "resolve (dir_lookup t ents) q = resolved st ents q" by (rule fs_ready_step(2) [OF rdy up(1) io look])
qed

text \<open>The bytes asked for, as far as the file goes; the rest of the caller's buffer is zeroed.\<close>

theorem read_run:
  assumes rdy: "fs_ready st F ents" "int (length p) \<le> room st" "resolved st ents p = k" "k \<noteq> -1"
    and sz: "i_file_size (inode_of (fs_disk st) k) \<le> 4096 * i_blocks_num (inode_of (fs_disk st) k)"
    and n: "0 < n" "pos + n < 2 ^ 64" "0 \<le> pos" "pos < i_file_size (inode_of (fs_disk st) k)" and now: "in_ssize now"
  defines "m \<equiv> min n (i_file_size (inode_of (fs_disk st) k) - pos)"
  shows "\<exists>st'. altfs_read now p buff n pos st = Some (m,
      (\<lambda>j. if 0 \<le> j \<and> j < n then (if j < m then file_byte (fs_disk st) (inode_of (fs_disk st) k) (pos + j) else 0) else buff j), st')
    \<and> fs_ready st' F ents \<and> room st - int (length p) \<le> room st'
    \<and> inode_of (fs_disk st') k = (inode_of (fs_disk st) k)\<lparr>i_atime := now\<rparr>
    \<and> (\<forall>j. inum_ok (fs_disk st) j \<and> j \<noteq> k \<longrightarrow> same_file (fs_disk st) (fs_disk st') j)
    \<and> (\<forall>l. 0 \<le> l \<and> l < i_blocks_num (inode_of (fs_disk st) k) \<longrightarrow>
         file_data (fs_disk st') (inode_of (fs_disk st') k) l = file_data (fs_disk st) (inode_of (fs_disk st) k) l)
    \<and> (\<forall>q. resolved st' ents q = resolved st ents q)"
proof -
  let ?s = "fs_disk st" and ?nd = "inode_of (fs_disk st) k"
  note iv = fs_invD [OF fs_readyD(1) [OF rdy(1)]]
  obtain c where c: "name_i p st = Some (k, st\<lparr>inodeCache := c\<rparr>)"
    "fs_ready (st\<lparr>inodeCache := c\<rparr>) F ents" "room st - int (length p) \<le> cache_room c"
    using name_i_ready [OF rdy(1,2)] unfolding rdy(3) .
  have k: "inum_ok ?s k" using resolved_inum [OF rdy(1), of p] rdy(3,4) by simp
  have max: "i_blocks_num ?nd \<le> MAX_FILE_BLOCKS" using file_ok_max [OF iv(5) [OF k]] .
  have lt: "i_file_size ?nd < 2 ^ 62" using sz max by (simp add: MAX_FILE_BLOCKS_def)
  let ?b = "memcpy buff 0 zero_buf 0 n"
  have m: "0 < m" "m \<le> n" "pos + m \<le> 4096 * i_blocks_num ?nd" "m < 2 ^ 63"
    using n sz lt by (auto simp: m_def)
  have rb: "read_blocks ?nd n m pos ?b ?s = Some (Some m, after_read ?s ?nd pos ?b m)"
    by (rule read_blocks_run [OF iv(10) iv(5) [OF k] m(1,2) n(3) m(3)])
  have buf: "after_read ?s ?nd pos ?b m = (\<lambda>j. if 0 \<le> j \<and> j < n then (if j < m then file_byte ?s ?nd (pos + j) else 0) else buff j)"
    using m(2) by (auto simp: after_read_def memcpy_def fun_eq_iff)
  let ?st = "st\<lparr>inodeCache := c\<rparr>" and ?t = "upd_inode ?s k (?nd\<lparr>i_atime := now\<rparr>)"
  have nd: "same_blocks ?nd (?nd\<lparr>i_atime := now\<rparr>)" "inode_ok (?nd\<lparr>i_atime := now\<rparr>)"
    using inode_ok_inode_of [of ?s k] now by (simp_all add: same_blocks_def inode_ok_def)
  note up = fs_ready_attrs [OF c(2), of k "?nd\<lparr>i_atime := now\<rparr>", simplified, OF k nd]
  have "in_ssize m" using m by (simp add: in_ssize_def)
  have "altfs_read now p buff n pos st = Some (m, after_read ?s ?nd pos ?b m, ?st\<lparr>fs_disk := ?t\<rparr>)"
  proof (cases "i_file_size ?nd < pos + n")
    case True
    then have mv: "m = i_file_size ?nd - pos" by (simp add: m_def)
    show ?thesis using n c(1) rdy(4) rb iv(11) k lt True \<open>in_ssize m\<close> unfolding mv by (simp add: altfs_read_def Let_def run)
  next
    case False
    then have mv: "m = n" by (simp add: m_def)
    show ?thesis using n c(1) rdy(4) rb iv(11) k lt False \<open>in_ssize m\<close> unfolding mv by (simp add: altfs_read_def Let_def run)
  qed
  moreover have "file_data ?t (inode_of ?t k) l = file_data ?s ?nd l" if "0 \<le> l" "l < i_blocks_num ?nd" for l
    using up(2,3) that same_blocks_file(1) [OF nd(1), of ?s] by (simp add: file_data_def)
  ultimately show ?thesis
    using up(1,2,4,5) c(3) unfolding buf by (intro exI [of _ "?st\<lparr>fs_disk := ?t\<rparr>"]) simp
qed

end
