(* ===== verification/Writing_Files.thy ===== *)
theory Writing_Files
  imports Reading_Files
begin

text \<open>
  \<open>altfs_write\<close> of \<open>src/interface_layer.c\<close>: the loop over the blocks a file has and the loop that adds
  blocks, proved together against the bytes the file should have afterwards. A read of what was
  written gives it back.
\<close>

section \<open>The bytes of a file after a write\<close>

definition written_byte :: "altfs \<Rightarrow> inode \<Rightarrow> buf \<Rightarrow> int \<Rightarrow> int \<Rightarrow> int \<Rightarrow> byte" where
  "written_byte s nd buff pos n x =
     (if pos \<le> x \<and> x < pos + n then buff (x - pos)
      else if x < 4096 * i_blocks_num nd then file_byte s nd x else 0)"

text \<open>The contents of block \<open>l\<close> after the write.\<close>

definition written_block :: "altfs \<Rightarrow> inode \<Rightarrow> buf \<Rightarrow> int \<Rightarrow> int \<Rightarrow> int \<Rightarrow> buf" where
  "written_block s nd buff pos n l =
     (\<lambda>j. if 0 \<le> j \<and> j < 4096 then written_byte s nd buff pos n (l * 4096 + j) else 0)"

lemma is_block_written [simp]: "is_block (written_block s nd buff pos n l)"
  by (simp add: written_block_def is_block_def)

lemma file_byte_block: "0 \<le> j \<Longrightarrow> j < 4096 \<Longrightarrow> file_byte s nd (l * 4096 + j) = file_data s nd l j"
  by (simp add: file_byte_def)

text \<open>How many bytes have been written before block \<open>l\<close>.\<close>

definition written_before :: "int \<Rightarrow> int \<Rightarrow> int \<Rightarrow> int" where
  "written_before pos n l = (if l \<le> pos div 4096 then 0 else if l \<le> (pos + n - 1) div 4096 then l * 4096 - pos else n)"

text \<open>A part of the block is copied from the caller's buffer; the rest stays.\<close>

lemma copy_written:
  assumes old: "\<And>j. 0 \<le> j \<Longrightarrow> j < 4096 \<Longrightarrow> \<not> (q \<le> j \<and> j < q + m) \<Longrightarrow> b j = written_byte s nd buff pos n (l * 4096 + j)"
    and b: "is_block b" and q: "pos + w = l * 4096 + q" "0 \<le> q" "0 \<le> m" "q + m \<le> 4096" "0 \<le> w" "w + m \<le> n"
  shows "copy_from_user n b q buff w m = Some (written_block s nd buff pos n l)"
proof -
  have "memcpy b q buff w m = written_block s nd buff pos n l"
  proof
    fix j
    consider "q \<le> j" "j < q + m" | "0 \<le> j" "j < 4096" "\<not> (q \<le> j \<and> j < q + m)" | "j < 0 \<or> 4096 \<le> j" "\<not> (q \<le> j \<and> j < q + m)"
      by linarith
    then show "memcpy b q buff w m j = written_block s nd buff pos n l j"
    proof cases
      case 1
      have "buff (w + (j - q)) = buff (l * 4096 + j - pos)" by (rule arg_cong [of _ _ buff]) (use q(1) in linarith)
      then show ?thesis using 1 q by (auto simp: memcpy_def written_block_def written_byte_def)
    next
      case 2
      then show ?thesis using old [OF 2] by (auto simp: memcpy_def written_block_def)
    next
      case 3
      then show ?thesis using b by (auto simp: memcpy_def written_block_def is_block_def)
    qed
  qed
  then show ?thesis using q by (simp add: copy_from_user_def)
qed

section \<open>Adding a block\<close>

lemma append_block_run:
  assumes F: "freelist s F" "4 \<le> card F" and ok: "file_ok s F nd" and N: "i_blocks_num nd < MAX_FILE_BLOCKS"
  shows "\<exists>b t nd' u G. allocate_data_block s = Some (b, t) \<and> 0 < b
    \<and> add_datablock_to_inode nd b t = Some (True, nd', u) \<and> freelist u G \<and> file_ok u G nd'
    \<and> i_blocks_num nd' = i_blocks_num nd + 1 \<and> file_block u nd' (i_blocks_num nd) = b \<and> attrs nd' = attrs nd
    \<and> (\<forall>l. 0 \<le> l \<and> l < i_blocks_num nd \<longrightarrow> file_data u nd' l = file_data s nd l)
    \<and> file_data u nd' (i_blocks_num nd) = zero_buf
    \<and> G \<union> file_blocks u nd' = F \<union> file_blocks s nd \<and> card F \<le> card G + 4
    \<and> only_changes (insert 0 F \<union> file_blocks s nd) s u \<and> head_only s u
    \<and> (superblock_synced s \<longrightarrow> superblock_synced u)"
proof -
  define N where "N = i_blocks_num nd"
  have m: "mounted s" and ne: "F \<noteq> {}" using freelist_mounted [OF F(1)] F(2) by auto
  have tr: "tree_ok s F nd (used N)" "0 \<le> N" using ok by (simp_all add: file_ok_def N_def)
  obtain b t where t: "allocate_data_block s = Some (b, t)" "b \<in> F" "freelist t (F - {b})" "disk_block t b = zero_buf"
    "only_changes (insert 0 F) s t" "head_only s t" "superblock_synced s \<longrightarrow> superblock_synced t"
    using allocate_data_block_free [OF F(1) ne] by blast
  have ou: "block_at s nd q \<notin> insert 0 F" if "q \<in> used (i_blocks_num nd)" for q
    using tree_ok_facts [OF tr(1) that [folded N_def]] data_block_valid [OF m, of 0] by auto
  have subF: "block_at s nd q \<notin> F - {b}" if "q \<in> used (i_blocks_num nd)" for q
    using ou [OF that] by blast
  note fr = file_ok_frame [OF ok t(5) ou subF]
  have bs: "data_block s b" "0 < b" using freelist_data_block [OF F(1) t(2)] data_block_valid [OF m] by auto
  have "b \<notin> block_at t nd ` used N" using fr(2) ou t(2) by (auto simp: N_def)
  then have ad: "addable t (F - {b}) nd b"
    using bs(1) by (simp add: addable_def N_def only_changes_geometry [OF t(5)])
  have "3 \<le> card (F - {b})" using F(2) t(2) finite_freelist [OF F(1)] by (simp add: card_Diff_singleton)
  then obtain nd1 w G where w: "add_datablock_to_inode nd b t = Some (True, nd1, w)" "block_added t (F - {b}) nd b w G nd1"
    using add_datablock_run [OF t(3) _ fr(1) _ ad] N by blast
  then have a: "freelist w G" "G \<subseteq> F - {b}" "i_blocks_num nd1 = N + 1" "file_ok w G nd1" "file_block w nd1 N = b"
    "\<And>q. q \<in> used N \<Longrightarrow> block_at w nd1 q = block_at t nd q"
    "insert b (F - {b} - G) = block_at w nd1 ` (used (N + 1) - used N)"
    "only_changes (insert 0 (F - {b}) \<union> block_at t nd ` used N) t w" "head_only t w"
    "superblock_synced t \<longrightarrow> superblock_synced w"
    "\<And>l. 0 \<le> l \<Longrightarrow> l < N \<Longrightarrow> disk_block w (file_block t nd l) = disk_block t (file_block t nd l)"
    "disk_block w b = disk_block t b" "attrs nd1 = attrs nd"
    unfolding block_added_def N_def by blast+
  have data: "file_data w nd1 l = file_data s nd l" if l: "0 \<le> l" "l < N" for l
  proof -
    have "file_block w nd1 l = file_block t nd l" using a(6) pos_of_mem [OF l] by (simp add: file_block_def)
    then show ?thesis using fr(3) [of l] a(11) [OF l] l by (simp add: file_data_def N_def)
  qed
  have "used (N + 1) = used N \<union> (used (N + 1) - used N)" using used_Suc [OF tr(2)] by blast
  then have "block_at w nd1 ` used (N + 1) = block_at w nd1 ` used N \<union> insert b (F - {b} - G)"
    using a(7) by (metis image_Un)
  moreover have "block_at w nd1 ` used N = block_at s nd ` used N" using a(6) fr(2) by (auto simp: N_def image_iff)
  ultimately have im: "G \<union> file_blocks w nd1 = F \<union> file_blocks s nd"
    using a(2) t(2) by (auto simp: file_blocks_def a(3) N_def [symmetric])
  have "i_blocks_num nd1 = i_blocks_num nd \<or> i_blocks_num nd1 = i_blocks_num nd + 1" using a(3) by (simp add: N_def)
  note card = blocks_card [OF F(1) a(1) ok a(4) im this]
  have ch: "only_changes (insert 0 F \<union> file_blocks s nd) s w"
    by (rule only_changes_trans_same [OF only_changes_mono [OF t(5)] only_changes_mono [OF a(8)]])
      (use fr(2) in \<open>auto simp: N_def file_blocks_def\<close>)
  have ho: "head_only s w" by (rule head_only_trans [OF t(6) a(9)])
  have "file_data w nd1 N = zero_buf" using a(5,12) t(4) by (simp add: file_data_def)
  then show ?thesis
    using t(1,7) bs(2) w(1) a(1,3-5,10,13) data im card ch ho by (auto simp: N_def)
qed

section \<open>The part of a write that falls into one block\<close>

definition chunk_at :: "int \<Rightarrow> int \<Rightarrow> int" where
  "chunk_at pos l = (if l = pos div 4096 then pos mod 4096 else 0)"

definition chunk_len :: "int \<Rightarrow> int \<Rightarrow> int \<Rightarrow> int" where
  "chunk_len pos n l =
     (if l = pos div 4096 then min (4096 - pos mod 4096) n
      else if l = (pos + n - 1) div 4096 then (pos + n - 1) mod 4096 + 1 else 4096)"

lemma div_4096_cases:
  obtains a b where "x = a * 4096 + b" "x div 4096 = a" "x mod 4096 = b" "0 \<le> b" "b < (4096 :: int)"
  by (rule that [of "x div 4096" "x mod 4096"]) simp_all

lemma div_4096_less: "x < 4096 * m \<Longrightarrow> x div 4096 < (m :: int)"
  by (simp add: div_less_iff_less_mult)

lemma mult_4096_less: "(a :: int) < b \<Longrightarrow> a * 4096 + 4096 \<le> b * 4096"
  by simp

lemma chunk:
  assumes n: "0 < n" "0 \<le> pos" and l: "pos div 4096 \<le> l" "l \<le> (pos + n - 1) div 4096"
  shows "pos + written_before pos n l = l * 4096 + chunk_at pos l" "0 \<le> chunk_at pos l" "0 \<le> chunk_len pos n l"
    "chunk_at pos l + chunk_len pos n l \<le> 4096" "0 \<le> written_before pos n l"
    "written_before pos n (l + 1) = written_before pos n l + chunk_len pos n l"
    "written_before pos n l + chunk_len pos n l \<le> n"
    "\<And>j. 0 \<le> j \<Longrightarrow> j < 4096 \<Longrightarrow> \<not> (chunk_at pos l \<le> j \<and> j < chunk_at pos l + chunk_len pos n l) \<Longrightarrow>
       \<not> (pos \<le> l * 4096 + j \<and> l * 4096 + j < pos + n)"
proof -
  obtain a b where p: "pos = a * 4096 + b" "pos div 4096 = a" "pos mod 4096 = b" "0 \<le> b" "b < 4096"
    using div_4096_cases .
  obtain e c where q: "pos + n - 1 = e * 4096 + c" "(pos + n - 1) div 4096 = e" "(pos + n - 1) mod 4096 = c" "0 \<le> c" "c < 4096"
    using div_4096_cases .
  have ae: "a \<le> l" "l \<le> e" using l p q by simp_all
  have nn: "n = e * 4096 + c + 1 - (a * 4096 + b)" using p(1) q(1) by linarith
  note d = written_before_def chunk_at_def chunk_len_def p(2,3) q(2,3)
  consider "l = a" "l = e" | "l = a" "l < e" | "a < l" "l = e" | "a < l" "l < e" using ae by linarith
  note c = this
  note m = mult_4096_less [of a l] mult_4096_less [of l e] mult_4096_less [of a e]
  show "pos + written_before pos n l = l * 4096 + chunk_at pos l"
    using c by (cases; use n p(1,4,5) q(4,5) nn m in \<open>auto simp: d min_def split: if_splits\<close>)
  show "0 \<le> chunk_at pos l"
    using c by (cases; use n p(1,4,5) q(4,5) nn m in \<open>auto simp: d min_def split: if_splits\<close>)
  show "0 \<le> chunk_len pos n l"
    using c by (cases; use n p(1,4,5) q(4,5) nn m in \<open>auto simp: d min_def split: if_splits\<close>)
  show "chunk_at pos l + chunk_len pos n l \<le> 4096"
    using c by (cases; use n p(1,4,5) q(4,5) nn m in \<open>auto simp: d min_def split: if_splits\<close>)
  show "0 \<le> written_before pos n l"
    using c by (cases; use n p(1,4,5) q(4,5) nn m in \<open>auto simp: d min_def split: if_splits\<close>)
  show "written_before pos n (l + 1) = written_before pos n l + chunk_len pos n l"
    using c by (cases; use n p(1,4,5) q(4,5) nn m in \<open>auto simp: d min_def split: if_splits\<close>)
  show "written_before pos n l + chunk_len pos n l \<le> n"
    using c by (cases; use n p(1,4,5) q(4,5) nn m in \<open>auto simp: d min_def split: if_splits\<close>)
  fix j assume j: "0 \<le> j" "j < 4096" "\<not> (chunk_at pos l \<le> j \<and> j < chunk_at pos l + chunk_len pos n l)"
  show "\<not> (pos \<le> l * 4096 + j \<and> l * 4096 + j < pos + n)"
    using c by (cases; use j n p(1,4,5) q(4,5) nn m in \<open>auto simp: d min_def split: if_splits\<close>)
qed

text \<open>The bytes copied into block \<open>l\<close> make it the block it should be, over the old contents or over
  zeroes.\<close>

lemma copy_chunk:
  assumes n: "0 < n" "0 \<le> pos" and l: "pos div 4096 \<le> l" "l \<le> (pos + n - 1) div 4096" and b: "is_block b"
    and old: "\<And>j. 0 \<le> j \<Longrightarrow> j < 4096 \<Longrightarrow> \<not> (chunk_at pos l \<le> j \<and> j < chunk_at pos l + chunk_len pos n l) \<Longrightarrow>
      b j = (if l < i_blocks_num nd then file_data s nd l j else 0)"
  shows "copy_from_user n b (chunk_at pos l) buff (written_before pos n l) (chunk_len pos n l)
    = Some (written_block s nd buff pos n l)"
proof -
  note c = chunk [OF n l]
  have "b j = written_byte s nd buff pos n (l * 4096 + j)"
    if j: "0 \<le> j" "j < 4096" "\<not> (chunk_at pos l \<le> j \<and> j < chunk_at pos l + chunk_len pos n l)" for j
    using old [OF j] c(8) [OF j] file_byte_block [OF j(1,2), of s nd l] mult_4096_less [of l "i_blocks_num nd"]
      mult_4096_less [of "i_blocks_num nd - 1" l] j(1,2)
    by (auto simp: written_byte_def)
  then show ?thesis by (rule copy_written [OF _ b c(1-5,7)])
qed

lemma written_outside:
  assumes "0 < n" "0 \<le> pos" "l < pos div 4096 \<or> (pos + n - 1) div 4096 < l"
  shows "written_block s nd buff pos n l
    = (if l < i_blocks_num nd then clip (file_data s nd l) else zero_buf)"
proof
  fix j
  obtain a b where p: "pos = a * 4096 + b" "pos div 4096 = a" "pos mod 4096 = b" "0 \<le> b" "b < 4096"
    using div_4096_cases .
  obtain e c where q: "pos + n - 1 = e * 4096 + c" "(pos + n - 1) div 4096 = e" "(pos + n - 1) mod 4096 = c" "0 \<le> c" "c < 4096"
    using div_4096_cases .
  have "\<not> (pos \<le> l * 4096 + j \<and> l * 4096 + j < pos + n)" if "0 \<le> j" "j < 4096"
    using assms(3) that p q mult_4096_less [of l a] mult_4096_less [of e l] by auto
  then show "written_block s nd buff pos n l j
      = (if l < i_blocks_num nd then clip (file_data s nd l) else zero_buf) j"
    using file_byte_block [of j s nd l] mult_4096_less [of l "i_blocks_num nd"] mult_4096_less [of "i_blocks_num nd - 1" l]
    by (auto simp: written_block_def written_byte_def clip_def)
qed

lemma first_bytes_chunk:
  "0 < n \<Longrightarrow> n < 2 ^ 63 \<Longrightarrow> first_bytes (pos mod 4096) n = chunk_len pos n (pos div 4096)"
  using pos_mod_bound [of 4096 pos] pos_mod_sign [of 4096 pos] by (simp add: first_bytes_def chunk_len_def in_ssize_def min_def)

section \<open>The loop over the old blocks\<close>

definition old_written ::
  "altfs \<Rightarrow> int set \<Rightarrow> inode \<Rightarrow> buf \<Rightarrow> int \<Rightarrow> int \<Rightarrow> int \<Rightarrow> altfs \<Rightarrow> bool" where
  "old_written s F nd buff pos n i t \<longleftrightarrow> freelist t F \<and> file_ok t F nd
     \<and> only_changes (file_blocks s nd) s t \<and> altfs_superblock t = altfs_superblock s
     \<and> (superblock_synced s \<longrightarrow> superblock_synced t) \<and> file_blocks t nd = file_blocks s nd
     \<and> (\<forall>l. 0 \<le> l \<and> l < i_blocks_num nd \<longrightarrow> file_data t nd l =
          (if pos div 4096 \<le> l \<and> l < i then written_block s nd buff pos n l else file_data s nd l))"

lemma old_written_step:
  assumes w: "old_written s F nd buff pos n i t" and i: "pos div 4096 \<le> i" "i < i_blocks_num nd" "0 \<le> pos"
  shows "old_written s F nd buff pos n (i + 1) (upd_block t (file_block t nd i) (written_block s nd buff pos n i))"
    "\<And>q. q \<in> used (i_blocks_num nd) \<Longrightarrow>
      block_at (upd_block t (file_block t nd i) (written_block s nd buff pos n i)) nd q = block_at t nd q"
proof -
  have i0: "0 \<le> i" using i(1,3) pos_imp_zdiv_nonneg_iff [of 4096 pos] by linarith
  have t: "freelist t F" "file_ok t F nd" "only_changes (file_blocks s nd) s t" "altfs_superblock t = altfs_superblock s"
    "superblock_synced s \<longrightarrow> superblock_synced t" "file_blocks t nd = file_blocks s nd"
    "\<And>l. 0 \<le> l \<Longrightarrow> l < i_blocks_num nd \<Longrightarrow> file_data t nd l =
          (if pos div 4096 \<le> l \<and> l < i then written_block s nd buff pos n l else file_data s nd l)"
    using w unfolding old_written_def by blast+
  let ?b = "written_block s nd buff pos n i"
  let ?u = "upd_block t (file_block t nd i) ?b"
  note c = write_content [OF t(1,2) i0 i(2), where b = ?b]
  show "\<And>q. q \<in> used (i_blocks_num nd) \<Longrightarrow> block_at ?u nd q = block_at t nd q" using c(3) by blast
  have fb: "file_blocks ?u nd = file_blocks s nd" using c(3) t(6) by (auto simp: file_blocks_def)
  have "file_block t nd i \<in> file_blocks s nd"
    using pos_of_mem [OF i0 i(2)] t(6) by (auto simp: file_block_def file_blocks_def)
  then have ch: "only_changes (file_blocks s nd) s ?u"
    by (intro only_changes_trans_same [OF t(3) only_changes_mono [OF c(6)]]) auto
  have "file_data ?u nd l = (if pos div 4096 \<le> l \<and> l < i + 1 then written_block s nd buff pos n l else file_data s nd l)"
    if l: "0 \<le> l" "l < i_blocks_num nd" for l
  proof (cases "l = i")
    case True
    then show ?thesis using c(4) [OF l] c(5) i(1) by (simp add: file_data_def)
  next
    case False
    then have "file_data ?u nd l = file_data t nd l"
      using c(4) [OF l] c(5) file_block_inj [OF t(2) l i0 i(2)] by (simp add: file_data_def)
    then show ?thesis using t(7) [OF l] False by auto
  qed
  then show "old_written s F nd buff pos n (i + 1) ?u"
    unfolding old_written_def using c(1,2,7,8) t(4,5) fb ch by auto
qed

lemma write_old_block_run:
  assumes n: "0 < n" "n < 2 ^ 63" "0 \<le> pos" and w: "old_written s F nd buff pos n i t"
    and i: "pos div 4096 \<le> i" "i \<le> (pos + n - 1) div 4096" "i < i_blocks_num nd" and p: "walk_ok t nd i prev"
  shows "\<exists>prev' u. write_old_block nd buff n (pos div 4096) (pos mod 4096) ((pos + n - 1) div 4096) ((pos + n - 1) mod 4096) i
      (prev, written_before pos n i, t)
    = Some ((if i = (pos + n - 1) div 4096 then Break else Next) (prev', written_before pos n (i + 1), u))
    \<and> old_written s F nd buff pos n (i + 1) u \<and> (i + 1 < i_blocks_num nd \<longrightarrow> walk_ok u nd (i + 1) prev')"
proof -
  have i0: "0 \<le> i" using i(1) n(3) pos_imp_zdiv_nonneg_iff [of 4096 pos] by linarith
  have t: "freelist t F" "file_ok t F nd" "file_data t nd i = file_data s nd i"
    using w i(3) i0 by (auto simp: old_written_def)
  have m: "mounted t" using t(1) by (rule freelist_mounted)
  obtain prev' where g: "get_disk_block_from_inode_block nd i prev t = Some (file_block t nd i, prev')"
    "walk_ok t nd (i + 1) prev'" "0 < file_block t nd i"
    "read_data_block (file_block t nd i) t = Some (Some (file_data t nd i))"
    using read_chunk_run [OF m t(2) i0 i(3) p] .
  let ?b = "written_block s nd buff pos n i" and ?start = "pos div 4096" and ?e = "(pos + n - 1) div 4096"
  define u where "u = upd_block t (file_block t nd i) ?b"
  have wr: "write_data_block (file_block t nd i) (Some ?b) t = Some (True, u)"
    using file_block_data [OF m t(2) i0 i(3)] m by (simp add: run u_def)
  note st = old_written_step [OF w i(1,3) n(3), folded u_def]
  have walk: "i + 1 < i_blocks_num nd \<longrightarrow> walk_ok u nd (i + 1) prev'"
    using walk_cong [OF g(2)] st(2) i0 by auto
  note c = chunk [OF n(1,3) i(1,2)]
  have blk: "is_block (file_data t nd i)" by (simp add: file_data_def is_block_disk_block)
  have cp: "copy_from_user n (file_data t nd i) (chunk_at pos i) buff (written_before pos n i) (chunk_len pos n i) = Some ?b"
    by (rule copy_chunk [OF n(1,3) i(1,2) blk]) (use t(3) i(3) in simp)
  have w0: "written_before pos n ?start = 0" by (simp add: written_before_def)
  consider (first) "i = ?start" | (final) "i \<noteq> ?start" "i = ?e" | (mid) "i \<noteq> ?start" "i \<noteq> ?e" by blast
  then have "write_old_block nd buff n ?start (pos mod 4096) ?e ((pos + n - 1) mod 4096) i (prev, written_before pos n i, t)
    = Some ((if i = ?e then Break else Next) (prev', written_before pos n (i + 1), u))"
  proof cases
    case first
    have "edit_block buff n (pos mod 4096) ((pos + n - 1) mod 4096) ?start i (written_before pos n i) (file_data t nd i)
        = Some (?b, written_before pos n (i + 1))"
      using cp c(6) first w0 first_bytes_chunk [OF n(1,2), of pos] by (simp add: edit_block_def chunk_at_def)
    then show ?thesis using g wr first by (simp add: write_old_block_def)
  next
    case final
    have "edit_block buff n (pos mod 4096) ((pos + n - 1) mod 4096) ?start i (written_before pos n i) (file_data t nd i)
        = Some (?b, written_before pos n (i + 1))"
      using cp c(6) final by (simp add: edit_block_def chunk_at_def chunk_len_def)
    then show ?thesis using g wr final by (simp add: write_old_block_def)
  next
    case mid
    have "copy_from_user n zero_buf (chunk_at pos i) buff (written_before pos n i) (chunk_len pos n i) = Some ?b"
      by (rule copy_chunk [OF n(1,3) i(1,2) is_block_zero(1)]) (use mid in \<open>auto simp: chunk_at_def chunk_len_def\<close>)
    then have "copy_from_user n zero_buf 0 buff (written_before pos n i) 4096 = Some ?b"
      using mid by (simp add: chunk_at_def chunk_len_def)
    then show ?thesis using g wr mid c(6) by (simp add: write_old_block_def chunk_len_def)
  qed
  then show ?thesis using st(1) walk by blast
qed

text \<open>The result of the loop: every block the file had is as it should be.\<close>

lemma old_loop_run:
  assumes n: "0 < n" "n < 2 ^ 63" "0 \<le> pos" and F: "freelist s F" and ok: "file_ok s F nd"
  defines "start \<equiv> pos div 4096" and "e \<equiv> (pos + n - 1) div 4096"
  shows "\<exists>prev t. for_loop start (i_blocks_num nd)
      (write_old_block nd buff n start (pos mod 4096) e ((pos + n - 1) mod 4096)) (0, 0, s)
      = Some (Next (prev, written_before pos n (min (e + 1) (i_blocks_num nd)), t))
    \<and> old_written s F nd buff pos n (min (e + 1) (i_blocks_num nd)) t"
proof -
  define K where "K = min (e + 1) (i_blocks_num nd)"
  have m: "mounted s" using F by (rule freelist_mounted)
  have se: "0 \<le> start" "start \<le> e" using n by (simp_all add: start_def e_def pos_imp_zdiv_nonneg_iff zdiv_mono1)
  have init: "old_written s F nd buff pos n start s" using F ok by (auto simp: old_written_def start_def)
  show ?thesis
  proof (cases "start < i_blocks_num nd")
    case False
    then have "written_before pos n K = 0" "old_written s F nd buff pos n K s"
      using F ok by (auto simp: written_before_def old_written_def start_def K_def)
    then show ?thesis using False by (auto simp: K_def)
  next
    case True
    define I where "I = (\<lambda>i (prev, w, t). old_written s F nd buff pos n i t \<and> w = written_before pos n i
      \<and> i \<le> e \<and> (i < i_blocks_num nd \<longrightarrow> walk_ok t nd i prev) \<or> i = e + 1 \<and> False)"
    define Q where "Q = (\<lambda>(prev :: int, w, t). old_written s F nd buff pos n K t \<and> w = written_before pos n K)"
    let ?body = "write_old_block nd buff n start (pos mod 4096) e ((pos + n - 1) mod 4096)"
    have "(\<exists>x. for_loop start (i_blocks_num nd) ?body (0, 0, s) = Some (Next x) \<and> Q x)
        \<or> (\<exists>r x. for_loop start (i_blocks_num nd) ?body (0, 0, s) = Some (Return r x) \<and> False)"
    proof (rule for_loop_rule [where I = "\<lambda>i x. I i x \<or> (i = i_blocks_num nd \<and> Q x)" and R = "\<lambda>_ _. False"])
      show "I start (0, 0, s) \<or> (start = i_blocks_num nd \<and> Q (0, 0, s))"
        using init se by (simp add: I_def written_before_def start_def)
      show "start \<le> i_blocks_num nd" using True by simp
      fix i x assume i: "start \<le> i" "i < i_blocks_num nd" and "I i x \<or> (i = i_blocks_num nd \<and> Q x)"
      then obtain prev t where x: "x = (prev, written_before pos n i, t)" "old_written s F nd buff pos n i t"
        "i \<le> e" "walk_ok t nd i prev"
        by (cases x) (auto simp: I_def)
      obtain prev' u where r: "?body i x = Some ((if i = e then Break else Next) (prev', written_before pos n (i + 1), u))"
        "old_written s F nd buff pos n (i + 1) u" "i + 1 < i_blocks_num nd \<longrightarrow> walk_ok u nd (i + 1) prev'"
        using write_old_block_run [OF n x(2) i(1) [unfolded start_def] x(3) [unfolded e_def] i(2) x(4)] x(1)
        by (auto simp: start_def e_def)
      show "(\<exists>x'. ?body i x = Some (Next x') \<and> (I (i + 1) x' \<or> (i + 1 = i_blocks_num nd \<and> Q x')))
          \<or> (\<exists>x'. ?body i x = Some (Break x') \<and> Q x') \<or> (\<exists>r x'. ?body i x = Some (Return r x') \<and> False)"
      proof (cases "i = e")
        case True
        then have "K = i + 1" using i(2) by (simp add: K_def)
        then show ?thesis using r True by (simp add: Q_def)
      next
        case False
        then show ?thesis using r x(3) by (simp add: I_def)
      qed
    next
      fix x assume x: "I (i_blocks_num nd) x \<or> (i_blocks_num nd = i_blocks_num nd \<and> Q x)"
      have "K = i_blocks_num nd" if "i_blocks_num nd \<le> e" using that by (simp add: K_def)
      then show "Q x" using x by (cases x) (auto simp: I_def Q_def)
    qed
    then show ?thesis by (auto simp: Q_def K_def)
  qed
qed

lemma old_written_all:
  assumes w: "old_written s F nd buff pos n (min ((pos + n - 1) div 4096 + 1) (i_blocks_num nd)) t"
    and n: "0 < n" "0 \<le> pos" and l: "0 \<le> l" "l < i_blocks_num nd"
  shows "file_data t nd l = written_block s nd buff pos n l"
proof -
  have "is_block (file_data s nd l)" by (simp add: file_data_def is_block_disk_block)
  then show ?thesis
    using w l written_outside [OF n, of l s nd buff] by (auto simp: old_written_def)
qed

section \<open>The loop over the new blocks\<close>

text \<open>The file before block \<open>i\<close> is added, in terms of the start \<open>s\<close> of the write.\<close>

definition new_written ::
  "altfs \<Rightarrow> int set \<Rightarrow> inode \<Rightarrow> buf \<Rightarrow> int \<Rightarrow> int \<Rightarrow> int \<Rightarrow> altfs \<Rightarrow> int set \<Rightarrow> inode \<Rightarrow> bool" where
  "new_written s F nd buff pos n N t G nd' \<longleftrightarrow> freelist t G \<and> file_ok t G nd' \<and> i_blocks_num nd' = N
     \<and> attrs nd' = attrs nd \<and> G \<union> file_blocks t nd' = F \<union> file_blocks s nd
     \<and> only_changes (insert 0 F \<union> file_blocks s nd) s t \<and> head_only s t
     \<and> (superblock_synced s \<longrightarrow> superblock_synced t) \<and> card F \<le> card G + 4 * nat (N - i_blocks_num nd)
     \<and> (\<forall>l. 0 \<le> l \<and> l < N \<longrightarrow> file_data t nd' l = written_block s nd buff pos n l)"

lemma write_new_block_run:
  assumes n: "0 < n" "n < 2 ^ 63" "0 \<le> pos" and old: "0 \<le> i_blocks_num nd"
    and w: "new_written s F nd buff pos n (i_blocks_num nd + i - 1) t G nd'" and card: "4 \<le> card G"
    and i: "1 \<le> i" "i_blocks_num nd + i - 1 \<le> (pos + n - 1) div 4096" "i_blocks_num nd + i - 1 < MAX_FILE_BLOCKS"
  shows "\<exists>u H nd2. write_new_block buff n (pos mod 4096) ((pos + n - 1) mod 4096) (pos div 4096 - i_blocks_num nd + 1)
      ((pos + n - 1) div 4096 - i_blocks_num nd + 1) i (nd', written_before pos n (i_blocks_num nd + i - 1), t)
    = Some (Next (nd2, written_before pos n (i_blocks_num nd + i), u))
    \<and> new_written s F nd buff pos n (i_blocks_num nd + i) u H nd2"
proof -
  define N where "N = i_blocks_num nd + i - 1"
  let ?start = "pos div 4096" and ?e = "(pos + n - 1) div 4096" and ?b = "written_block s nd buff pos n N"
  have N0: "0 \<le> N" "i_blocks_num nd \<le> N" "N \<le> ?e" using old i by (simp_all add: N_def)
  have t: "freelist t G" "file_ok t G nd'" "i_blocks_num nd' = N" "attrs nd' = attrs nd"
    "G \<union> file_blocks t nd' = F \<union> file_blocks s nd" "only_changes (insert 0 F \<union> file_blocks s nd) s t" "head_only s t"
    "superblock_synced s \<longrightarrow> superblock_synced t" "card F \<le> card G + 4 * nat (N - i_blocks_num nd)"
    "\<And>l. 0 \<le> l \<Longrightarrow> l < N \<Longrightarrow> file_data t nd' l = written_block s nd buff pos n l"
    using w unfolding new_written_def N_def by blast+
  have lt: "i_blocks_num nd' < MAX_FILE_BLOCKS" using i(3) t(3) by (simp add: N_def)
  obtain b t1 nd2 u H where a: "allocate_data_block t = Some (b, t1)" "0 < b" "add_datablock_to_inode nd' b t1 = Some (True, nd2, u)"
    "freelist u H" "file_ok u H nd2" "i_blocks_num nd2 = N + 1" "file_block u nd2 N = b" "attrs nd2 = attrs nd'"
    "\<And>l. 0 \<le> l \<Longrightarrow> l < N \<Longrightarrow> file_data u nd2 l = file_data t nd' l"
    "file_data u nd2 N = zero_buf" "H \<union> file_blocks u nd2 = G \<union> file_blocks t nd'" "card G \<le> card H + 4"
    "only_changes (insert 0 G \<union> file_blocks t nd') t u" "head_only t u" "superblock_synced t \<longrightarrow> superblock_synced u"
    using append_block_run [OF t(1) card t(2) lt] unfolding t(3) by blast
  have mu: "mounted u" using a(4) by (rule freelist_mounted)
  have ln: "0 \<le> N" "N < i_blocks_num nd2" using N0 a(6) by auto
  define v where "v = upd_block u b ?b"
  note c = write_content [OF a(4,5) ln, where b = ?b, unfolded a(7), folded v_def]
  have wr: "write_data_block b (Some ?b) u = Some (True, v)"
    using file_block_data(1) [OF mu a(5) ln] mu by (simp add: run v_def a(7))
  have fbv: "file_blocks v nd2 = file_blocks u nd2" using c(3) by (auto simp: file_blocks_def)
  have bm: "b \<in> file_blocks u nd2" using pos_of_mem [OF ln] a(7) by (auto simp: file_block_def file_blocks_def)
  have su: "only_changes (insert 0 F \<union> file_blocks s nd) s u"
    by (rule only_changes_trans_same [OF t(6) only_changes_mono [OF a(13)]]) (use t(5) in blast)
  have data: "file_data x nd2 l = written_block s nd buff pos n l"
    if "x = v \<or> x = u \<and> ?b = zero_buf" "0 \<le> l" "l < N + 1" for x l
  proof (cases "l = N")
    case True
    have "file_data v nd2 N = ?b" using c(4) [OF ln] c(5) a(7) by (simp add: file_data_def)
    then show ?thesis using that(1) True a(10) by auto
  next
    case False
    then have l: "0 \<le> l" "l < N" "l < i_blocks_num nd2" using that a(6) by auto
    have "file_data v nd2 l = file_data u nd2 l"
      using c(4) [OF l(1,3)] c(5) file_block_inj [OF a(5) l(1,3) ln] False a(7) by (simp add: file_data_def)
    then show ?thesis using that(1) a(9) [OF l(1,2)] t(10) [OF l(1,2)] by auto
  qed
  have cd: "card F \<le> card H + 4 * nat (N + 1 - i_blocks_num nd)"
    using t(9) a(12) N0 by (simp add: nat_add_distrib [symmetric] algebra_simps)
  have base: "new_written s F nd buff pos n (N + 1) x H nd2" if x: "x = v \<or> x = u \<and> ?b = zero_buf" for x
  proof -
    have "freelist x H" "file_ok x H nd2" "file_blocks x nd2 = file_blocks u nd2" using x c(1,2) a(4,5) fbv by auto
    moreover have "only_changes (insert 0 F \<union> file_blocks s nd) s v"
      by (rule only_changes_trans_same [OF su only_changes_mono [OF c(6)]]) (use bm a(11) t(5) in blast)
    moreover have "head_only s u" by (rule head_only_trans [OF t(7) a(14)])
    then have "head_only s x" using x c(7) by (auto simp: head_only_def)
    moreover have "superblock_synced s \<longrightarrow> superblock_synced x" using x t(8) a(15) c(8) by auto
    ultimately show ?thesis
      unfolding new_written_def using x su a(6,8,11) t(4,5) cd data [OF x] by auto
  qed
  have iN: "i = N - i_blocks_num nd + 1" by (simp add: N_def)
  have zb: "is_block zero_buf" by simp
  consider (hole) "N < ?start" | (first) "N = ?start" | (final) "?start < N" "N = ?e" | (mid) "?start < N" "N < ?e"
    using N0 by linarith
  then have "\<exists>x. write_new_block buff n (pos mod 4096) ((pos + n - 1) mod 4096) (?start - i_blocks_num nd + 1)
      (?e - i_blocks_num nd + 1) i (nd', written_before pos n N, t)
    = Some (Next (nd2, written_before pos n (N + 1), x)) \<and> (x = v \<or> x = u \<and> ?b = zero_buf)"
  proof cases
    case hole
    have "?start \<le> ?e" using n by (simp add: zdiv_mono1)
    then have "N \<noteq> ?e" "written_before pos n N = 0" "written_before pos n (N + 1) = 0" using hole by (auto simp: written_before_def)
    moreover have "?b = zero_buf" using written_outside [OF n(1,3), of N s nd buff] hole N0(2) by simp
    ultimately show ?thesis using a(1-3) hole by (auto simp: write_new_block_def fill_new_block_def iN)
  next
    case first
    have cp: "copy_from_user n zero_buf (chunk_at pos N) buff (written_before pos n N) (chunk_len pos n N) = Some ?b"
      by (rule copy_chunk [OF n(1,3) _ N0(3) zb]) (use first N0 in auto)
    have "written_before pos n N = 0" using first by (simp add: written_before_def)
    moreover have "written_before pos n (N + 1) = chunk_len pos n N"
      using chunk(6) [OF n(1,3) _ N0(3)] first calculation by simp
    moreover from this have "written_before pos n (?start + 1) = chunk_len pos n ?start" using first by simp
    moreover have "fill_new_block buff n (pos mod 4096) ((pos + n - 1) mod 4096) (?start - i_blocks_num nd + 1)
      (?e - i_blocks_num nd + 1) i 0 = Some (?b, chunk_len pos n N)"
      using cp first N0 first_bytes_chunk [OF n(1,2), of pos] calculation(1)
      by (simp add: fill_new_block_def chunk_at_def iN)
    ultimately show ?thesis using a(1-3) wr first by (simp add: write_new_block_def iN)
  next
    case final
    have l: "?start \<le> N" using final by simp
    have "copy_from_user n zero_buf (chunk_at pos N) buff (written_before pos n N) (chunk_len pos n N) = Some ?b"
      by (rule copy_chunk [OF n(1,3) l N0(3) zb]) (use N0(2) in auto)
    then have cp: "copy_from_user n zero_buf 0 buff (written_before pos n N) ((pos + n - 1) mod 4096 + 1) = Some ?b"
      "written_before pos n (N + 1) = written_before pos n N + ((pos + n - 1) mod 4096 + 1)"
      using final chunk(6) [OF n(1,3) l N0(3)] by (simp_all add: chunk_at_def chunk_len_def)
    have "fill_new_block buff n (pos mod 4096) ((pos + n - 1) mod 4096) (?start - i_blocks_num nd + 1)
      (?e - i_blocks_num nd + 1) i (written_before pos n N) = Some (?b, written_before pos n (N + 1))"
      using cp final by (simp add: fill_new_block_def iN)
    then show ?thesis using a(1-3) wr final by (simp add: write_new_block_def iN)
  next
    case mid
    have l: "?start \<le> N" using mid by simp
    have "copy_from_user n zero_buf (chunk_at pos N) buff (written_before pos n N) (chunk_len pos n N) = Some ?b"
      by (rule copy_chunk [OF n(1,3) l N0(3) zb]) (use N0(2) in auto)
    then have cp: "copy_from_user n zero_buf 0 buff (written_before pos n N) 4096 = Some ?b"
      "written_before pos n (N + 1) = written_before pos n N + 4096"
      using mid chunk(6) [OF n(1,3) l N0(3)] by (simp_all add: chunk_at_def chunk_len_def)
    have "fill_new_block buff n (pos mod 4096) ((pos + n - 1) mod 4096) (?start - i_blocks_num nd + 1)
      (?e - i_blocks_num nd + 1) i (written_before pos n N) = Some (?b, written_before pos n (N + 1))"
      using cp mid by (simp add: fill_new_block_def iN)
    then show ?thesis using a(1-3) wr mid by (simp add: write_new_block_def iN)
  qed
  then show ?thesis using base by (fastforce simp: N_def)
qed

lemma written_before_end: "0 < n \<Longrightarrow> 0 \<le> pos \<Longrightarrow> (pos + n - 1) div 4096 < l \<Longrightarrow> written_before pos n l = n"
  using zdiv_mono1 [of pos "pos + n - 1" 4096] by (auto simp: written_before_def)

lemma new_written_start:
  assumes w: "old_written s F nd buff pos n (min ((pos + n - 1) div 4096 + 1) (i_blocks_num nd)) t"
    and n: "0 < n" "0 \<le> pos"
  shows "new_written s F nd buff pos n (i_blocks_num nd) t F nd"
proof -
  have o: "freelist t F" "file_ok t F nd" "only_changes (file_blocks s nd) s t" "altfs_superblock t = altfs_superblock s"
    "superblock_synced s \<longrightarrow> superblock_synced t" "file_blocks t nd = file_blocks s nd"
    using w unfolding old_written_def by blast+
  obtain sb where "altfs_superblock t = Ptr sb" using o(1) by (auto simp: freelist_def)
  then have "head_only s t" using o(4) by (intro head_only_refl) auto
  moreover have "only_changes (insert 0 F \<union> file_blocks s nd) s t" by (rule only_changes_mono [OF o(3)]) blast
  ultimately show ?thesis
    unfolding new_written_def using o old_written_all [OF w n] by auto
qed

lemma new_loop_run:
  assumes n: "0 < n" "n < 2 ^ 63" "0 \<le> pos" and w: "new_written s F nd buff pos n (i_blocks_num nd) t F nd"
    and old: "0 \<le> i_blocks_num nd" and new: "i_blocks_num nd \<le> (pos + n - 1) div 4096" "(pos + n - 1) div 4096 < MAX_FILE_BLOCKS"
    and card: "4 * nat ((pos + n - 1) div 4096 + 1 - i_blocks_num nd) \<le> card F"
  shows "\<exists>nd' u G. for_loop 1 ((pos + n - 1) div 4096 - i_blocks_num nd + 1 + 1)
      (write_new_block buff n (pos mod 4096) ((pos + n - 1) mod 4096) (pos div 4096 - i_blocks_num nd + 1)
        ((pos + n - 1) div 4096 - i_blocks_num nd + 1)) (nd, written_before pos n (i_blocks_num nd), t)
      = Some (Next (nd', n, u)) \<and> new_written s F nd buff pos n ((pos + n - 1) div 4096 + 1) u G nd'"
proof -
  define e where "e = (pos + n - 1) div 4096"
  let ?body = "write_new_block buff n (pos mod 4096) ((pos + n - 1) mod 4096) (pos div 4096 - i_blocks_num nd + 1)
        (e - i_blocks_num nd + 1)"
  define I where "I = (\<lambda>i (nd', x, u). \<exists>G. new_written s F nd buff pos n (i_blocks_num nd + i - 1) u G nd'
    \<and> x = written_before pos n (i_blocks_num nd + i - 1))"
  have "\<exists>x. for_loop 1 (e - i_blocks_num nd + 1 + 1) ?body (nd, written_before pos n (i_blocks_num nd), t) = Some (Next x)
      \<and> I (e - i_blocks_num nd + 1 + 1) x"
  proof (rule for_loop_all)
    show "I 1 (nd, written_before pos n (i_blocks_num nd), t)" using w by (auto simp: I_def)
    show "1 \<le> e - i_blocks_num nd + 1 + 1" using new by (simp add: e_def)
    fix i x assume i: "1 \<le> i" "i < e - i_blocks_num nd + 1 + 1" and "I i x"
    then obtain nd' u G where x: "x = (nd', written_before pos n (i_blocks_num nd + i - 1), u)"
      "new_written s F nd buff pos n (i_blocks_num nd + i - 1) u G nd'" by (cases x) (auto simp: I_def)
    have "card F \<le> card G + 4 * nat (i - 1)" using x(2) by (simp add: new_written_def algebra_simps)
    then have "4 \<le> card G" using card i by (simp add: e_def nat_diff_distrib)
    then show "\<exists>x'. ?body i x = Some (Next x') \<and> I (i + 1) x'"
      using write_new_block_run [OF n old x(2) _ i(1)] i(2) new x(1) by (fastforce simp: I_def e_def)
  qed
  moreover have eq: "i_blocks_num nd + (e - i_blocks_num nd + 1 + 1) - 1 = e + 1" by simp
  moreover have "written_before pos n (e + 1) = n" using written_before_end [OF n(1,3)] by (simp add: e_def)
  ultimately obtain nd' u G where "for_loop 1 (e - i_blocks_num nd + 1 + 1) ?body (nd, written_before pos n (i_blocks_num nd), t)
      = Some (Next (nd', n, u))" "new_written s F nd buff pos n (e + 1) u G nd'"
    unfolding I_def eq by auto
  then show ?thesis unfolding e_def by blast
qed

theorem write_blocks_run:
  assumes n: "0 < n" "n < 2 ^ 63" "0 \<le> pos" "pos + n \<le> 4096 * MAX_FILE_BLOCKS" and F: "freelist s F" and ok: "file_ok s F nd"
    and card: "4 * nat ((pos + n - 1) div 4096 + 1 - i_blocks_num nd) \<le> card F"
  shows "\<exists>nd' u G. write_blocks nd buff n pos s = Some (Next (nd', n, u))
    \<and> new_written s F nd buff pos n (max (i_blocks_num nd) ((pos + n - 1) div 4096 + 1)) u G nd'"
proof -
  define e where "e = (pos + n - 1) div 4096"
  let ?K = "min (e + 1) (i_blocks_num nd)"
  have old: "0 \<le> i_blocks_num nd" using ok by (simp add: file_ok_def)
  obtain prev t where l1: "for_loop (pos div 4096) (i_blocks_num nd)
      (write_old_block nd buff n (pos div 4096) (pos mod 4096) e ((pos + n - 1) mod 4096)) (0, 0, s)
      = Some (Next (prev, written_before pos n ?K, t))" "old_written s F nd buff pos n ?K t"
    using old_loop_run [OF n(1-3) F ok] unfolding e_def by blast
  have w0: "new_written s F nd buff pos n (i_blocks_num nd) t F nd"
    using new_written_start l1(2) n by (simp add: e_def)
  have wrap: "(pos + n - 1) mod 2 ^ 64 = pos + n - 1" using n by (simp add: MAX_FILE_BLOCKS_def)
  have wb: "write_blocks nd buff n pos s = do {
      c \<leftarrow> for_loop 1 (e - i_blocks_num nd + 1 + 1)
             (write_new_block buff n (pos mod 4096) ((pos + n - 1) mod 4096) (pos div 4096 - i_blocks_num nd + 1)
               (e - i_blocks_num nd + 1)) (nd, written_before pos n ?K, t);
      let (_, x) = finish () c;
      Some (Next x)
    }"
  proof -
    have c: "c_div pos BLOCK_SIZE = pos div 4096" "c_mod pos BLOCK_SIZE = pos mod 4096" "(pos + n - 1) div BLOCK_SIZE = e"
      "(pos + n - 1) mod BLOCK_SIZE = (pos + n - 1) mod 4096"
      using n(3) by (simp_all add: e_def)
    show ?thesis
      unfolding write_blocks_def wrap Let_def
      by (simp only: c l1(1) Option.bind.bind_lunit ctl.case finish.simps prod.case)
  qed
  show ?thesis
  proof (cases "i_blocks_num nd \<le> e")
    case True
    have "e < MAX_FILE_BLOCKS" using n(4) by (simp add: e_def div_less_iff_less_mult)
    then obtain nd' u G where l2: "for_loop 1 (e - i_blocks_num nd + 1 + 1)
      (write_new_block buff n (pos mod 4096) ((pos + n - 1) mod 4096) (pos div 4096 - i_blocks_num nd + 1)
        (e - i_blocks_num nd + 1)) (nd, written_before pos n (i_blocks_num nd), t)
      = Some (Next (nd', n, u))" "new_written s F nd buff pos n (e + 1) u G nd'"
      using new_loop_run [OF n(1-3) w0 old _ _ card] True unfolding e_def by blast
    have "?K = i_blocks_num nd" "max (i_blocks_num nd) (e + 1) = e + 1" using True by simp_all
    then show ?thesis using l2 unfolding wb e_def by auto
  next
    case False
    then have "?K = e + 1" "max (i_blocks_num nd) (e + 1) = i_blocks_num nd" by simp_all
    then show ?thesis
      using False w0 written_before_end [OF n(1,3), of "e + 1"] unfolding wb by (auto simp: e_def)
  qed
qed

section \<open>Writing and reading back\<close>

lemma written_node_facts:
  assumes "0 < n" "0 \<le> pos" "pos + n < 2 ^ 62" "0 \<le> i_file_size nd" "in_ssize (i_file_size nd)"
  shows "i_file_size (written_node now pos n nd) = max (i_file_size nd) (pos + n)"
    "same_blocks nd (written_node now pos n nd)" "i_mode (written_node now pos n nd) = i_mode nd"
    "i_allocated (written_node now pos n nd) = i_allocated nd"
    "inode_ok nd \<Longrightarrow> in_ssize now \<Longrightarrow> inode_ok (written_node now pos n nd)"
proof -
  have "to_ssize (pos + n - i_file_size nd) = pos + n - i_file_size nd"
    using assms by (intro to_ssize_id) (simp add: in_ssize_def)
  then show sz: "i_file_size (written_node now pos n nd) = max (i_file_size nd) (pos + n)"
    using assms(1) by (simp add: written_node_def Let_def)
  show "inode_ok nd \<Longrightarrow> in_ssize now \<Longrightarrow> inode_ok (written_node now pos n nd)"
    using sz assms by (simp add: inode_ok_def written_node_def Let_def in_ssize_def)
qed (simp_all add: written_node_def Let_def same_blocks_def)

theorem write_run:
  assumes rdy: "fs_ready st F ents" "int (length p) \<le> room st" "resolved st ents p = k" "k \<noteq> -1"
    and nd: "\<not> S_ISDIR (i_mode (inode_of (fs_disk st) k))" "0 \<le> i_file_size (inode_of (fs_disk st) k)"
      "i_allocated (inode_of (fs_disk st) k)"
    and n: "0 < n" "0 \<le> pos" "pos + n \<le> 4096 * MAX_FILE_BLOCKS" and now: "in_ssize now"
    and card: "4 * nat ((pos + n - 1) div 4096 + 1 - i_blocks_num (inode_of (fs_disk st) k)) \<le> card F"
  shows "\<exists>st' F' nd'. altfs_write now p buff n pos st = Some (n, st')
    \<and> fs_ready st' F' ents \<and> room st - int (length p) \<le> room st' \<and> inode_of (fs_disk st') k = nd'
    \<and> i_file_size nd' = max (i_file_size (inode_of (fs_disk st) k)) (pos + n)
    \<and> i_blocks_num nd' = max (i_blocks_num (inode_of (fs_disk st) k)) ((pos + n - 1) div 4096 + 1)
    \<and> i_mode nd' = i_mode (inode_of (fs_disk st) k) \<and> i_links_count nd' = i_links_count (inode_of (fs_disk st) k)
    \<and> (\<forall>x. 0 \<le> x \<and> x < 4096 * i_blocks_num nd' \<longrightarrow>
         file_byte (fs_disk st') nd' x = written_byte (fs_disk st) (inode_of (fs_disk st) k) buff pos n x)
    \<and> (\<forall>j. inum_ok (fs_disk st) j \<and> j \<noteq> k \<longrightarrow> same_file (fs_disk st) (fs_disk st') j)
    \<and> (\<forall>q. resolved st' ents q = resolved st ents q)
    \<and> card F \<le> card F' + 4 * nat (i_blocks_num nd' - i_blocks_num (inode_of (fs_disk st) k))"
proof -
  let ?s = "fs_disk st" and ?nd = "inode_of (fs_disk st) k"
  let ?N = "max (i_blocks_num ?nd) ((pos + n - 1) div 4096 + 1)"
  note inv = fs_readyD(1) [OF rdy(1)] and iv = fs_invD [OF fs_readyD(1) [OF rdy(1)]]
  obtain c where c: "name_i p st = Some (k, st\<lparr>inodeCache := c\<rparr>)"
    "fs_ready (st\<lparr>inodeCache := c\<rparr>) F ents" "room st - int (length p) \<le> cache_room c"
    using name_i_ready [OF rdy(1,2)] unfolding rdy(3) .
  have k: "inum_ok ?s k" using resolved_inum [OF rdy(1), of p] rdy(3,4) by simp
  have n63: "n < 2 ^ 63" "pos + n < 2 ^ 62" using n by (simp_all add: MAX_FILE_BLOCKS_def)
  obtain nd1 u G where w: "write_blocks ?nd buff n pos ?s = Some (Next (nd1, n, u))"
    "new_written ?s F ?nd buff pos n ?N u G nd1"
    using write_blocks_run [OF n(1) n63(1) n(2,3) iv(2) iv(5) [OF k] card] by blast
  then have u: "freelist u G" "file_ok u G nd1" "i_blocks_num nd1 = ?N" "attrs nd1 = attrs ?nd"
    "G \<union> file_blocks u nd1 = F \<union> file_blocks ?s ?nd" "only_changes (insert 0 F \<union> file_blocks ?s ?nd) ?s u" "head_only ?s u"
    "superblock_synced ?s \<longrightarrow> superblock_synced u" "card F \<le> card G + 4 * nat (?N - i_blocks_num ?nd)"
    "\<And>l. 0 \<le> l \<Longrightarrow> l < ?N \<Longrightarrow> file_data u nd1 l = written_block ?s ?nd buff pos n l"
    unfolding new_written_def by blast+
  note at = attrs_fields [OF u(4)]
  have ok1: "inode_ok nd1" by (rule file_ok_inode_ok [OF freelist_mounted [OF u(1)] u(2,4) inode_ok_inode_of])
  let ?nd2 = "written_node now pos n nd1"
  have "0 \<le> i_file_size nd1" "in_ssize (i_file_size nd1)" using nd(2) at(2) inode_ok_inode_of [of ?s k] by (simp_all add: inode_ok_def)
  note wf = written_node_facts [OF n(1,2) n63(2) this, of now]
  note sb = same_blocks_file [OF wf(2)]
  have fb: "file_blocks u ?nd2 = file_blocks u nd1" by (simp add: file_blocks_def same_blocks_at [OF wf(2)] sb(4))
  have G: "G \<union> file_blocks u ?nd2 = F \<union> file_blocks ?s ?nd" using u(5) fb by simp
  have fok: "file_ok u G ?nd2" using u(2) sb(2) by simp
  have al: "3 \<le> k \<Longrightarrow> i_allocated ?nd2 = i_allocated ?nd"
    "\<not> i_allocated ?nd2 \<Longrightarrow> i_blocks_num ?nd2 = 0 \<and> \<not> S_ISDIR (i_mode ?nd2)"
    using wf(4) at(5) nd(3) by simp_all
  have dd: "S_ISDIR (i_mode ?nd2) \<Longrightarrow> dir_ok u G ?nd2 (ents k) \<and> (\<forall>(n, v) \<in> set (concat (ents k)). inum_ok ?s v)"
    using wf(3) at(1) nd(1) by simp
  let ?t = "upd_inode u k ?nd2" and ?st = "st\<lparr>inodeCache := c\<rparr>"
  note up = fs_inv_update [OF inv k u(1) G u(6,7) mp [OF u(8) iv(3)] fok wf(5) [OF ok1 now] al dd]
  note tr = table_during [OF inv k u(1,6,7)]
  have tk: "inode_of ?t k = ?nd2" "\<And>j. inum_ok ?s j \<Longrightarrow> j \<noteq> k \<Longrightarrow> same_file ?s ?t j"
    "\<And>l. 0 \<le> l \<Longrightarrow> l < i_blocks_num ?nd2 \<Longrightarrow> file_data ?t ?nd2 l = file_data u ?nd2 l"
    using up(2,4,6) by blast+
  have look: "dir_lookup ?t ents j = dir_lookup ?s ents j" if "inum_ok ?s j" for j
    using tk(1,2) that wf(3) at(1) by (cases "j = k") (auto simp: dir_lookup_def same_file_def fun_eq_iff)
  have "fs_inv ?t G (ents(k := ents k))" using up(1) by blast
  then have inv_t: "fs_inv ?t G ents" by simp
  have io: "inum_ok ?t j = inum_ok (fs_disk ?st) j" for j using tr(2) by simp
  have rd: "fs_ready (?st\<lparr>fs_disk := ?t\<rparr>) G ents" "\<And>q. resolve (dir_lookup ?t ents) q = resolved ?st ents q"
    using fs_ready_step [OF c(2) inv_t io] look by simp_all
  have "write_inode k ?nd2 u = Some (True, ?t)" using tr(1,2) k by (simp add: run)
  moreover have "in_ssize n" using n(1) n63(1) by (simp add: in_ssize_def)
  ultimately have run: "altfs_write now p buff n pos st = Some (n, ?st\<lparr>fs_disk := ?t\<rparr>)"
    using n c(1) rdy(4) w(1) iv(11) k by (simp add: altfs_write_def run)
  have bytes: "file_byte ?t ?nd2 x = written_byte ?s ?nd buff pos n x" if x: "0 \<le> x" "x < 4096 * ?N" for x
  proof -
    have l: "0 \<le> x div 4096" "x div 4096 < ?N" using x div_4096_less [of x ?N] by (auto simp: pos_imp_zdiv_nonneg_iff)
    have "file_data ?t ?nd2 (x div 4096) = file_data u nd1 (x div 4096)"
      using tk(3) [OF l(1)] l(2) sb(1,4) u(3) by (simp add: file_data_def)
    then have "file_byte ?t ?nd2 x = written_block ?s ?nd buff pos n (x div 4096) (x mod 4096)"
      using u(10) [OF l] by (simp add: file_byte_def)
    then show ?thesis by (simp add: written_block_def)
  qed
  have "i_links_count ?nd2 = i_links_count ?nd"
    using arg_cong [OF u(4), of i_links_count] by (simp add: attrs_def written_node_def Let_def)
  then show ?thesis
    using run rd c(3) tk(1,2) wf(1,3) sb(4) u(3,9) at(1,2) bytes
    by (intro exI [of _ "?st\<lparr>fs_disk := ?t\<rparr>"] exI [of _ G] exI [of _ ?nd2]) auto
qed

text \<open>The bytes that were written are read back.\<close>

theorem write_read_run:
  assumes rdy: "fs_ready st F ents" "2 * int (length p) \<le> room st" "resolved st ents p = k" "k \<noteq> -1"
    and nd: "\<not> S_ISDIR (i_mode (inode_of (fs_disk st) k))" "0 \<le> i_file_size (inode_of (fs_disk st) k)"
      "i_allocated (inode_of (fs_disk st) k)"
      "i_file_size (inode_of (fs_disk st) k) \<le> 4096 * i_blocks_num (inode_of (fs_disk st) k)"
    and n: "0 < n" "0 \<le> pos" "pos + n \<le> 4096 * MAX_FILE_BLOCKS" and now: "in_ssize now" "in_ssize now'"
    and card: "4 * nat ((pos + n - 1) div 4096 + 1 - i_blocks_num (inode_of (fs_disk st) k)) \<le> card F"
  shows "\<exists>st' st'' out. altfs_write now p buff n pos st = Some (n, st')
    \<and> altfs_read now' p buff' n pos st' = Some (n, out, st'') \<and> (\<forall>j. 0 \<le> j \<and> j < n \<longrightarrow> out j = buff j)"
proof -
  have r: "int (length p) \<le> room st" using rdy(2) by linarith
  obtain st' F' nd' where w: "altfs_write now p buff n pos st = Some (n, st')" "fs_ready st' F' ents"
    "room st - int (length p) \<le> room st'" "inode_of (fs_disk st') k = nd'"
    "i_file_size nd' = max (i_file_size (inode_of (fs_disk st) k)) (pos + n)"
    "i_blocks_num nd' = max (i_blocks_num (inode_of (fs_disk st) k)) ((pos + n - 1) div 4096 + 1)"
    "\<forall>x. 0 \<le> x \<and> x < 4096 * i_blocks_num nd' \<longrightarrow>
         file_byte (fs_disk st') nd' x = written_byte (fs_disk st) (inode_of (fs_disk st) k) buff pos n x"
    "\<forall>q. resolved st' ents q = resolved st ents q"
    using write_run [OF rdy(1) r rdy(3,4) nd(1-3) n now(1) card] by blast
  have end_le: "pos + n \<le> 4096 * i_blocks_num nd'"
  proof -
    have "(pos + n - 1) div 4096 + 1 \<le> i_blocks_num nd'" using w(6) by simp
    then show ?thesis by linarith
  qed
  have sz: "i_file_size (inode_of (fs_disk st') k) \<le> 4096 * i_blocks_num (inode_of (fs_disk st') k)"
  proof -
    have "4096 * i_blocks_num (inode_of (fs_disk st) k) \<le> 4096 * i_blocks_num nd'" using w(6) by simp
    then have "i_file_size nd' \<le> 4096 * i_blocks_num nd'" using w(5) nd(4) end_le by simp
    then show ?thesis using w(4) by simp
  qed
  have "int (length p) \<le> room st'" using w(3) rdy(2) by linarith
  moreover have "resolved st' ents p = k" using w(8) rdy(3) by simp
  moreover have "pos + n < 2 ^ 64" using n(3) by (simp add: MAX_FILE_BLOCKS_def)
  moreover have "pos < i_file_size (inode_of (fs_disk st') k)" using w(4,5) n(1) by simp
  ultimately obtain st'' where rd: "altfs_read now' p buff' n pos st' = Some (min n (i_file_size nd' - pos),
      (\<lambda>j. if 0 \<le> j \<and> j < n then (if j < min n (i_file_size nd' - pos) then file_byte (fs_disk st') nd' (pos + j) else 0) else buff' j), st'')"
    using read_run [OF w(2) _ _ rdy(4) sz n(1) _ n(2) _ now(2), of p buff'] w(4) by auto
  have "min n (i_file_size nd' - pos) = n" using w(5) by simp
  then show ?thesis
    using w(1,7) rd n end_le by (intro exI [of _ st'] exI [of _ st''] exI) (auto simp: written_byte_def)
qed

end
