(* ===== verification/Running_System.thy ===== *)
theory Running_System
  imports Writing_Files
begin

text \<open>
  A running file system of 100 blocks, from \<open>altfs_makefs\<close> and \<open>altfs_init\<close> on, and one with the file
  \<open>/a\<close>: concrete states in which the operations on paths are tried out.
\<close>

section \<open>Formatting and starting\<close>

lemma geometry_room:
  assumes "geometry_ok s"
  shows "inum_ok s 2" "4 \<le> card {b. data_block s b}"
proof -
  have g: "1 \<le> BLOCK_COUNT s * 15 div 1000" using assms by (simp add: geometry_ok_def INODE_BLOCK_COUNT_def)
  then show "inum_ok s 2" by (simp add: inum_ok_def INODE_BLOCK_COUNT_def)
  have "{b. data_block s b} = {INODE_BLOCK_COUNT s + 1..<BLOCK_COUNT s}" by (auto simp: data_block_def)
  moreover have "5 \<le> BLOCK_COUNT s - BLOCK_COUNT s * 15 div 1000" using g by linarith
  ultimately show "4 \<le> card {b. data_block s b}" by (simp add: INODE_BLOCK_COUNT_def)
qed

theorem format_and_start_run:
  assumes geo: "geometry_ok s" "NUM_OF_DATA_BLOCKS s mod 512 \<noteq> 0" and now: "in_ssize now"
  shows "\<exists>t st G. altfs_makefs True s = Some (True, t)
    \<and> altfs_init now \<lparr>fs_disk = t\<lparr>altfs_superblock := Null\<rparr>, inodeCache = c\<rparr> = Some (True, st)
    \<and> fs_ready st G ((\<lambda>_. [])(2 := dot_records 2 2)) \<and> room st = 100000
    \<and> card {b. data_block s b} \<le> card G + 1 \<and> FS_SIZE (fs_disk st) = FS_SIZE s
    \<and> dir_attrs (inode_of (fs_disk st) 2) = dir_attrs (fresh_root now empty_inode)
    \<and> i_child_num (inode_of (fs_disk st) 2) = 2 \<and> i_file_size (inode_of (fs_disk st) 2) = 4096
    \<and> (\<forall>k. inum_ok s k \<and> k \<noteq> 2 \<longrightarrow> inode_of (fs_disk st) k = empty_inode)"
proof -
  obtain t where t: "altfs_makefs True s = Some (True, t)" "FS_SIZE t = FS_SIZE s" "freelist t {n. data_block s n}"
    "superblock_synced t" "inode_table_inv t" "\<And>k. inum_ok s k \<Longrightarrow> inode_of t k = empty_inode"
    using makefs_fresh [OF geo] by blast
  have e: "data_block t = data_block s" "inum_ok t = inum_ok s"
    using t(2) by (simp_all add: fun_eq_iff data_block_def inum_ok_def INODE_BLOCK_COUNT_def BLOCK_COUNT_def)
  note g = geometry_room [OF geo(1)]
  have "\<exists>st G. altfs_init now \<lparr>fs_disk = t\<lparr>altfs_superblock := Null\<rparr>, inodeCache = c\<rparr> = Some (True, st)
    \<and> fs_ready st G ((\<lambda>_. [])(2 := dot_records 2 2)) \<and> room st = 100000
    \<and> card {b. data_block t b} \<le> card G + 1 \<and> FS_SIZE (fs_disk st) = FS_SIZE t
    \<and> dir_attrs (inode_of (fs_disk st) 2) = dir_attrs (fresh_root now empty_inode)
    \<and> i_child_num (inode_of (fs_disk st) 2) = 2 \<and> i_file_size (inode_of (fs_disk st) 2) = 4096
    \<and> (\<forall>k. inum_ok t k \<and> k \<noteq> 2 \<longrightarrow> inode_of (fs_disk st) k = empty_inode)"
    by (rule setup_run [OF t(5) _ t(4) _ _ _ now]) (use t(3,6) g in \<open>simp_all add: e\<close>)
  then show ?thesis using t(1,2) by (auto simp: e)
qed

section \<open>A system of 100 blocks\<close>

text \<open>The freshly started system: inode 3 is the first free one.\<close>

lemma first_free_inode:
  assumes "inode_table_inv s" "inum_ok s 3" "\<not> i_allocated (inode_of s 3)"
  obtains sb where "altfs_superblock s = Ptr sb" "first_free sb = Some 3"
proof -
  obtain sb where sb: "altfs_superblock s = Ptr sb" "next_free s 3 (first_free sb)"
    using assms(1) by (auto simp: inode_table_inv_def table_sb_def)
  have "first_free sb = Some 3"
  proof (cases "first_free sb")
    case None
    then show ?thesis using sb(2) assms(2,3) by (auto simp: next_free_def)
  next
    case (Some k)
    then have k: "3 \<le> k" "\<forall>j. 3 \<le> j \<and> j < k \<longrightarrow> i_allocated (inode_of s j)" using sb(2) by (simp_all add: next_free_def)
    have "\<not> 3 < k" using k(2) assms(3) by auto
    then show ?thesis using k(1) Some by simp
  qed
  then show ?thesis using sb(1) that by blast
qed

lemma running_system:
  obtains s0 st F where "altfs_makefs True (blank_disk 100) = Some (True, s0)"
    "altfs_init 0 \<lparr>fs_disk = s0\<lparr>altfs_superblock := Null\<rparr>, inodeCache = None\<rparr> = Some (True, st)"
    "fs_ready st F ((\<lambda>_. [])(2 := dot_records 2 2))" "room st = 100000" "97 \<le> card F"
    "FS_SIZE (fs_disk st) = 409600" "i_mode (inode_of (fs_disk st) 2) = S_IFDIR OR DEFAULT_PERMISSIONS"
    "i_file_size (inode_of (fs_disk st) 2) = 4096"
    "\<And>k. 0 \<le> k \<Longrightarrow> k < 18 \<Longrightarrow> k \<noteq> 2 \<Longrightarrow> inode_of (fs_disk st) k = empty_inode"
proof -
  have geo: "geometry_ok (blank_disk 100)" "NUM_OF_DATA_BLOCKS (blank_disk 100) mod 512 \<noteq> 0" "in_ssize 0"
    by (simp_all add: geometry_ok_def INODE_BLOCK_COUNT_def NUM_OF_DATA_BLOCKS_def in_ssize_def)
  have db: "{b. data_block (blank_disk 100) b} = {2..<100}" by (simp add: blank_disk_data_blocks)
  obtain s st G where s: "altfs_makefs True (blank_disk 100) = Some (True, s)"
    "altfs_init 0 \<lparr>fs_disk = s\<lparr>altfs_superblock := Null\<rparr>, inodeCache = None\<rparr> = Some (True, st)"
    "fs_ready st G ((\<lambda>_. [])(2 := dot_records 2 2))" "room st = 100000" "98 \<le> card G + 1"
    "FS_SIZE (fs_disk st) = 409600" "dir_attrs (inode_of (fs_disk st) 2) = dir_attrs (fresh_root 0 empty_inode)"
    "i_file_size (inode_of (fs_disk st) 2) = 4096"
    "\<And>k. inum_ok (blank_disk 100) k \<Longrightarrow> k \<noteq> 2 \<Longrightarrow> inode_of (fs_disk st) k = empty_inode"
    using format_and_start_run [OF geo, of None] unfolding db by auto
  have io: "inum_ok (blank_disk 100) k \<longleftrightarrow> 0 \<le> k \<and> k < 18" for k
    by (simp add: inum_ok_def INODE_BLOCK_COUNT_def)
  have "i_mode (inode_of (fs_disk st) 2) = S_IFDIR OR DEFAULT_PERMISSIONS"
    using arg_cong [OF s(7), of i_mode] by (simp add: dir_attrs_def attrs_def fresh_root_def)
  then show ?thesis using that [OF s(1-4) _ s(6) _ s(8)] s(5,9) io by auto
qed

text \<open>There \<open>/a\<close> can be created.\<close>

lemma running_creatable:
  obtains st F where "fs_ready st F ((\<lambda>_. [])(2 := dot_records 2 2))" "room st = 100000" "97 \<le> card F"
    "creatable st F ((\<lambda>_. [])(2 := dot_records 2 2)) [47, 97] 2 [97] 3" "inode_of (fs_disk st) 3 = empty_inode"
    "FS_SIZE (fs_disk st) = 409600"
proof -
  obtain s0 st F where st: "altfs_makefs True (blank_disk 100) = Some (True, s0)"
    "altfs_init 0 \<lparr>fs_disk = s0\<lparr>altfs_superblock := Null\<rparr>, inodeCache = None\<rparr> = Some (True, st)"
    "fs_ready st F ((\<lambda>_. [])(2 := dot_records 2 2))" "room st = 100000" "97 \<le> card F"
    "FS_SIZE (fs_disk st) = 409600" "i_mode (inode_of (fs_disk st) 2) = S_IFDIR OR DEFAULT_PERMISSIONS"
    "i_file_size (inode_of (fs_disk st) 2) = 4096"
    "\<And>k. 0 \<le> k \<Longrightarrow> k < 18 \<Longrightarrow> k \<noteq> 2 \<Longrightarrow> inode_of (fs_disk st) k = empty_inode"
    by (rule running_system) blast
  have io: "inum_ok (fs_disk st) k \<longleftrightarrow> 0 \<le> k \<and> k < 18" for k
    using st(6) by (simp add: inum_ok_def INODE_BLOCK_COUNT_def BLOCK_COUNT_def)
  have e: "inode_of (fs_disk st) 3 = empty_inode" using st(9) by simp
  have "inode_table_inv (fs_disk st)" using fs_invD(1) [OF fs_readyD(1) [OF st(3)]] .
  then obtain sb where sb: "altfs_superblock (fs_disk st) = Ptr sb" "first_free sb = Some 3"
    by (rule first_free_inode) (use io e in simp_all)
  have n: "is_name [97]" by (simp add: is_name_def is_cstr_def)
  have pp: "copy_parent_path [47, 97] = Some [47]" "copy_file_name [47, 97] = Some [97]"
    using path_parts [OF n, of "[]"] by (simp_all add: path_of_def)
  have r: "resolved st ents [47] = 2" for ents by (subst resolve.simps) simp
  have "can_add (fs_disk st) F ((\<lambda>_. [])(2 := dot_records 2 2)) 2 [97]"
    using st(5,7,8) io by (simp add: can_add_def dot_records_def has_room_def rec_size_def recs_size_def S_ISDIR_def
        is_cstr_def in_ssize_def)
  then have "creatable st F ((\<lambda>_. [])(2 := dot_records 2 2)) [47, 97] 2 [97] 3"
    using pp r sb st(7) by (simp add: creatable_def has_bit_def)
  then show ?thesis using that st(3-6) e by blast
qed

text \<open>A system with the empty file \<open>/a\<close>, which has inode 3.\<close>

lemma system_with_file:
  obtains st F ents where "fs_ready st F ents" "99996 \<le> room st" "93 \<le> card F"
    "resolved st ents [47, 97] = 3" "inode_of (fs_disk st) 3 = new_node 0 33188 (empty_inode\<lparr>i_allocated := True\<rparr>)"
proof -
  obtain st F where s: "fs_ready st F ((\<lambda>_. [])(2 := dot_records 2 2))" "room st = 100000" "97 \<le> card F"
    "creatable st F ((\<lambda>_. [])(2 := dot_records 2 2)) [47, 97] 2 [97] 3" "inode_of (fs_disk st) 3 = empty_inode"
    by (rule running_creatable) blast
  obtain st' F' ents' where m: "file_created st F ((\<lambda>_. [])(2 := dot_records 2 2)) [47, 97] 2 [97] 3
      (new_node 0 33188 (empty_inode\<lparr>i_allocated := True\<rparr>)) [] st' F' ents'"
    "room st - 2 * int (length [47, 97 :: int]) \<le> room st'" "card F \<le> card F' + 4"
    using mknod_run [OF s(1) _ s(4), of 0 33188 0] s(2,5) by (auto simp: in_ssize_def)
  then show ?thesis using that [of st' F' ents'] s(2,3) by (auto simp: file_created_def)
qed

text \<open>The same system after a write of 20 blocks to \<open>/a\<close>: the file has direct blocks and a single
  indirect one.\<close>

lemma system_with_data:
  obtains st F ents where "fs_ready st F ents" "99990 \<le> room st" "13 \<le> card F" "resolved st ents [47, 97] = 3"
    "i_blocks_num (inode_of (fs_disk st) 3) = 20" "i_file_size (inode_of (fs_disk st) 3) = 81920"
    "i_mode (inode_of (fs_disk st) 3) = 33188" "i_links_count (inode_of (fs_disk st) 3) = 1" "inum_ok (fs_disk st) 3"
    "\<forall>x. 0 \<le> x \<and> x < 81920 \<longrightarrow> file_byte (fs_disk st) (inode_of (fs_disk st) 3) x = 7"
proof -
  obtain st F ents where s: "fs_ready st F ents" "99996 \<le> room st" "93 \<le> card F" "resolved st ents [47, 97] = 3"
    "inode_of (fs_disk st) 3 = new_node 0 33188 (empty_inode\<lparr>i_allocated := True\<rparr>)"
    by (rule system_with_file)
  have n: "i_blocks_num (inode_of (fs_disk st) 3) = 0" "i_file_size (inode_of (fs_disk st) 3) = 0"
    "i_mode (inode_of (fs_disk st) 3) = 33188" "i_allocated (inode_of (fs_disk st) 3)"
    "i_links_count (inode_of (fs_disk st) 3) = 1"
    by (simp_all add: s(5) new_node_def)
  have d: "\<not> S_ISDIR (i_mode (inode_of (fs_disk st) 3))" by (simp add: n(3) S_ISDIR_def)
  obtain st' F' nd' where w: "altfs_write 0 [47, 97] (\<lambda>_. 7) 81920 0 st = Some (81920, st')" "fs_ready st' F' ents"
    "room st - int (length [47, 97 :: byte]) \<le> room st'" "inode_of (fs_disk st') 3 = nd'"
    "i_file_size nd' = max (i_file_size (inode_of (fs_disk st) 3)) (0 + 81920)"
    "i_blocks_num nd' = max (i_blocks_num (inode_of (fs_disk st) 3)) ((0 + 81920 - 1) div 4096 + 1)"
    "i_mode nd' = i_mode (inode_of (fs_disk st) 3)" "i_links_count nd' = i_links_count (inode_of (fs_disk st) 3)"
    "\<forall>x. 0 \<le> x \<and> x < 4096 * i_blocks_num nd' \<longrightarrow>
         file_byte (fs_disk st') nd' x = written_byte (fs_disk st) (inode_of (fs_disk st) 3) (\<lambda>_. 7) 0 81920 x"
    "\<forall>q. resolved st' ents q = resolved st ents q"
    "card F \<le> card F' + 4 * nat (i_blocks_num nd' - i_blocks_num (inode_of (fs_disk st) 3))"
    using write_run [OF s(1) _ s(4) _ d _ n(4), of 81920 0 0 "\<lambda>_. 7"] s(2,3) n
    by (auto simp: MAX_FILE_BLOCKS_def in_ssize_def)
  have k: "resolved st' ents [47, 97] = 3" using w(10) s(4) by simp
  then have "inum_ok (fs_disk st') 3" using resolved_inum [OF w(2), of "[47, 97]"] by simp
  moreover have "i_blocks_num nd' = 20" "i_file_size nd' = 81920" "13 \<le> card F'"
    using w(5,6,11) n s(3) by simp_all
  ultimately show ?thesis
    using that [OF w(2)] w(3,4,7,8,9) s(2) k n by (auto simp: written_byte_def)
qed

end
