(* ===== verification/Removing_Files.thy ===== *)
theory Removing_Files
  imports Creating_Files
begin

text \<open>
  Removing a file: \<open>altfs_unlink\<close> of \<open>src/interface_layer.c\<close> takes the entry out of the
  directory, gives the blocks of the file back and clears its inode.
\<close>

section \<open>Steps that keep the invariant\<close>

text \<open>Writing to a block of file \<open>k\<close>.\<close>

theorem fs_inv_write_block:
  fixes b :: buf
  assumes inv: "fs_inv s F ents" and k: "inum_ok s k" and l: "0 \<le> l" "l < i_blocks_num (inode_of s k)"
  defines "t \<equiv> upd_block s (file_block s (inode_of s k) l) b"
  assumes dir: "S_ISDIR (i_mode (inode_of s k)) \<Longrightarrow>
      dir_ok t F (inode_of s k) rss \<and> (\<forall>(n, v) \<in> set (concat rss). inum_ok s v)"
  shows "fs_inv t F (ents(k := rss))" "\<And>j. inum_ok s j \<Longrightarrow> inode_of t j = inode_of s j"
    "\<And>j. inum_ok s j \<Longrightarrow> j \<noteq> k \<Longrightarrow> same_file s t j" "\<And>j. inum_ok t j = inum_ok s j"
    "\<And>j. inum_ok s j \<Longrightarrow> j \<noteq> k \<Longrightarrow> file_blocks t (inode_of s j) = file_blocks s (inode_of s j)"
proof -
  note iv = fs_invD [OF inv]
  let ?nd = "inode_of s k" and ?n = "file_block s (inode_of s k) l"
  note w = write_content [OF iv(2) iv(5) [OF k] l, where b = b, folded t_def]
  have fb: "file_blocks t ?nd = file_blocks s ?nd" using w(3) by (simp add: file_blocks_def)
  have n: "?n \<in> file_blocks s ?nd" using pos_of_mem [OF l] by (auto simp: file_blocks_def file_block_def)
  note nn = file_blocks_data [OF inv k n]
  note geo = only_changes_geometry [OF w(6)]
  show io: "inum_ok t j = inum_ok s j" for j by (simp add: inum_ok_def geo)
  have "disk_block t m = disk_block s m" if "inode_block s m" for m
    using that nn(4) by (intro only_changes_block [OF w(6)]) auto
  then show same: "inode_of t j = inode_of s j" if "inum_ok s j" for j
    using inum_block [OF that] by (intro inode_of_cong) simp
  have tab: "inode_table_inv t"
  proof -
    obtain sb where sb: "geometry_ok s" "table_sb s sb" "next_free s 3 (first_free sb)"
      using iv(1) by (auto simp: inode_table_inv_def)
    have "next_free t 3 (first_free sb)"
      using next_free_agree [of 3 t s] io same sb(3) by simp
    then show ?thesis
      using sb(1,2) w(1,7) iv(10) by (auto simp: inode_table_inv_def table_sb_def geo)
  qed
  show "file_blocks t (inode_of s j) = file_blocks s (inode_of s j)" if j: "inum_ok s j" "j \<noteq> k" for j
  proof -
    have "block_at s (inode_of s j) q \<notin> {?n}" "block_at s (inode_of s j) q \<notin> F" if "q \<in> used (i_blocks_num (inode_of s j))" for q
    proof -
      have b: "block_at s (inode_of s j) q \<in> file_blocks s (inode_of s j)" using that by (simp add: file_blocks_def)
      then show "block_at s (inode_of s j) q \<notin> {?n}" using iv(7) [OF j(1) k j(2)] n by auto
      show "block_at s (inode_of s j) q \<notin> F" by (rule file_blocks_data(2) [OF inv j(1) b])
    qed
    from file_ok_frame(2) [OF iv(5) [OF j(1)] w(6) this] show ?thesis by (simp add: file_blocks_def)
  qed
  have ch: "only_changes (insert 0 F \<union> file_blocks s ?nd \<union> {n. inode_block s n}) s t"
    by (rule only_changes_mono [OF w(6)]) (use n in auto)
  have eq: "F \<union> file_blocks t ?nd = F \<union> file_blocks s ?nd" by (simp only: fb)
  have oth: "inode_of t j = inode_of s j" if "inum_ok s j" "j \<noteq> k" for j using same that by blast
  have e: "\<not> i_allocated ?nd \<Longrightarrow> i_blocks_num ?nd = 0 \<and> \<not> S_ISDIR (i_mode ?nd)" using iv(6) [OF k] .
  note change = fs_inv_change [OF inv k tab w(1) w(8) [OF iv(3)] eq ch same [OF k] oth w(2) e dir]
  show "fs_inv t F (ents(k := rss))" using change(1) by blast
  show "same_file s t j" if "inum_ok s j" "j \<noteq> k" for j using change(2) that by blast
qed

text \<open>Freeing a file.\<close>

lemma file_ok_cleared: "file_ok s F (cleared_inode nd)"
proof -
  have "same_blocks empty_inode (cleared_inode nd)" by (simp add: same_blocks_def cleared_empty)
  from same_blocks_file(2) [OF this] show ?thesis using file_ok_empty by blast
qed

theorem fs_inv_free:
  assumes inv: "fs_inv s F ents" and k: "inum_ok s k" "3 \<le> k" and F: "F \<noteq> {}"
  shows "\<exists>t. free_inode k s = Some (True, t) \<and> fs_inv t (F \<union> file_blocks s (inode_of s k)) (ents(k := []))
    \<and> inode_of t k = cleared_inode (inode_of s k) \<and> (\<forall>j. inum_ok t j = inum_ok s j)
    \<and> (\<forall>j. inum_ok s j \<and> j \<noteq> k \<longrightarrow> same_file s t j)"
proof -
  note iv = fs_invD [OF inv]
  let ?nd = "inode_of s k" and ?G = "F \<union> file_blocks s (inode_of s k)"
  note rel = file_ok_releasable [OF iv(2) iv(5) [OF k(1)], folded file_blocks_def]
  obtain t where t: "free_inode k s = Some (True, t)" "freelist t ?G" "inode_of t k = cleared_inode ?nd"
    "\<And>j. inum_ok s j \<Longrightarrow> j \<noteq> k \<Longrightarrow> inode_of t j = inode_of s j" "inode_table_inv t" "superblock_synced t"
    "only_changes (insert 0 ?G \<union> {n. inode_block s n}) s t"
    using free_inode_releases [OF iv(1,2) F k(2,1) rel(1)] unfolding rel(2) by blast
  have z: "i_blocks_num (cleared_inode ?nd) = 0" "\<not> S_ISDIR (i_mode (cleared_inode ?nd))"
    by (simp_all add: cleared_inode_def S_ISDIR_def)
  have eq: "?G \<union> file_blocks t (cleared_inode ?nd) = F \<union> file_blocks s ?nd"
    using z(1) by (simp add: file_blocks_def used_def)
  have ch: "only_changes (insert 0 F \<union> file_blocks s ?nd \<union> {n. inode_block s n}) s t" using t(7) by simp
  have e: "\<not> i_allocated (cleared_inode ?nd) \<Longrightarrow> i_blocks_num (cleared_inode ?nd) = 0 \<and> \<not> S_ISDIR (i_mode (cleared_inode ?nd))"
    using z by simp
  have d: "S_ISDIR (i_mode (cleared_inode ?nd)) \<Longrightarrow> dir_ok t ?G (cleared_inode ?nd) [] \<and> (\<forall>(n, v) \<in> set (concat []). inum_ok s v)"
    using z by simp
  note change = fs_inv_change [OF inv k(1) t(5,2,6) eq ch t(3,4) file_ok_cleared e d]
  have "inum_ok t j = inum_ok s j" for j by (simp add: inum_ok_def only_changes_geometry [OF t(7)])
  then show ?thesis using t(1,3) change by blast
qed

section \<open>The cache afterwards\<close>

text \<open>Taking a path out of the cache always comes back.\<close>

lemma remove_from_cache_run:
  assumes "cache_ok (inodeCache st)"
  shows "\<exists>ok c. remove_from_inode_cache p st = Some (ok, st\<lparr>inodeCache := c\<rparr>)
    \<and> (\<not> ok \<longrightarrow> (\<exists>d. free_inode_cache c = Some d))"
proof -
  obtain c xs where c: "inodeCache st = Some c" "cache_list c xs" "slots_ok c xs"
    using assms by (auto simp: cache_ok_def cache_inv_def)
  show ?thesis
  proof (cases "find (has_key c p) (from_slot (slot_of c p) xs)")
    case None
    then have "remove_cache_entry (Some c) (Some p) = Some (False, Some c)"
      using lookup_entry_run [OF c(2,3)] by (simp add: remove_cache_entry_def)
    then show ?thesis using c free_inode_cache_run [OF c(2)]
      by (intro exI [of _ False] exI [of _ "Some c"]) (simp add: remove_from_inode_cache_def)
  next
    case (Some a)
    have "\<exists>c'. remove_cache_entry (Some c) (Some p) = Some (True, Some c')"
    proof (cases "length xs \<ge> 2")
      case True
      then show ?thesis using remove_entry_run [OF c(2,3) _ Some] by blast
    next
      case False
      obtain e where "a \<in> set xs" using find_has_key [OF c(2) Some] by blast
      then have xs: "xs = [a]" using False by (cases xs; cases "tl xs") auto
      have "slot_of c p = Some a"
      proof (rule ccontr)
        assume "slot_of c p \<noteq> Some a"
        then have "from_slot (slot_of c p) xs = []" by (cases "slot_of c p") (auto simp: xs from_slot_def)
        then show False using Some by simp
      qed
      moreover have "has_key c p a" using Some by (simp add: find_Some_iff) blast
      ultimately show ?thesis using remove_only_entry c(2,3) unfolding xs by blast
    qed
    then obtain c' where "remove_cache_entry (Some c) (Some p) = Some (True, Some c')" by blast
    then show ?thesis using c(1)
      by (intro exI [of _ True] exI [of _ "Some c'"]) (simp add: remove_from_inode_cache_def)
  qed
qed

section \<open>Taking the entry out of the directory\<close>

lemma entry_found:
  assumes m: "mounted s" and d: "dir_ok s F nd rss" and n: "map_of (concat rss) name = Some v"
  obtains fp l where "get_file_position_in_dir name nd s = Some fp" "found_at s nd rss name l fp"
proof -
  have "(name, v) \<in> set (concat rss)" using n by (rule map_of_SomeD)
  then have len: "length name \<le> 255" using dirent_names [OF d] by (fastforce simp: dirent_ok_def)
  obtain fp where fp: "get_file_position_in_dir name nd s = Some fp"
    "offset fp = -1 \<and> (\<forall>l. 0 \<le> l \<and> l < i_blocks_num nd \<longrightarrow> map_of (rss ! nat l) name = None)
     \<or> (\<exists>l. found_at s nd rss name l fp)"
    using get_file_position_run [OF m d len] by blast
  have "\<not> (\<forall>l. 0 \<le> l \<and> l < i_blocks_num nd \<longrightarrow> map_of (rss ! nat l) name = None)"
  proof
    assume none: "\<forall>l. 0 \<le> l \<and> l < i_blocks_num nd \<longrightarrow> map_of (rss ! nat l) name = None"
    have "map_of (concat rss) name = None"
    proof (rule map_of_concat_None)
      fix rs assume "rs \<in> set rss"
      then obtain l where "l < length rss" "rs = rss ! l" by (auto simp: in_set_conv_nth)
      then show "map_of rs name = None" using spec [OF none, of "int l"] dir_okD(4) [OF d] by simp
    qed
    then show False using n by simp
  qed
  then show ?thesis using fp that by blast
qed

lemma take_entry_run:
  assumes inv: "fs_inv s F ents" and k: "inum_ok s k" "S_ISDIR (i_mode (inode_of s k))"
    and n: "map_of (concat (ents k)) name = Some v"
  obtains t rss where
    "remove_directory_entry now (inode_of s k) name s =
       Some (True, child_less ((inode_of s k)\<lparr>i_ctime := now, i_mtime := now\<rparr>), t)"
    "fs_inv t F (ents(k := rss))" "concat rss = del_first name (concat (ents k))"
    "\<forall>j. inum_ok t j = inum_ok s j" "\<forall>j. inum_ok s j \<longrightarrow> inode_of t j = inode_of s j"
    "\<forall>j. inum_ok s j \<and> j \<noteq> k \<longrightarrow> same_file s t j"
    "\<forall>j. inum_ok s j \<and> j \<noteq> k \<longrightarrow> file_blocks t (inode_of s j) = file_blocks s (inode_of s j)"
proof -
  note iv = fs_invD [OF inv]
  let ?nd = "inode_of s k"
  have d: "dir_ok s F ?nd (ents k)" "\<forall>(n, v) \<in> set (concat (ents k)). inum_ok s v" using iv(8) [OF k] by auto
  obtain fp l where fp: "get_file_position_in_dir name ?nd s = Some fp" and at: "found_at s ?nd (ents k) name l fp"
    using entry_found [OF iv(10) d(1) n] .
  have l: "0 \<le> l" "l < i_blocks_num ?nd" using at by (simp_all add: found_at_def)
  let ?nd' = "child_less (?nd\<lparr>i_ctime := now, i_mtime := now\<rparr>)"
  let ?rss = "(ents k)[nat l := del_first name (ents k ! nat l)]"
  let ?t = "upd_block s (file_block s ?nd l) (cut_record (disk_block s (file_block s ?nd l)) (offset fp))"
  have r: "remove_directory_entry now ?nd name s = Some (True, ?nd', ?t)" "dir_ok ?t F ?nd' ?rss"
    using remove_directory_entry_run [OF iv(2) d(1) fp at, of now] by blast+
  have sb: "same_blocks ?nd ?nd'" "i_mode ?nd' = i_mode ?nd" by (simp_all add: same_blocks_def child_less_def)
  have eq: "concat ?rss = del_first name (concat (ents k))" by (rule found_at_value(3) [OF d(1) at])
  have sub: "set (del_first n rs) \<subseteq> set rs" for n rs by (induction rs) auto
  have "\<forall>(n, v) \<in> set (concat ?rss). inum_ok s v" unfolding eq using d(2) sub by blast
  then have dd: "dir_ok ?t F ?nd ?rss \<and> (\<forall>(n, v) \<in> set (concat ?rss). inum_ok s v)"
    using r(2) dir_ok_same_blocks [OF sb] by simp
  note w = fs_inv_write_block [OF inv k(1) l dd]
  show ?thesis
    by (rule that [OF r(1) w(1) eq]) (use w(2-5) in blast)+
qed

section \<open>Removing a name\<close>

lemma resolve_fewer:
  assumes "\<And>j n w. P j \<Longrightarrow> D' j n = Some w \<Longrightarrow> D j n = Some w" "\<And>q. resolve D' q = -1 \<or> P (resolve D' q)"
  shows "resolve D' q = -1 \<or> resolve D' q = resolve D q"
proof (cases "resolve D' q = -1")
  case False
  have "resolve D q = resolve D' q" by (rule resolve_mono [where P = P, OF assms False])
  then show ?thesis by simp
qed simp

text \<open>What \<open>altfs_unlink\<close> needs: a path to inode \<open>v\<close>, not the root directory and not a directory
  with entries, whose parent is directory \<open>k\<close>.\<close>

definition removable :: "fs \<Rightarrow> (int \<Rightarrow> dirent list list) \<Rightarrow> cstr \<Rightarrow> int \<Rightarrow> cstr \<Rightarrow> int \<Rightarrow> bool" where
  "removable st ents p k name v \<longleftrightarrow>
     (\<exists>pp. copy_parent_path p = Some pp \<and> copy_file_name p = Some name \<and> resolved st ents pp = k)
     \<and> resolved st ents p = v \<and> 3 \<le> v \<and> v \<noteq> k
     \<and> (S_ISDIR (i_mode (inode_of (fs_disk st) v)) \<longrightarrow> is_empty_dir (inode_of (fs_disk st) v))
     \<and> i_links_count (inode_of (fs_disk st) v) = 1"

theorem unlink_run:
  assumes rdy: "fs_ready st F ents" "2 * int (length p) \<le> room st"
    and rm: "removable st ents p k name v" and F: "F \<noteq> {}" and now: "in_ssize now"
  shows "\<exists>st' rss. altfs_unlink now p st = Some (0, st')
    \<and> fs_inv (fs_disk st') (F \<union> file_blocks (fs_disk st) (inode_of (fs_disk st) v)) (ents(k := rss, v := []))
    \<and> concat rss = del_first name (concat (ents k))
    \<and> inode_of (fs_disk st') v = cleared_inode (inode_of (fs_disk st) v)
    \<and> inode_of (fs_disk st') k = child_less ((inode_of (fs_disk st) k)\<lparr>i_ctime := now, i_mtime := now\<rparr>)
    \<and> (\<forall>j. inum_ok (fs_disk st) j \<and> j \<noteq> k \<and> j \<noteq> v \<longrightarrow> same_file (fs_disk st) (fs_disk st') j)
    \<and> (distinct (map fst (concat (ents k))) \<longrightarrow> resolved st' (ents(k := rss, v := [])) p = -1
        \<and> (\<forall>q. resolved st' (ents(k := rss, v := [])) q = -1
             \<or> resolved st' (ents(k := rss, v := [])) q = resolved st ents q))"
proof -
  let ?s = "fs_disk st" and ?nd = "inode_of (fs_disk st) k" and ?nv = "inode_of (fs_disk st) v"
  note inv = fs_readyD(1) [OF rdy(1)] and iv = fs_invD [OF fs_readyD(1) [OF rdy(1)]]
  obtain pp where p: "copy_parent_path p = Some pp" "copy_file_name p = Some name" "resolved st ents pp = k"
    "resolved st ents p = v" "3 \<le> v" "v \<noteq> k" "S_ISDIR (i_mode ?nv) \<longrightarrow> is_empty_dir ?nv" "i_links_count ?nv = 1"
    using rm by (auto simp: removable_def)
  have root: "p \<noteq> [slash]" using p(1) by (auto simp: copy_parent_path_def get_last_index_of_parent_path_def)
  have Rp: "resolve D p = (if resolve D pp = -1 then -1 else case D (resolve D pp) name of None \<Rightarrow> -1 | Some w \<Rightarrow> w)" for D
    using root p(1,2) by (simp add: resolve.simps [of D p] Let_def)
  have k1: "k \<noteq> -1" "dir_lookup ?s ents k name = Some v"
    using Rp [of "dir_lookup ?s ents"] p(3-5) by (auto split: if_splits option.splits)
  then have k: "inum_ok ?s k" "S_ISDIR (i_mode ?nd)" "map_of (concat (ents k)) name = Some v"
    using resolved_inum [OF rdy(1), of pp] p(3) by (auto simp: dir_lookup_def split: if_splits)
  have v: "inum_ok ?s v" using resolved_inum [OF rdy(1), of p] p(4,5) by auto
  have r1: "int (length p) \<le> room st" using rdy(2) by linarith
  obtain c1 where c1: "name_i p st = Some (v, st\<lparr>inodeCache := c1\<rparr>)" "fs_ready (st\<lparr>inodeCache := c1\<rparr>) F ents"
    "room st - int (length p) \<le> cache_room c1" using name_i_ready [OF rdy(1) r1] unfolding p(4) .
  let ?st = "st\<lparr>inodeCache := c1\<rparr>"
  have "int (length pp) \<le> room ?st" using c1(3) rdy(2) parent_shorter [OF p(1)] by simp
  from name_i_ready [OF c1(2) this] obtain c where c: "name_i pp ?st = Some (k, st\<lparr>inodeCache := c\<rparr>)"
    "fs_ready (st\<lparr>inodeCache := c\<rparr>) F ents" using p(3) by auto
  obtain t rss where t: "remove_directory_entry now ?nd name ?s =
      Some (True, child_less (?nd\<lparr>i_ctime := now, i_mtime := now\<rparr>), t)"
    "fs_inv t F (ents(k := rss))" "concat rss = del_first name (concat (ents k))"
    "\<forall>j. inum_ok t j = inum_ok ?s j" "\<forall>j. inum_ok ?s j \<longrightarrow> inode_of t j = inode_of ?s j"
    "\<forall>j. inum_ok ?s j \<and> j \<noteq> k \<longrightarrow> same_file ?s t j"
    "\<forall>j. inum_ok ?s j \<and> j \<noteq> k \<longrightarrow> file_blocks t (inode_of ?s j) = file_blocks ?s (inode_of ?s j)"
    using take_entry_run [OF inv k] .
  have tv: "inum_ok t v" "inode_of t v = ?nv" using t(4,5) v by simp_all
  obtain u where u: "free_inode v t = Some (True, u)" "fs_inv u (F \<union> file_blocks t ?nv) (ents(k := rss, v := []))"
    "inode_of u v = cleared_inode ?nv" "\<forall>j. inum_ok u j = inum_ok t j" "\<forall>j. inum_ok t j \<and> j \<noteq> v \<longrightarrow> same_file t u j"
    using fs_inv_free [OF t(2) tv(1) p(5) F] unfolding tv(2) by blast
  let ?nd' = "child_less (?nd\<lparr>i_ctime := now, i_mtime := now\<rparr>)"
  have uk: "inum_ok u k" "inode_of u k = ?nd" using u(4,5) t(4,5) k(1) p(6) by (simp_all add: same_file_def)
  have ok: "same_blocks (inode_of u k) ?nd'" "inode_ok ?nd'" "i_mode ?nd' = i_mode (inode_of u k)"
    "i_allocated ?nd' = i_allocated (inode_of u k)"
    using uk(2) now inode_ok_inode_of [of ?s k] by (simp_all add: same_blocks_def child_less_def inode_ok_def)
  let ?w = "upd_inode u k ?nd'"
  note w = fs_inv_attrs [OF u(2) uk(1) ok]
  let ?st2 = "st\<lparr>inodeCache := c, fs_disk := ?w\<rparr>"
  have "cache_ok (inodeCache ?st2)" using fs_readyD(2) [OF c(2)] by (simp add: cache_agrees_def)
  from remove_from_cache_run [OF this, of p] obtain ok c' where
    rc: "remove_from_inode_cache p ?st2 = Some (ok, ?st2\<lparr>inodeCache := c'\<rparr>)" "\<not> ok \<longrightarrow> (\<exists>d. free_inode_cache c' = Some d)"
    by blast
  have un: "unlink_node now v ?nv t = Some u" using p(8) u(1) by (simp add: unlink_node_def)
  have wi: "write_inode k ?nd' u = Some (True, ?w)"
    using fs_invD(11) [OF u(2)] uk(1) by (simp add: run)
  have "\<exists>c''. unlink_child now p name pp v ?nv ?st = Some (0, st\<lparr>inodeCache := c'', fs_disk := ?w\<rparr>)"
  proof (cases ok)
    case True
    then show ?thesis
      using c(1) k1(1) k(1) iv(11) t(1) un wi rc(1)
      by (intro exI [of _ c']) (simp add: unlink_child_def run)
  next
    case False
    then show ?thesis
      using c(1) k1(1) k(1) iv(11) t(1) un wi rc
      by (intro exI [of _ "Some (create_inode_cache CACHE_CAPACITY)"]) (auto simp: unlink_child_def run flush_inode_cache_def)
  qed
  then obtain c'' where "unlink_child now p name pp v ?nv ?st = Some (0, st\<lparr>inodeCache := c'', fs_disk := ?w\<rparr>)" by blast
  then have run: "altfs_unlink now p st = Some (0, st\<lparr>inodeCache := c'', fs_disk := ?w\<rparr>)"
    using c1(1) p v iv(11) by (simp add: altfs_unlink_def run)
  let ?ents = "ents(k := rss, v := [])"
  have fb: "file_blocks t ?nv = file_blocks ?s ?nv" using t(7) v p(6) by blast
  have wv: "inode_of ?w v = cleared_inode ?nv" using w(3) [of v] u(3,4) tv(1) p(6) by (simp add: same_file_def)
  have oth: "same_file ?s ?w j" if "inum_ok ?s j" "j \<noteq> k" "j \<noteq> v" for j
  proof -
    have "same_file t u j" "same_file u ?w j" using that t(4) u(4,5) w(3) [of j] by simp_all
    then show ?thesis using t(6) that same_file_trans by blast
  qed
  have gone: "distinct (map fst (concat (ents k))) \<Longrightarrow> map_of (concat rss) = (map_of (concat (ents k)))(name := None)"
    unfolding t(3) by (rule map_of_del_first)
  have look: "dir_lookup ?s ents j n = Some x" if d: "distinct (map fst (concat (ents k)))"
    and j: "inum_ok ?s j" "dir_lookup ?w ?ents j n = Some x" for j n x
  proof (cases "j = k")
    case True
    then show ?thesis using j(2) gone [OF d] p(6) k(2) by (auto simp: dir_lookup_def split: if_splits)
  next
    case False
    moreover have "j \<noteq> v" using j(2) by (auto simp: dir_lookup_def split: if_splits)
    ultimately show ?thesis using j oth [of j] by (auto simp: dir_lookup_def same_file_def split: if_splits)
  qed
  have io: "inum_ok ?w j = inum_ok ?s j" for j using u(4) t(4) by simp
  have "resolve (dir_lookup ?w ?ents) p = -1 \<and> (\<forall>q. resolve (dir_lookup ?w ?ents) q = -1
      \<or> resolve (dir_lookup ?w ?ents) q = resolved st ents q)" if d: "distinct (map fst (concat (ents k)))"
  proof -
    have all: "resolve (dir_lookup ?w ?ents) q = -1 \<or> resolve (dir_lookup ?w ?ents) q = resolved st ents q" for q
      using resolve_valid [OF fs_invD(12,4) [OF w(1)]] unfolding io by (intro resolve_fewer [OF look [OF d]])
    have "dir_lookup ?w ?ents k name = None" using gone [OF d] p(6) by (simp add: dir_lookup_def)
    then show ?thesis using Rp [of "dir_lookup ?w ?ents"] all [of pp] all p(3) by auto
  qed
  then show ?thesis
    using run w(1,2) t(3) wv oth unfolding fb
    by (intro exI [of _ "st\<lparr>inodeCache := c'', fs_disk := ?w\<rparr>"] exI [of _ rss]) simp
qed

end
