(* ===== verification/Cache_Hazards.thy ===== *)
theory Cache_Hazards
  imports Inode_Cache
begin

text \<open>
  What the inode cache does to entries behind the back of the array of slots: a lookup moves an entry
  in front of the place its slot points to, and an eviction frees an entry its slot points to. Both
  are shown for every cache of this form, not for one sequence of operations.
\<close>

section \<open>Moved entries\<close>

lemma has_key_pair: "has_key c key a \<longleftrightarrow> (\<exists>v. map_option entry_pair (heap c a) = Some (key, v))"
  by (cases "heap c a") (auto simp: has_key_def entry_pair_def)

lemma has_key_value: "map_option entry_pair (heap c a) = Some (k, v) \<Longrightarrow> has_key c key a \<longleftrightarrow> k = key"
  by (auto simp: has_key_pair)

lemma has_key_cong: "map_option entry_pair (heap c' a) = map_option entry_pair (heap c a) \<Longrightarrow> has_key c' key a = has_key c key a"
  by (simp add: has_key_pair)

text \<open>An entry is found only at or behind the entry of its slot.\<close>

lemma moved_entry_missed:
  assumes c: "cache_list c xs" "slots_ok c xs" "key \<noteq> []"
    and hit: "find (has_key c key) (from_slot (slot_of c key) xs) = Some a"
    and one: "slot_of c key \<noteq> Some a" "\<And>x. x \<in> set xs \<Longrightarrow> has_key c key x \<Longrightarrow> x = a"
  obtains v c' where "map_option entry_pair (heap c a) = Some (key, v)"
    "get_cache_entry (Some c) (Some key) = Some (v, Some c')"
    "cache_list c' (a # remove1 a xs)" "slots_ok c' (a # remove1 a xs)" "same_entries c c'" "a \<in> set xs"
    "find (has_key c' key) (from_slot (slot_of c' key) (a # remove1 a xs)) = None"
proof -
  obtain e c' where g: "heap c a = Some e" "entry_key e = key"
    "get_cache_entry (Some c) (Some key) = Some (entry_value e, Some c')"
    "cache_list c' (a # remove1 a xs)" "same_entries c c'"
    using get_entry_run [OF c] hit by auto
  have a: "a \<in> set xs" using find_has_key [OF c(1) hit] by blast
  have d: "distinct xs" using c(1) by (simp add: cache_list_def)
  have s: "slot_of c' key = slot_of c key"
    using g(5) by (simp add: slot_of_def same_entries_def hash_index_cong [of c' c])
  have same: "has_key c' key x = has_key c key x" for x
    using g(5) by (intro has_key_cong) (simp add: same_entries_def)
  have "\<not> has_key c' key x" if "x \<in> set (from_slot (slot_of c key) (a # remove1 a xs))" for x
  proof -
    have "from_slot (slot_of c key) (a # remove1 a xs) = from_slot (slot_of c key) (remove1 a xs)"
      using one(1) by (cases "slot_of c key") (simp_all add: from_slot_def)
    then have "x \<in> set (remove1 a xs)" using that from_slot_subset by fastforce
    then have "x \<in> set xs" "x \<noteq> a" using d by (simp_all add: set_remove1_eq)
    then show ?thesis using one(2) same by blast
  qed
  then have "find (has_key c' key) (from_slot (slot_of c' key) (a # remove1 a xs)) = None"
    unfolding s by (simp add: find_None_iff)
  moreover have "slots_ok c' (a # remove1 a xs)"
    by (rule same_entries_slots [OF g(5) c(2)]) (use remove1_set [OF d a] in simp)
  ultimately show ?thesis using that [of "entry_value e" c'] g a by (simp add: entry_pair_def)
qed

text \<open>The history of a removed entry: looked up, missed, entered again, removed, and found again once
  another path \<open>r\<close> of the same hash is entered.\<close>

lemma moved_entry_survives:
  assumes c: "cache_list c xs" "slots_ok c xs" "key \<noteq> []"
    and hit: "find (has_key c key) (from_slot (slot_of c key) xs) = Some a"
    and one: "slot_of c key \<noteq> Some a" "\<And>x. x \<in> set xs \<Longrightarrow> has_key c key x \<Longrightarrow> x = a"
    and r: "r \<noteq> []" "r \<noteq> key" "hash_index c r = hash_index c key" and room: "csize c + 2 \<le> capacity c"
  shows "\<exists>v c'. map_option entry_pair (heap c a) = Some (key, v) \<and>
    run_ops [Get key, Get key, Set key w, Remove key, Get key, Set r u, Get key] (Some c)
      = Some ([v, -1, 0, 1, -1, 0, v], c')"
proof -
  let ?ys = "a # remove1 a xs"
  obtain v c1 where c1: "map_option entry_pair (heap c a) = Some (key, v)"
    "get_cache_entry (Some c) (Some key) = Some (v, Some c1)" "cache_list c1 ?ys" "slots_ok c1 ?ys" "same_entries c c1"
    "find (has_key c1 key) (from_slot (slot_of c1 key) ?ys) = None"
    using moved_entry_missed [OF c hit one] by metis
  have get1: "get_cache_entry (Some c1) (Some key) = Some (-1, Some c1)"
    using get_entry_run [OF c1(3,4) c(3)] c1(6) by simp
  have s1: "csize c1 = csize c" "capacity c1 = capacity c" using c1(5) by (simp_all add: same_entries_def)
  let ?n = "fresh c1"
  have "csize c1 < capacity c1" using room s1 by simp
  then obtain c2 where c2: "set_cache_entry (Some c1) (Some key) w = Some (Some c2)" "cache_list c2 (?n # ?ys)"
    "slots_ok c2 (?n # ?ys)" "slot_of c2 key = Some ?n"
    "\<forall>x. map_option entry_pair (heap c2 x) = (if x = ?n then Some (key, w) else map_option entry_pair (heap c1 x))"
    "capacity c2 = capacity c" "csize c2 = csize c + 1"
    using set_entry_miss [OF c1(3,4) c(3) _ c1(6), of w] s1 by auto
  have n: "?n \<notin> set ?ys" using c2(2) by (simp add: cache_list_def)
  have "has_key c2 key ?n" using c2(5) by (simp add: has_key_pair)
  then have "find (has_key c2 key) (from_slot (slot_of c2 key) (?n # ?ys)) = Some ?n"
    by (simp add: c2(4) from_slot_def)
  then obtain c3 where c3: "remove_cache_entry (Some c2) (Some key) = Some (True, Some c3)" "cache_list c3 ?ys"
    "slots_ok c3 ?ys" "slot_of c3 key = None"
    "\<forall>x. map_option entry_pair (heap c3 x) = (if x = ?n then None else map_option entry_pair (heap c2 x))"
    "capacity c3 = capacity c" "csize c3 = csize c + 1"
    using remove_entry_run [OF c2(2,3), of key ?n] c2(6,7) by auto
  have miss: "find P (from_slot (slot_of c3 key) ?ys) = None" for P by (simp add: c3(4) from_slot_def)
  have get3: "get_cache_entry (Some c3) (Some key) = Some (-1, Some c3)"
    using get_entry_run [OF c3(2,3) c(3)] unfolding miss by simp
  have cap: "capacity c3 = capacity c" by (rule c3(6))
  have sr: "slot_of c3 r = slot_of c3 key"
    using r(3) by (simp add: slot_of_def hash_index_cong [OF cap])
  let ?m = "fresh c3"
  have "csize c3 < capacity c3" using room c3(6,7) by simp
  then obtain c4 where c4: "set_cache_entry (Some c3) (Some r) u = Some (Some c4)" "cache_list c4 (?m # ?ys)"
    "slots_ok c4 (?m # ?ys)" "slot_of c4 r = Some ?m" "capacity c4 = capacity c"
    "\<forall>x. map_option entry_pair (heap c4 x) = (if x = ?m then Some (r, u) else map_option entry_pair (heap c3 x))"
    using set_entry_miss [OF c3(2,3) r(1), of u] miss [of "has_key c3 r"] cap unfolding sr by auto
  have "slot_of c4 key = Some ?m"
    using c4(4) r(3) by (simp add: slot_of_def hash_index_cong [OF c4(5)])
  moreover have "\<not> has_key c4 key ?m" using c4(6) r(2) by (simp add: has_key_pair)
  moreover have am: "a \<noteq> ?m" "a \<noteq> ?n" using c4(2) n by (auto simp: cache_list_def)
  then have a4: "map_option entry_pair (heap c4 a) = Some (key, v)"
    using c4(6) c3(5) c2(5) c1(1,5) by (simp add: same_entries_def)
  ultimately have "find (has_key c4 key) (from_slot (slot_of c4 key) (?m # ?ys)) = Some a"
    by (simp add: from_slot_def) (auto simp: has_key_pair)
  then obtain e c5 where "heap c4 a = Some e" "get_cache_entry (Some c4) (Some key) = Some (entry_value e, Some c5)"
    using get_entry_run [OF c4(2,3) c(3)] by auto
  then have get4: "get_cache_entry (Some c4) (Some key) = Some (v, Some c5)" using a4 by (simp add: entry_pair_def)
  have "run_ops [Get key, Get key, Set key w, Remove key, Get key, Set r u, Get key] (Some c)
      = Some ([v, -1, 0, 1, -1, 0, v], Some c5)"
    by (simp add: c1(2) get1 c2(1) c3(1) get3 c4(1) get4)
  then show ?thesis using c1(1) by blast
qed

section \<open>Evicted entries\<close>

text \<open>A full cache: a new path evicts the last entry. Its slot keeps the address of the freed entry,
  unless the new path has the same hash.\<close>

lemma evicted_entry_dangles:
  assumes c: "cache_list c (xs @ [a])" "slots_ok c (xs @ [a])" "key \<noteq> []" "capacity c \<le> csize c"
    and miss: "find (has_key c key) (from_slot (slot_of c key) (xs @ [a])) = None"
    and old: "map_option entry_pair (heap c a) = Some (old, v)" "old \<noteq> []" "slot_of c old = Some a"
      "hash_index c old \<noteq> hash_index c key"
  shows "\<exists>c'. set_cache_entry (Some c) (Some key) w = Some (Some c') \<and> cache_list c' (fresh c # xs)
    \<and> slot_of c' old = Some a \<and> heap c' a = None \<and> get_cache_entry (Some c') (Some old) = None"
proof -
  obtain c1 where c1: "push_entry key w c = Some (Some (fresh c), c1)" "cache_list c1 (fresh c # xs @ [a])"
    "cmap c1 = cmap c" "capacity c1 = capacity c" "csize c1 = csize c + 1"
    using push_entry_run [OF c(1), of key w] by blast
  have l: "fresh c # xs @ [a] = (fresh c # xs) @ a # []" by simp
  obtain c2 where c2: "delete_node (Some a) c1 = Some c2" "cache_list c2 (fresh c # xs)"
    "\<And>x. map_option entry_pair (heap c2 x) = (if x = a then None else map_option entry_pair (heap c1 x))"
    "cmap c2 = cmap c" "capacity c2 = capacity c" "csize c2 = csize c + 1"
    using delete_node_list [OF c1(2) [unfolded l]] c1(3-5) by auto
  obtain m where m: "cmap c = Some m" "0 < capacity c" "capacity c < 2 ^ 63"
    using c(2) by (auto simp: slots_ok_def)
  obtain i where i: "hash_index c key = Some i" "0 \<le> i" "i < capacity c"
    using hash_index_run m(2,3) by metis
  obtain j where j: "hash_index c old = Some j" "0 \<le> j" "j < capacity c"
    using hash_index_run m(2,3) by metis
  define c3 where "c3 = c2\<lparr>csize := csize c, cmap := Some (m(i := Some (fresh c)))\<rparr>"
  have idx: "hash_index c3 = hash_index c" "hash_index c1 = hash_index c"
    by (rule ext, rule hash_index_cong, simp add: c3_def c2(5) c1(4))+
  have tail: "cache_tail c1 = Some a" using c1(2) by (simp add: cache_list_def last_of_def)
  have "set_cache_entry (Some c) (Some key) w = Some (Some c3)"
    using lookup_entry_run [OF c(1,2)] miss c(3,4) c1 c2 i m(1) tail
    by (simp add: set_cache_entry_def map_set_def c3_def)
  moreover have "cache_list c3 (fresh c # xs)" using c2(2) by (simp add: cache_list_def c3_def)
  moreover have s: "slot_of c3 old = Some a"
    using old(3,4) i(1) j(1) by (simp add: slot_of_def idx) (simp add: c3_def m(1))
  moreover have h: "heap c3 a = None" using c2(3) [of a] by (simp add: c3_def)
  moreover have "get_cache_entry (Some c3) (Some old) = None"
    using old(2,4) s h i(1) j c2(5)
    by (simp add: get_cache_entry_def lookup_entry_def map_get_def idx slot_of_def find_entry.simps)
      (simp add: c3_def find_entry.simps)
  ultimately show ?thesis by blast
qed

section \<open>A cache of two entries\<close>

lemma two_entries:
  assumes "2 \<le> n" "n < 2 ^ 63" "p \<noteq> []" "q \<noteq> []" "p \<noteq> q"
  obtains c a b where "run_ops [Set p x, Set q y] (Some (create_inode_cache n)) = Some ([0, 0], Some c)"
    "cache_list c [b, a]" "slots_ok c [b, a]" "a \<noteq> b" "slot_of c q = Some b" "csize c = 2" "capacity c = n"
    "map_option entry_pair (heap c a) = Some (p, x)" "map_option entry_pair (heap c b) = Some (q, y)"
    "hash_index (create_inode_cache n) p \<noteq> hash_index (create_inode_cache n) q \<longrightarrow> slot_of c p = Some a"
proof -
  let ?c = "create_inode_cache n"
  have c: "cache_list ?c []" "slots_ok ?c []" "csize ?c = 0" "capacity ?c = n"
    using assms(1,2) by (auto simp: cache_list_def slots_ok_def create_inode_cache_def)
  have nil: "from_slot s [] = []" for s by (cases s) (simp_all add: from_slot_def)
  let ?a = "fresh ?c"
  obtain c1 where c1: "set_cache_entry (Some ?c) (Some p) x = Some (Some c1)" "cache_list c1 [?a]" "slots_ok c1 [?a]"
    "slot_of c1 p = Some ?a" "\<forall>a. map_option entry_pair (heap c1 a) = (if a = ?a then Some (p, x) else map_option entry_pair (heap ?c a))"
    "capacity c1 = n" "csize c1 = 1"
    using set_entry_miss [OF c(1,2) assms(3), of x] assms(1) unfolding nil c(3,4) by auto
  have h0: "map_option entry_pair (heap c1 ?a) = Some (p, x)" using c1(5) by simp
  have miss: "find (has_key c1 q) (from_slot (slot_of c1 q) [?a]) = None"
    using from_slot_subset [of "slot_of c1 q" "[?a]"] h0 assms(5) by (auto simp: find_None_iff has_key_pair)
  let ?b = "fresh c1"
  obtain c2 where c2: "set_cache_entry (Some c1) (Some q) y = Some (Some c2)" "cache_list c2 [?b, ?a]" "slots_ok c2 [?b, ?a]"
    "slot_of c2 q = Some ?b" "\<forall>a. map_option entry_pair (heap c2 a) = (if a = ?b then Some (q, y) else map_option entry_pair (heap c1 a))"
    "capacity c2 = n" "csize c2 = 2" "\<forall>k. hash_index c1 k \<noteq> hash_index c1 q \<longrightarrow> slot_of c2 k = slot_of c1 k"
    using set_entry_miss [OF c1(2,3) assms(4) _ miss, of y] assms(1) c1(6,7) by auto
  have idx: "hash_index c1 k = hash_index ?c k" for k by (rule hash_index_cong) (simp add: c1(6) c(4))
  have "?a \<noteq> ?b" using c2(2) by (auto simp: cache_list_def)
  then show ?thesis
    using that [of c2 ?b ?a] c1(1,4) c2 h0 idx by simp
qed

end
