(* ===== verification/Record_Scans.thy ===== *)
theory Record_Scans
  imports Interface_Layer
begin

text \<open>
  The loops over the records of a directory block with a bound on the rounds: however damaged the
  block is, none of them takes more rounds than the block has bytes, because a record that is not the
  last one has a positive length.
\<close>

primrec find_space_upto :: "nat \<Rightarrow> buf \<Rightarrow> int \<Rightarrow> int \<Rightarrow> int option option" where
  "find_space_upto 0 b n p = None"
| "find_space_upto (Suc k) b n p =
     (if p \<le> LAST_POSSIBLE_RECORD then
        let record_len = get_le 2 b p in
        if record_len = 0 then Some (if BLOCK_SIZE - p - RECORD_FIXED_LEN \<ge> n then Some p else None)
        else find_space_upto k b n (p + record_len)
      else Some None)"

primrec find_record_upto :: "nat \<Rightarrow> buf \<Rightarrow> cstr \<Rightarrow> int \<Rightarrow> int option option option" where
  "find_record_upto 0 b name p = None"
| "find_record_upto (Suc k) b name p =
     (if p \<le> LAST_POSSIBLE_RECORD then
        let record_len = get_le 2 b p;
            curr_file_name_len = (record_len - RECORD_FIXED_LEN - 1) mod 65536 in
        if record_len = 0 then Some (Some None)
        else (case (if curr_file_name_len = int (length name)
                    then name_at b (p + RECORD_FIXED_LEN) name else Some False) of
            None \<Rightarrow> Some None
          | Some found \<Rightarrow>
              if found then Some (Some (Some p)) else find_record_upto k b name (p + record_len))
      else Some (Some None))"

text \<open>Each round brings the position closer to the end of the block.\<close>

lemma record_step:
  assumes "get_le 2 b p \<noteq> 0" "p \<le> LAST_POSSIBLE_RECORD" "nat (4096 - p) < Suc k"
  shows "nat (4096 - (p + get_le 2 b p)) < k"
  using assms get_le_range [of 2 b p] by simp linarith

lemma find_space_bounded: "nat (4096 - p) < k \<Longrightarrow> find_space_upto k b n p = Some (find_space b n p)"
proof (induction k arbitrary: p)
  case (Suc k)
  show ?case
  proof (cases "p \<le> LAST_POSSIBLE_RECORD \<and> get_le 2 b p \<noteq> 0")
    case True
    then have "nat (4096 - (p + get_le 2 b p)) < k" using record_step Suc.prems by blast
    then show ?thesis using Suc.IH True by (simp add: find_space.simps [of b n p] Let_def)
  next
    case False
    then show ?thesis by (auto simp: find_space.simps [of b n p] Let_def)
  qed
qed simp

lemma find_record_bounded: "nat (4096 - p) < k \<Longrightarrow> find_record_upto k b name p = Some (find_record b name p)"
proof (induction k arbitrary: p)
  case (Suc k)
  show ?case
  proof (cases "p \<le> LAST_POSSIBLE_RECORD \<and> get_le 2 b p \<noteq> 0")
    case True
    then have "nat (4096 - (p + get_le 2 b p)) < k" using record_step Suc.prems by blast
    then have "find_record_upto k b name (p + get_le 2 b p) = Some (find_record b name (p + get_le 2 b p))"
      by (rule Suc.IH)
    then show ?thesis using True by (simp add: find_record.simps [of b name p] Let_def split: option.split)
  next
    case False
    then show ?thesis by (auto simp: find_record.simps [of b name p] Let_def)
  qed
qed simp

end
