(* ===== verification/Listing_Directories.thy ===== *)
theory Listing_Directories
  imports Reading_Files
begin

text \<open>
  \<open>altfs_readdir\<close> of \<open>src/interface_layer.c\<close>: every record of the directory is handed to \<open>filler\<close> once,
  in the order of the blocks, with the attributes of its inode.
\<close>

definition listed :: "altfs \<Rightarrow> dirent \<Rightarrow> byte list \<times> stat" where
  "listed s r = (fst r @ [0], (inode_to_stat (inode_of s (snd r)) zero_stat)\<lparr>st_ino := snd r\<rparr>)"

lemma bytes_at_map: "bytes_at b p xs \<Longrightarrow> map b [p..p + int (length xs) - 1] = xs"
proof (induction xs arbitrary: p)
  case (Cons x xs)
  have "[p..p + int (length (x # xs)) - 1] = p # [p + 1..p + 1 + int (length xs) - 1]"
    by (subst upto.simps) (simp add: add.commute)
  then show ?case using Cons.IH [of "p + 1"] Cons.prems by simp
qed simp

lemma list_records_run:
  assumes "table_ready s" "recs b p rs" "zero_from b (p + recs_size rs)" "p + recs_size rs \<le> 4096" "0 \<le> p"
    "\<forall>r \<in> set rs. inum_ok s (snd r)"
  shows "list_records b p s = Some (map (listed s) rs)"
  using assms(2-6)
proof (induction rs arbitrary: p)
  case Nil
  then show ?case using get_le_zero [of b p 2] by (subst list_records.simps) auto
next
  case (Cons r rs)
  have r: "get_le 2 b p = rec_size r" "to_ssize (get_le 8 b (p + 2)) = snd r" "bytes_at b (p + 10) (fst r @ [0])"
    "length (fst r) \<le> 255"
    using Cons.prems(1) by (simp_all add: record_at_def dirent_ok_def)
  have fit: "p + rec_size r \<le> 4096" using Cons.prems(3) recs_size_nonneg [of rs] by simp
  have "map b [p + 10..p + 10 + int (length (fst r @ [0])) - 1] = fst r @ [0]" by (rule bytes_at_map [OF r(3)])
  then have rb: "read_bytes b (p + 10) (rec_size r - 10) = Some (fst r @ [0])"
    using fit Cons.prems(4) by (simp add: read_bytes_def rec_size_def add.commute)
  have nl: "(rec_size r - 10) mod 65536 = rec_size r - 10" using r(4) by (simp add: rec_size_def)
  have gi: "get_inode (snd r) s = Some (Some (inode_of s (snd r)))" using assms(1) Cons.prems(5) by (simp add: run)
  have rest: "list_records b (p + rec_size r) s = Some (map (listed s) rs)"
    using Cons.prems rec_size_pos(1) [of r] by (intro Cons.IH) (auto simp: add.assoc)
  have "p < 4086" "rec_size r \<noteq> 0" using fit rec_size_pos [of r] by auto
  then show ?case
    by (subst list_records.simps) (simp add: r(1,2) nl rb gi rest Let_def listed_def)
qed

lemma take_Suc_concat: "n < length xss \<Longrightarrow> concat (take (Suc n) xss) = concat (take n xss) @ xss ! n"
  by (simp add: take_Suc_conv_app_nth)

theorem readdir_run:
  assumes rdy: "fs_ready st F ents" "int (length p) \<le> room st" "resolved st ents p = k" "k \<noteq> -1"
    and dir: "S_ISDIR (i_mode (inode_of (fs_disk st) k))"
  shows "\<exists>c. altfs_readdir p st = Some (0, map (listed (fs_disk st)) (concat (ents k)), st\<lparr>inodeCache := c\<rparr>)
    \<and> fs_ready (st\<lparr>inodeCache := c\<rparr>) F ents \<and> room st - int (length p) \<le> cache_room c"
proof -
  let ?s = "fs_disk st" and ?nd = "inode_of (fs_disk st) k" and ?rss = "ents k"
  note iv = fs_invD [OF fs_readyD(1) [OF rdy(1)]]
  obtain c where c: "name_i p st = Some (k, st\<lparr>inodeCache := c\<rparr>)"
    "fs_ready (st\<lparr>inodeCache := c\<rparr>) F ents" "room st - int (length p) \<le> cache_room c"
    using name_i_ready [OF rdy(1,2)] unfolding rdy(3) .
  have k: "inum_ok ?s k" using resolved_inum [OF rdy(1), of p] rdy(3,4) by simp
  have d: "dir_ok ?s F ?nd ?rss" "\<forall>(n, v) \<in> set (concat ?rss). inum_ok ?s v" using iv(8) [OF k dir] by auto
  note dd = dir_okD [OF d(1)]
  define I where "I = (\<lambda>l (prev, calls). walk_ok ?s ?nd l prev \<and> calls = map (listed ?s) (concat (take (nat l) ?rss)))"
  have "\<exists>x. for_loop 0 (i_blocks_num ?nd) (list_block ?nd ?s) (0, []) = Some (Next x) \<and> I (i_blocks_num ?nd) x"
  proof (rule for_loop_all)
    show "I 0 (0, [])" by (simp add: I_def)
    show "0 \<le> i_blocks_num ?nd" using dd(4) by simp
    fix l x assume l: "0 \<le> l" "l < i_blocks_num ?nd" and I: "I l x"
    obtain prev calls where x: "x = (prev, calls)" "walk_ok ?s ?nd l prev" "calls = map (listed ?s) (concat (take (nat l) ?rss))"
      using I by (cases x) (simp add: I_def)
    obtain prev' where g: "get_disk_block_from_inode_block ?nd l prev ?s = Some (file_block ?s ?nd l, prev')"
      "walk_ok ?s ?nd (l + 1) prev'" "read_data_block (file_block ?s ?nd l) ?s = Some (Some (file_data ?s ?nd l))"
      using read_chunk_run [OF iv(10) dd(1) l x(2)] by blast
    have nl: "nat l < length ?rss" using l dd(4) by auto
    have "holds (file_data ?s ?nd l) (?rss ! nat l)" using dd(5) [OF l] by (simp add: file_data_def)
    moreover have "\<forall>r \<in> set (?rss ! nat l). inum_ok ?s (snd r)" using d(2) nth_mem [OF nl] by fastforce
    ultimately have lr: "list_records (file_data ?s ?nd l) 0 ?s = Some (map (listed ?s) (?rss ! nat l))"
      by (intro list_records_run [OF iv(11)]) (simp_all add: holds_def)
    have "nat (l + 1) = Suc (nat l)" using l(1) by simp
    then have "calls @ map (listed ?s) (?rss ! nat l) = map (listed ?s) (concat (take (nat (l + 1)) ?rss))"
      using take_Suc_concat [OF nl] x(3) by simp
    then show "\<exists>x'. list_block ?nd ?s l x = Some (Next x') \<and> I (l + 1) x'"
      using g lr by (simp add: x(1) list_block_def I_def)
  qed
  then obtain prev where "for_loop 0 (i_blocks_num ?nd) (list_block ?nd ?s) (0, [])
      = Some (Next (prev, map (listed ?s) (concat ?rss)))"
    using dd(4) by (auto simp: I_def)
  then have "altfs_readdir p st = Some (0, map (listed ?s) (concat ?rss), st\<lparr>inodeCache := c\<rparr>)"
    using c(1) rdy(4) iv(11) k dir by (simp add: altfs_readdir_def run)
  then show ?thesis using c(2,3) by blast
qed

end
