(* ===== verification/Spec2Isabelle.thy ===== *)
theory Spec2Isabelle
  imports FUSE_Layer Running_System Removing_Files Cache_Hazards Record_Scans Listing_Directories
begin

text \<open>
  AltFileSystem is a file system in C for libfuse, on a flat array of 4096-byte blocks: block 0 is the
  superblock, then come the blocks of the inode table, then the data blocks. This development models
  the program as it is built without \<open>DISK_MEMORY\<close> (the disk is one allocated region) and proves what
  its components promise, from the bytes of a block up to the operations on paths.

  The parts of the program and the theories that model them (C names are kept; paths below \<open>src/\<close>):

  \<^item> \<open>src/disk_layer.c\<close>: \<open>Disk_Layer\<close>. The state \<open>altfs\<close> is the disk (\<open>mem_ptr\<close>, a region of bytes), its
    size \<open>FS_SIZE\<close> (a constant of the build, here a field, so that the theorems hold for every size)
    and the superblock in memory (\<open>altfs_superblock\<close>, a pointer).
  \<^item> \<open>src/superblock_layer.c\<close>, \<open>header/superblock_layer.h\<close>: \<open>Block_Layout\<close> (the layout of the areas, of
    \<open>struct inode\<close> and of address blocks as bytes) and \<open>Superblock_Layer\<close> (formatting, loading).
  \<^item> \<open>src/data_block_ops.c\<close>: \<open>Data_Block_Ops\<close>, over the meaning of the free list in \<open>Free_List\<close>.
  \<^item> \<open>src/inode_ops.c\<close>: \<open>Inode_Ops\<close>; the lemmas are in \<open>Inode_Table\<close> and \<open>Block_Release\<close>.
  \<^item> \<open>src/inode_data_block_ops.c\<close>: \<open>Inode_Data_Block_Ops\<close>; the lemmas are in \<open>File_Blocks\<close> (a file as a
    tree of blocks, appending, lookup), \<open>File_Release\<close> (freeing, cutting off), \<open>File_Edits\<close>
    (replacing) and \<open>File_Content\<close> (walking over a file).
  \<^item> \<open>src/inode_cache.c\<close>: \<open>Inode_Cache\<close>, with an explicit store for the doubly linked list;
    \<open>Cache_Hazards\<close> has the ways in which its slots go stale.
  \<^item> \<open>src/directory_ops.c\<close>: \<open>Directory_Ops\<close>; the lemmas are in \<open>Directory_Records\<close> (one block),
    \<open>Record_Scans\<close> (the loops end), \<open>Directories\<close> and \<open>Directory_Changes\<close> (lookup, adding, removing)
    and \<open>Path_Lookup\<close> (paths, \<open>name_i\<close>).
  \<^item> \<open>src/interface_layer.c\<close>: \<open>Interface_Layer\<close> and \<open>Interface_Files\<close>. The state \<open>fs\<close> is \<open>altfs\<close> with the
    cache. The lemmas are in \<open>File_System\<close> (the invariant), \<open>File_System_Setup\<close>, \<open>Creating_Files\<close>,
    \<open>Reading_Files\<close>, \<open>Listing_Directories\<close>, \<open>Writing_Files\<close> and \<open>Removing_Files\<close>.
  \<^item> \<open>src/fuse_layer.c\<close>, \<open>src/mkfs.c\<close>: \<open>FUSE_Layer\<close>.
  \<^item> \<open>AltFS_Prelude\<close> has the shared vocabulary; \<open>Sample_Disk\<close>, \<open>Mounting\<close> and \<open>Running_System\<close> build the
    concrete disks and running systems of the witnesses.

  Conventions. A function that changes state takes it and gives it back. \<open>None\<close> is undefined
  behaviour in C: a NULL, dangling or out-of-range access, an uninitialised pointer; a theorem with
  \<open>Some\<close> on the right shows that none of this happens. Errors of the program are values, as in C.
  The \<open>for\<close> loops run through \<open>for_loop\<close> with \<open>break\<close> and \<open>return\<close>; other loops are recursive
  functions with a measure, and the search in the cache, which may run into a cycle, is a
  \<open>partial_function\<close> whose \<open>None\<close> is a bad pointer or an endless list. \<open>ssize_t\<close> and
  \<open>size_t\<close> values are integers with the wrap-around written out where it can happen; the hash is a
  64-bit word. Allocation is taken to succeed and never to give out an address again; \<open>time\<close> is the
  argument \<open>now\<close>. Local buffers need no addresses, because no two of them alias.

  What the lemmas show. \<open>freelist s F\<close>: the free list of the disk holds exactly the blocks \<open>F\<close>, each
  once. \<open>inode_table_inv s\<close>: the superblock points to the first free inode. \<open>file_ok s F nd\<close>: the
  blocks of the inode form a tree of distinct data blocks outside of \<open>F\<close>, and everything unused is
  zero. \<open>dir_ok s F nd rss\<close>: the blocks of a directory hold the records \<open>rss\<close>. \<open>fs_inv\<close> puts them
  together: every data block is free or belongs to exactly one file. \<open>fs_ready\<close> adds that every
  cached path leads where the directories lead. The properties C1 to C26 are about the single
  components, C27 to C32 about paths and directories, C33 to C40 about the operations on paths in a
  running file system. The locales state the interfaces between the components and are interpreted
  on the code's model: \<open>cell_array\<close> (addresses and inodes in a block), \<open>block_allocator\<close> (allocating and
  freeing blocks), \<open>inode_store\<close> (the inode table) and \<open>path_cache\<close> (what path lookup needs of the cache).

  Bounds. The properties on paths ask for room in the cache (\<open>room st\<close>, its capacity less its size):
  a lookup of a path enters at most one entry per byte of the path, so nothing is evicted; what an
  eviction does is C26. A file that grows by one block takes at most four (C16). A formatted disk
  must not have a whole number of 512-block groups of data blocks (C4). Freeing needs a free block
  (C10 says what happens without one).

  Modelled without properties of their own: \<open>altfs_truncate\<close> above the block level, \<open>altfs_open\<close>,
  \<open>altfs_chmod\<close>, \<open>altfs_rename\<close>, the callbacks of FUSE and the options of mkfs.

  Not modelled: the \<open>DISK_MEMORY\<close> branches (system calls on a device: \<open>disk_layer.c\<close> and the lines of
  \<open>load_superblock\<close> and \<open>altfs_makefs\<close> that depend on it), libfuse itself (\<open>fuse_main\<close>, \<open>filler\<close>, the
  table of callbacks), logging, and the unit tests.
\<close>

section \<open>The disk\<close>

text \<open>C1: a block that was written is read back exactly as far as the block reaches, every other
  block reads as before, and no other part of the state changes; this holds for every block number
  the disk has.\<close>

theorem read_after_write:
  assumes "mounted s" "valid_block s n" "valid_block s k"
  shows "\<exists>t. altfs_write_block n (Some b) s = Some (True, t)
    \<and> altfs_read_block k (Some c) t = Some (True, Some (if k = n then clip b else disk_block s k))
    \<and> FS_SIZE t = FS_SIZE s \<and> altfs_superblock t = altfs_superblock s"
  using assms by (simp add: run mem_simps)

theorem read_after_write_witness:
  "\<exists>s t. altfs_write_block 99 (Some (\<lambda>_. 7)) s = Some (True, t)
    \<and> altfs_read_block 99 (Some zero_buf) t = Some (True, Some (clip (\<lambda>_. 7)))"
proof -
  obtain s where s: "freelist s {2..<100}" "FS_SIZE s = 409600" by (rule small_disk)
  then have "mounted s" "valid_block s 99"
    by (auto simp: freelist_mounted valid_block_def BLOCK_COUNT_def)
  then show ?thesis using read_after_write [of s 99 99 "\<lambda>_. 7" zero_buf] by auto
qed

text \<open>C2: a block number outside of the disk is refused by the read and by the write; neither the
  buffer nor the state changes.\<close>

theorem out_of_range_block_refused:
  assumes "n < 0 \<or> n \<ge> BLOCK_COUNT s"
  shows "altfs_read_block n (Some b) s = Some (False, Some b)
    \<and> altfs_write_block n (Some b) s = Some (False, s)"
  using assms by (simp add: altfs_read_block_def altfs_write_block_def isBlockOutOfRange_def)

theorem out_of_range_block_refused_witness:
  "altfs_read_block 100 (Some zero_buf) (blank_disk 100) = Some (False, Some zero_buf)
    \<and> altfs_write_block 100 (Some zero_buf) (blank_disk 100) = Some (False, blank_disk 100)"
  by (rule out_of_range_block_refused) simp

section \<open>Making and loading a file system\<close>

text \<open>C3: on a disk whose data area is not a whole number of 512-block groups, \<open>altfs_makefs\<close>
  succeeds: every data block is free (the free list holds each of them exactly once and no other),
  no inode is allocated, the inode table invariant holds and the superblock on the disk is the
  one in memory.\<close>

theorem makefs_makes_a_file_system:
  assumes "geometry_ok s" "NUM_OF_DATA_BLOCKS s mod 512 \<noteq> 0"
  shows "\<exists>t. altfs_makefs True s = Some (True, t) \<and> freelist t {n. data_block s n}
    \<and> superblock_synced t \<and> inode_table_inv t \<and> (\<forall>k. inum_ok s k \<longrightarrow> inode_of t k = empty_inode)"
  using makefs_fresh [OF assms] by blast

theorem makefs_makes_a_file_system_witness:
  "\<exists>t. altfs_makefs True (blank_disk 100) = Some (True, t) \<and> freelist t {2..<100} \<and> inode_table_inv t"
proof -
  have g: "geometry_ok (blank_disk 100)" "NUM_OF_DATA_BLOCKS (blank_disk 100) mod 512 \<noteq> 0"
    by (simp_all add: geometry_ok_def INODE_BLOCK_COUNT_def NUM_OF_DATA_BLOCKS_def in_ssize_def)
  have "{n. data_block (blank_disk 100) n} = {2..<100}" by (simp add: blank_disk_data_blocks)
  then show ?thesis using makefs_makes_a_file_system [OF g] by auto
qed

text \<open>C4: where the data area is a whole number of 512-block groups, \<open>altfs_makefs\<close> reports failure:
  \<open>NUM_OF_FREE_LIST_BLOCKS\<close> counts one list block too many, which would lie behind the disk.\<close>

theorem makefs_fails_on_whole_groups:
  assumes "geometry_ok s" "NUM_OF_DATA_BLOCKS s mod 512 = 0"
  shows "\<exists>t. altfs_makefs True s = Some (False, t)"
  using assms by (rule makefs_too_many)

theorem makefs_fails_on_whole_groups_witness:
  "\<exists>t. altfs_makefs True (blank_disk 520) = Some (False, t)"
  by (rule makefs_fails_on_whole_groups)
    (simp_all add: geometry_ok_def INODE_BLOCK_COUNT_def NUM_OF_DATA_BLOCKS_def in_ssize_def)

text \<open>C5: after \<open>altfs_write_superblock\<close> and a restart that leaves only the disk, \<open>load_superblock\<close>
  succeeds and restores the superblock and with it the whole state.\<close>

theorem superblock_survives_restart:
  assumes "mounted s" "geometry_ok s" "table_sb s sb"
  shows "\<exists>t. altfs_write_superblock s = Some (True, t)
    \<and> load_superblock (t\<lparr>altfs_superblock := Null\<rparr>) = Some (True, t) \<and> altfs_superblock t = Ptr sb"
proof -
  obtain t where t: "altfs_write_superblock s = Some (True, t)"
    "load_superblock (t\<lparr>altfs_superblock := Null\<rparr>) = Some (True, t)"
    using load_written_superblock [OF assms] by blast
  then show ?thesis
    using assms geometry_valid_0 [OF assms(2)] by (auto simp: table_sb_def run)
qed

theorem superblock_survives_restart_witness:
  "\<exists>s t. altfs_write_superblock s = Some (True, t)
    \<and> load_superblock (t\<lparr>altfs_superblock := Null\<rparr>) = Some (True, t)"
proof -
  obtain s where "inode_table_inv s" by (rule small_disk)
  then obtain sb where "mounted s" "geometry_ok s" "table_sb s sb" by (auto simp: inode_table_inv_def)
  then show ?thesis using superblock_survives_restart by blast
qed

text \<open>C6: a disk whose first block is zero, or holds a superblock of other dimensions than the
  program was built for, is refused without any effect.\<close>

theorem foreign_disk_refused:
  assumes "mounted s" "geometry_ok s"
    and "disk_block s 0 = zero_buf
      \<or> s_num_of_inodes_per_block (get_superblock (disk_block s 0)) \<noteq> 18
      \<or> s_inodes_count (get_superblock (disk_block s 0)) \<noteq> INODE_BLOCK_COUNT s * 18"
  shows "load_superblock s = Some (False, s)"
  using assms by (rule load_foreign_superblock)

theorem foreign_disk_refused_witness:
  "load_superblock ((blank_disk 100)\<lparr>mem_ptr := Ptr zero_buf\<rparr>)
    = Some (False, (blank_disk 100)\<lparr>mem_ptr := Ptr zero_buf\<rparr>)"
proof (rule foreign_disk_refused)
  show "mounted ((blank_disk 100)\<lparr>mem_ptr := Ptr zero_buf\<rparr>)" by (simp add: mounted_def in_ssize_def)
  show "geometry_ok ((blank_disk 100)\<lparr>mem_ptr := Ptr zero_buf\<rparr>)"
    by (simp add: geometry_ok_def INODE_BLOCK_COUNT_def in_ssize_def)
qed (simp add: disk_block_def clip_def zero_buf_def)

section \<open>Data blocks\<close>

text \<open>C7: \<open>allocate_data_block\<close> refines taking an element out of the set of free blocks: it returns a
  free block, filled with zeros, removes exactly it from the free blocks, and touches only
  block 0 and free blocks.\<close>

theorem allocation_takes_a_free_block:
  assumes "freelist s F" "F \<noteq> {}"
  shows "\<exists>n t. allocate_data_block s = Some (n, t) \<and> n \<in> F \<and> freelist t (F - {n})
    \<and> disk_block t n = zero_buf \<and> only_changes (insert 0 F) s t
    \<and> (superblock_synced s \<longrightarrow> superblock_synced t)"
  using allocate_data_block_free [OF assms] by blast

theorem allocation_takes_a_free_block_witness:
  "\<exists>s n t. allocate_data_block s = Some (n, t) \<and> n \<in> {2..<100} \<and> freelist t ({2..<100} - {n})"
proof -
  obtain s where "freelist s {2..<100}" by (rule small_disk)
  then show ?thesis using allocation_takes_a_free_block [of s "{2..<100}"] by auto
qed

text \<open>C8: \<open>free_data_block\<close> refines adding an element to a set of free blocks that is not empty.\<close>

theorem freeing_adds_the_block:
  assumes "freelist s F" "F \<noteq> {}" "data_block s n" "n \<notin> F"
  shows "\<exists>t. free_data_block n s = Some (True, t) \<and> freelist t (insert n F)
    \<and> only_changes (insert 0 (insert n F)) s t \<and> (superblock_synced s \<longrightarrow> superblock_synced t)"
  using free_data_block_free [OF assms] by blast

theorem freeing_adds_the_block_witness:
  "\<exists>s n t u. allocate_data_block s = Some (n, t) \<and> free_data_block n t = Some (True, u)
    \<and> freelist u {2..<100}"
proof -
  obtain s where s: "freelist s {2..<100}" by (rule small_disk)
  then obtain n t where n: "allocate_data_block s = Some (n, t)" "n \<in> {2..<100}" "freelist t ({2..<100} - {n})"
    "only_changes (insert 0 {2..<100}) s t"
    using allocate_data_block_free [of s "{2..<100}"] by auto
  have "data_block t n" using freelist_data_block [OF s n(2)] only_changes_geometry(3) [OF n(4)] by simp
  moreover have "{2..<100} - {n} \<noteq> {}" by (rule small_disk_rest)
  ultimately obtain u where "free_data_block n t = Some (True, u)" "freelist u (insert n ({2..<100} - {n}))"
    using freeing_adds_the_block [OF n(3)] by blast
  then show ?thesis using n by (auto simp: insert_absorb)
qed

text \<open>C9: allocating until nothing is left hands out every free block exactly once; after that the
  allocation returns -1 and changes nothing.\<close>

theorem every_block_is_allocated_once:
  assumes "freelist s F"
  shows "\<exists>ns t. alloc_many allocate_data_block (card F) s = Some (ns, t) \<and> distinct ns \<and> set ns = F
    \<and> allocate_data_block t = Some (-1, t)"
proof -
  obtain ns t where ns: "alloc_many allocate_data_block (card F) s = Some (ns, t)" "set ns = F"
    "allocate_data_block t = Some (-1, t)"
    using data_blocks.alloc_exhausts [OF assms] by blast
  moreover have "length ns = card F"
    using data_blocks.alloc_many_takes [OF assms order_refl] ns(1) by auto
  then have "distinct ns" using ns(2) by (intro card_distinct) simp
  then show ?thesis using ns by blast
qed

theorem every_block_is_allocated_once_witness:
  "\<exists>s ns t. alloc_many allocate_data_block 98 s = Some (ns, t) \<and> distinct ns \<and> set ns = {2..<100}
    \<and> allocate_data_block t = Some (-1, t)"
proof -
  obtain s where "freelist s {2..<100}" by (rule small_disk)
  then show ?thesis using every_block_is_allocated_once [of s "{2..<100}"] by auto
qed

text \<open>C10: when no block is free, freeing a block whose second address is 0 puts it into the list as
  a list block that also lists itself: the next two allocations both return this block.\<close>

theorem freed_block_is_allocated_twice:
  assumes "freelist s {}" "data_block s n" "addr_at (disk_block s n) 1 = 0"
  shows "\<exists>t u v. free_data_block n s = Some (True, t) \<and> allocate_data_block t = Some (n, u)
    \<and> allocate_data_block u = Some (n, v)"
proof -
  obtain sb where sb: "altfs_superblock s = Ptr sb" using assms(1) by (auto simp: freelist_def)
  show ?thesis
    using free_into_empty_run [OF assms(1) sb assms(2,3)]
      allocate_after_free_into_empty [OF assms(1) sb assms(2,3)] by blast
qed

theorem freed_block_is_allocated_twice_witness:
  "\<exists>s t u v. free_data_block 2 s = Some (True, t) \<and> allocate_data_block t = Some (2, u)
    \<and> allocate_data_block u = Some (2, v)"
proof -
  obtain s0 where s0: "freelist s0 {2..<100}" "FS_SIZE s0 = 409600" by (rule small_disk)
  define sb :: superblock where
    "sb = \<lparr>s_inodes_count = 18, s_first_ino = 3, s_freelist_head = 0, s_num_of_inodes_per_block = 18\<rparr>"
  define s where "s = (blank_disk 100)\<lparr>mem_ptr := Ptr zero_buf, altfs_superblock := Ptr sb\<rparr>"
  have "freelist s {}"
    by (rule freelistI [where sb = sb and bs = "[]"])
      (simp_all add: s_def sb_def mounted_def superblock_ok_def in_ssize_def)
  moreover have "data_block s 2" by (simp add: s_def data_block_def INODE_BLOCK_COUNT_def BLOCK_COUNT_def)
  moreover have "disk_block s 2 = zero_buf" by (simp add: s_def disk_block_def clip_def zero_buf_def)
  then have "addr_at (disk_block s 2) 1 = 0" by simp
  ultimately show ?thesis using freed_block_is_allocated_twice [of s 2] by blast
qed

section \<open>The inode table\<close>

text \<open>C11: \<open>write_inode\<close> followed by \<open>get_inode\<close> returns the inode that was written, whatever its
  fields are, and every other inode number gives what it gave before.\<close>

theorem get_after_write_inode:
  assumes "table_ready s" "inum_ok s k" "inode_ok nd" "inum_ok s j"
  shows "\<exists>t. write_inode k nd s = Some (True, t)
    \<and> get_inode j t = Some (Some (if j = k then nd else inode_of s j))
    \<and> get_inode j s = Some (Some (inode_of s j))"
  using assms by (auto simp: run table_ready_def mem_simps)

theorem get_after_write_inode_witness:
  "\<exists>s t. write_inode 17 (empty_inode\<lparr>i_mode := 33188, i_file_size := 5\<rparr>) s = Some (True, t)
    \<and> get_inode 17 t = Some (Some (empty_inode\<lparr>i_mode := 33188, i_file_size := 5\<rparr>))"
proof -
  obtain s where s: "inode_table_inv s" "FS_SIZE s = 409600" by (rule small_disk)
  then have "table_ready s" "inum_ok s 17"
    by (simp_all add: inode_table_inv_ready inum_ok_def INODE_BLOCK_COUNT_def BLOCK_COUNT_def)
  moreover have "inode_ok (empty_inode\<lparr>i_mode := 33188, i_file_size := 5\<rparr>)"
    using empty_inode_ok by (simp add: inode_ok_def in_ssize_def)
  ultimately show ?thesis
    using get_after_write_inode [of s 17 "empty_inode\<lparr>i_mode := 33188, i_file_size := 5\<rparr>" 17] by auto
qed

text \<open>C12: \<open>allocate_inode\<close> returns the least inode number from 3 on that is not allocated, marks it
  allocated with no links, changes no other inode, keeps \<open>s_first_ino\<close> at the least free number and
  writes the superblock.\<close>

theorem allocate_inode_takes_the_first:
  assumes "inode_table_inv s" "altfs_superblock s = Ptr sb" "first_free sb = Some k"
  shows "\<exists>t. allocate_inode s = Some (k, t) \<and> \<not> i_allocated (inode_of s k)
    \<and> (\<forall>j. 3 \<le> j \<and> j < k \<longrightarrow> i_allocated (inode_of s j))
    \<and> inode_of t k = (inode_of s k)\<lparr>i_allocated := True, i_links_count := 0\<rparr>
    \<and> (\<forall>j. 0 \<le> j \<and> j \<noteq> k \<longrightarrow> inode_of t j = inode_of s j)
    \<and> inode_table_inv t \<and> superblock_synced t"
proof -
  have "next_free s 3 (Some k)"
    using assms by (auto simp: inode_table_inv_def table_sb_def)
  then show ?thesis using allocate_inode_free [OF assms] by (auto simp: next_free_def)
qed

theorem allocate_inode_takes_the_first_witness:
  "\<exists>s t. allocate_inode s = Some (3, t) \<and> i_allocated (inode_of t 3) \<and> inode_table_inv t"
proof -
  obtain s where s: "inode_table_inv s" "altfs_superblock s = Ptr (initial_superblock (blank_disk 100))"
    by (rule small_disk)
  have "first_free (initial_superblock (blank_disk 100)) = Some 3"
    by (simp add: first_free_def initial_superblock_def INODE_BLOCK_COUNT_def)
  then obtain t where "allocate_inode s = Some (3, t)" "inode_table_inv t"
    "inode_of t 3 = (inode_of s 3)\<lparr>i_allocated := True, i_links_count := 0\<rparr>"
    using allocate_inode_takes_the_first [OF s] by blast
  then show ?thesis by (intro exI [of _ s] exI [of _ t]) simp
qed

section \<open>The blocks of a file\<close>

text \<open>C13: \<open>add_datablock_to_inode\<close> appends a block: it succeeds up to the largest size of a file
  where three blocks are free; the new last block is the given one, every earlier logical block is
  as before, the blocks taken from the free list are exactly the new indirect blocks, and the file
  stays well formed (no block occurs twice, none of them is free).\<close>

theorem add_datablock_appends:
  assumes "freelist s F" "3 \<le> card F" "file_ok s F nd" "i_blocks_num nd < MAX_FILE_BLOCKS"
    and "data_block s d" "d \<notin> F" "d \<notin> block_at s nd ` used (i_blocks_num nd)"
  shows "\<exists>nd' t G. add_datablock_to_inode nd d s = Some (True, nd', t)
    \<and> i_blocks_num nd' = i_blocks_num nd + 1 \<and> file_block t nd' (i_blocks_num nd) = d
    \<and> (\<forall>l. 0 \<le> l \<and> l < i_blocks_num nd \<longrightarrow> file_block t nd' l = file_block s nd l)
    \<and> file_ok t G nd' \<and> freelist t G \<and> G \<subseteq> F
    \<and> insert d (F - G) = block_at t nd' ` (used (i_blocks_num nd + 1) - used (i_blocks_num nd))"
proof -
  have "addable s F nd d" using assms(5-7) by (simp add: addable_def)
  then obtain nd' t G where *: "add_datablock_to_inode nd d s = Some (True, nd', t)" "block_added s F nd d t G nd'"
    using add_datablock_run [OF assms(1-4)] by blast
  have "pos_of l \<in> used (i_blocks_num nd)" if "0 \<le> l" "l < i_blocks_num nd" for l
    using pos_of_used [OF that] by auto
  then have "\<forall>l. 0 \<le> l \<and> l < i_blocks_num nd \<longrightarrow> file_block t nd' l = file_block s nd l"
    using *(2) by (simp add: block_added_def file_block_def)
  then show ?thesis using * by (auto simp: block_added_def)
qed

theorem add_datablock_appends_witness:
  "\<exists>s d nd' t. add_datablock_to_inode empty_inode d s = Some (True, nd', t)
    \<and> i_blocks_num nd' = 1 \<and> file_block t nd' 0 = d"
proof -
  obtain s where s: "freelist s {2..<100}" by (rule small_disk)
  note n = empty_inode_fields(1)
  obtain d t where t: "freelist t ({2..<100} - {d})" "file_ok t ({2..<100} - {d}) empty_inode"
    "addable t ({2..<100} - {d}) empty_inode d" "d \<in> {2..<100}"
    using file_ok_allocate [OF s _ file_ok_empty] by auto
  have c: "3 \<le> card ({2..<100} - {d})" using t(4) by (simp add: card_Diff_singleton)
  show ?thesis
    using add_datablock_appends [OF t(1) c t(2), of d] t(3) n
    by (fastforce simp: addable_def MAX_FILE_BLOCKS_def)
qed

text \<open>C14: a file of the largest size, or one whose size field is beyond it, is not extended:
  \<open>add_datablock_to_inode\<close> returns false and changes neither the inode nor the disk.\<close>

theorem add_datablock_refuses_full_file:
  assumes "MAX_FILE_BLOCKS \<le> i_blocks_num nd"
  shows "add_datablock_to_inode nd d s = Some (False, nd, s)"
  using assms by (simp add: add_datablock_to_inode_def MAX_FILE_BLOCKS_def)

theorem add_datablock_refuses_full_file_witness:
  "add_datablock_to_inode (empty_inode\<lparr>i_blocks_num := 134480396\<rparr>) 5 (blank_disk 100)
    = Some (False, empty_inode\<lparr>i_blocks_num := 134480396\<rparr>, blank_disk 100)"
  by (rule add_datablock_refuses_full_file) (simp add: MAX_FILE_BLOCKS_def)

text \<open>C15: \<open>get_disk_block_from_inode_block\<close> agrees with the walk over the tree of the file for every
  logical block, and a caller that reads the blocks in order and passes \<open>*prev_indirect_block\<close> on
  gets the same answers as one that never does: what it returns is again right for the next
  block.\<close>

theorem lookup_is_the_tree_walk:
  assumes "mounted s" "file_ok s F nd" "0 \<le> l" "l < i_blocks_num nd" "prev_ok s nd l prev"
    and "l < 524 \<longrightarrow> prev = 0"
  shows "\<exists>prev'. get_disk_block_from_inode_block nd l prev s = Some (file_block s nd l, prev')
    \<and> (l + 1 < i_blocks_num nd \<longrightarrow> prev_ok s nd (l + 1) prev' \<and> (l + 1 < 524 \<longrightarrow> prev' = 0))"
proof -
  note max = file_ok_max [OF assms(2)]
  have "prev_ok s nd (l + 1) (next_prev s nd l prev)" if "l + 1 < i_blocks_num nd"
    by (rule prev_ok_next) (use assms max that in auto)
  moreover have "next_prev s nd l prev = 0" if "l + 1 < 524"
    using that assms(6) by (simp add: next_prev_def)
  ultimately show ?thesis using lookup_run [OF assms(1,2) max assms(3-5)] by blast
qed

theorem lookup_is_the_tree_walk_witness:
  "\<exists>s F nd prev. file_ok s F nd \<and> i_blocks_num nd = 1200
    \<and> get_disk_block_from_inode_block nd 1100 0 s = Some (file_block s nd 1100, prev)"
proof -
  obtain s F nd where f: "freelist s F" "file_ok s F nd" "i_blocks_num nd = 1200"
    using sample_file [of 10000 1200] by (auto simp: MAX_FILE_BLOCKS_def)
  have "prev_ok s nd 1100 0" by (simp add: prev_ok_def)
  then show ?thesis using lookup_is_the_tree_walk [OF freelist_mounted [OF f(1)] f(2), of 1100 0] f by auto
qed

text \<open>C16: a file grows to any number of blocks up to the largest size, block by block, as long as
  the disk has four free blocks for each block to come, and keeps the blocks it had.\<close>

theorem file_grows:
  assumes "freelist s F" "file_ok s F nd" "i_blocks_num nd + int k \<le> MAX_FILE_BLOCKS" "4 * k \<le> card F"
  shows "\<exists>nd' t G. grow_file k nd s = Some (nd', t) \<and> freelist t G \<and> file_ok t G nd'
    \<and> i_blocks_num nd' = i_blocks_num nd + int k
    \<and> (\<forall>l. 0 \<le> l \<and> l < i_blocks_num nd \<longrightarrow> file_block t nd' l = file_block s nd l)"
  using grow_file_run [OF assms] by blast

theorem file_grows_witness:
  "\<exists>s nd t G. grow_file 20 empty_inode s = Some (nd, t) \<and> file_ok t G nd \<and> i_blocks_num nd = 20"
proof -
  obtain s where s: "freelist s {2..<100}" by (rule small_disk)
  note n = empty_inode_fields(1)
  show ?thesis using file_grows [OF s file_ok_empty, of 20] n by (auto simp: MAX_FILE_BLOCKS_def)
qed

text \<open>C17: \<open>overwrite_datablock_to_inode\<close> without a cached indirect block replaces exactly the given
  logical block.\<close>

theorem overwrite_replaces_one_block:
  assumes "freelist s F" "file_ok s F nd" "0 \<le> l" "l < i_blocks_num nd"
    and "data_block s d" "d \<notin> F" "d \<notin> block_at s nd ` used (i_blocks_num nd)"
  shows "\<exists>nd' prev t. overwrite_datablock_to_inode nd l d 0 s = Some (True, nd', prev, t)
    \<and> file_block t nd' l = d \<and> i_blocks_num nd' = i_blocks_num nd \<and> file_ok t F nd' \<and> freelist t F
    \<and> (\<forall>k. 0 \<le> k \<and> k < i_blocks_num nd \<and> k \<noteq> l \<longrightarrow> file_block t nd' k = file_block s nd k)"
  using overwrite_run [OF assms(1-4), of d] assms(5-7) by (auto simp: addable_def block_replaced_def)

theorem overwrite_replaces_one_block_witness:
  "\<exists>s nd nd' d prev t. i_blocks_num nd = 1200 \<and> overwrite_datablock_to_inode nd 700 d 0 s = Some (True, nd', prev, t)
    \<and> file_block t nd' 700 = d"
proof -
  obtain s F nd where f: "freelist s F" "4 \<le> card F" "file_ok s F nd" "i_blocks_num nd = 1200"
    using sample_file [of 10000 1200] by (auto simp: MAX_FILE_BLOCKS_def)
  then have "F \<noteq> {}" by auto
  then obtain d t where t: "freelist t (F - {d})" "file_ok t (F - {d}) nd" "addable t (F - {d}) nd d"
    using file_ok_allocate [OF f(1) _ f(3)] by blast
  show ?thesis
    using overwrite_replaces_one_block [OF t(1,2), of 700 d] t(3) f(4) unfolding addable_def by fastforce
qed

text \<open>C18: in the double and in the triple indirect area, when the caller hands over the cached indirect
  block that holds the address of block \<open>l\<close>, and \<open>l\<close> is not the first block below that indirect
  block (for the first one the code does not use the cached block), \<open>overwrite_datablock_to_inode\<close>
  reports success but leaves the file as it was: the changed indirect block is written to the new
  data block \<open>d\<close>, whose contents are lost.\<close>

theorem cached_overwrite_destroys_the_data:
  assumes "mounted s" "file_ok s F nd" "524 \<le> l" "l < i_blocks_num nd" "(l - 524) mod 512 \<noteq> 0"
    and "data_block s d" "d \<notin> F" "d \<notin> block_at s nd ` used (i_blocks_num nd)"
  shows "\<exists>prev t. overwrite_datablock_to_inode nd l d (block_at s nd (tl (pos_of l))) s = Some (True, nd, prev, t)
    \<and> file_block t nd l = file_block s nd l \<and> file_block t nd l \<noteq> d
    \<and> disk_block t d = set_addr (disk_block s (block_at s nd (tl (pos_of l)))) ((l - 524) mod 512) d"
proof -
  have d: "addable s F nd d" using assms(6-8) by (simp add: addable_def)
  have "pos_of l \<in> used (i_blocks_num nd)" using pos_of_used [of l "i_blocks_num nd"] assms(3,4) by auto
  then have "file_block s nd l \<noteq> d" using assms(8) by (auto simp: file_block_def)
  then show ?thesis using overwrite_cached_run [OF assms(1-5) d] by auto
qed

theorem cached_overwrite_destroys_the_data_witness:
  "\<exists>s nd d prev prev' t. i_blocks_num nd = 1200
    \<and> overwrite_datablock_to_inode nd 700 d prev s = Some (True, nd, prev', t) \<and> file_block t nd 700 \<noteq> d"
proof -
  obtain s F nd where f: "freelist s F" "4 \<le> card F" "file_ok s F nd" "i_blocks_num nd = 1200"
    using sample_file [of 10000 1200] by (auto simp: MAX_FILE_BLOCKS_def)
  then have "F \<noteq> {}" by auto
  then obtain d t where t: "freelist t (F - {d})" "file_ok t (F - {d}) nd" "addable t (F - {d}) nd d"
    using file_ok_allocate [OF f(1) _ f(3)] by blast
  show ?thesis
    using cached_overwrite_destroys_the_data [OF freelist_mounted [OF t(1)] t(2), of 700 d] t(3) f(4)
    unfolding addable_def by fastforce
qed

text \<open>C19: while at least one block is free, \<open>remove_datablocks_from_inode\<close>, cutting a well-formed
  file of any size off at \<open>l\<close> blocks, \<open>l \<le> 12\<close> (the cut leaves direct blocks only), frees exactly
  the data and indirect blocks behind the cut; the file keeps the blocks before it and is well formed
  again. With no free block the statement is false: the first block that is freed enters itself in
  its own list (C10).\<close>

theorem truncation_frees_the_rest:
  assumes "freelist s F" "F \<noteq> {}" "file_ok s F nd" "0 \<le> l" "l \<le> 12" "l < i_blocks_num nd"
  shows "\<exists>nd' t. remove_datablocks_from_inode nd l s = Some (True, nd', t)
    \<and> freelist t (F \<union> block_at s nd ` (used (i_blocks_num nd) - used l))
    \<and> file_ok t (F \<union> block_at s nd ` (used (i_blocks_num nd) - used l)) nd'
    \<and> i_blocks_num nd' = l \<and> (\<forall>k. 0 \<le> k \<and> k < l \<longrightarrow> file_block t nd' k = file_block s nd k)"
proof -
  have "pos_of k \<in> used l" if "0 \<le> k" "k < l" for k using pos_of_used [OF that] by auto
  then show ?thesis using remove_within_direct [OF assms] by (auto simp: file_block_def)
qed

theorem truncation_frees_the_rest_witness:
  "\<exists>s F nd nd' t. i_blocks_num nd = 1200 \<and> remove_datablocks_from_inode nd 0 s = Some (True, nd', t)
    \<and> i_blocks_num nd' = 0 \<and> freelist t (F \<union> block_at s nd ` used 1200)"
proof -
  obtain s F nd where f: "freelist s F" "4 \<le> card F" "file_ok s F nd" "i_blocks_num nd = 1200"
    using sample_file [of 10000 1200] by (auto simp: MAX_FILE_BLOCKS_def)
  then have "F \<noteq> {}" by auto
  then show ?thesis using truncation_frees_the_rest [OF f(1) _ f(3), of 0] f(4) by auto
qed

text \<open>C20: a cut exactly at the first block of the triple indirect area (a file of at most 262144
  blocks more) reports success and shortens the file, but frees nothing: the triple indirect tree
  stays in the inode.\<close>

theorem cut_at_triple_area_frees_nothing:
  assumes "mounted s" "file_ok s F nd" "262668 < i_blocks_num nd" "i_blocks_num nd \<le> 262668 + 262144"
  shows "remove_datablocks_from_inode nd 262668 s = Some (True, nd\<lparr>i_blocks_num := 262668\<rparr>, s)"
  using cut_at_triple_start [OF assms] by (simp add: cut_at_def)

theorem cut_at_triple_area_frees_nothing_witness:
  "\<exists>s nd. i_blocks_num nd = 262700
    \<and> remove_datablocks_from_inode nd 262668 s = Some (True, nd\<lparr>i_blocks_num := 262668\<rparr>, s)"
proof -
  obtain s F nd where f: "freelist s F" "file_ok s F nd" "i_blocks_num nd = 262700"
    using sample_file [of 2097152 262700] by (auto simp: MAX_FILE_BLOCKS_def)
  then show ?thesis
    using cut_at_triple_area_frees_nothing [OF freelist_mounted [OF f(1)] f(2)] by auto
qed

text \<open>C21: while at least one block is free, \<open>free_inode\<close> of a file with an inode number from 3 on
  (0, 1 and 2 are reserved) gives back exactly the blocks of the file, data and indirect blocks, each
  once; the inode is as blank as a new one, its padding byte apart, and every other inode is
  unchanged. With no free block the free list is damaged instead (C10).\<close>

theorem free_inode_gives_back_the_file:
  assumes "inode_table_inv s" "freelist s F" "F \<noteq> {}" "3 \<le> k" "inum_ok s k" "file_ok s F (inode_of s k)"
  shows "\<exists>t. free_inode k s = Some (True, t)
    \<and> freelist t (F \<union> block_at s (inode_of s k) ` used (i_blocks_num (inode_of s k)))
    \<and> inode_of t k = empty_inode\<lparr>i_padding := i_padding (inode_of s k)\<rparr>
    \<and> (\<forall>j. inum_ok s j \<and> j \<noteq> k \<longrightarrow> inode_of t j = inode_of s j)
    \<and> inode_table_inv t \<and> superblock_synced t"
  using free_inode_releases [OF assms(1-5) file_ok_releasable(1) [OF assms(2,6)]]
    file_ok_releasable(2) [OF assms(2,6)] by (auto simp: cleared_empty)

theorem free_inode_gives_back_the_file_witness:
  "\<exists>s F t. i_blocks_num (inode_of s 3) = 20 \<and> free_inode 3 s = Some (True, t)
    \<and> freelist t (F \<union> block_at s (inode_of s 3) ` used 20) \<and> i_blocks_num (inode_of t 3) = 0"
proof -
  obtain st F ents where st: "fs_ready st F ents" "13 \<le> card F" "inum_ok (fs_disk st) 3"
    "i_blocks_num (inode_of (fs_disk st) 3) = 20" by (rule system_with_data)
  note iv = fs_invD [OF fs_readyD(1) [OF st(1)]]
  have "F \<noteq> {}" using st(2) by auto
  from free_inode_gives_back_the_file [OF iv(1,2) this _ st(3) iv(5) [OF st(3)]] obtain t where
    t: "free_inode 3 (fs_disk st) = Some (True, t)"
    "freelist t (F \<union> block_at (fs_disk st) (inode_of (fs_disk st) 3) ` used 20)"
    "inode_of t 3 = empty_inode\<lparr>i_padding := i_padding (inode_of (fs_disk st) 3)\<rparr>"
    unfolding st(4) by (auto simp del: block_at.simps)
  have "i_blocks_num (inode_of t 3) = 0" unfolding t(3) by (simp add: empty_inode_def)
  then show ?thesis using t(1,2) st(4) by blast
qed

section \<open>The inode cache\<close>

text \<open>C22: on a new cache of capacity \<open>n\<close>, any sequence of lookups and settings with at most \<open>n\<close>
  settings runs without following a NULL or dangling pointer and without leaving the array, every
  loop ends, and every lookup answers \<open>-1\<close> or a value that an earlier setting gave this key.\<close>

theorem cache_answers_what_was_set:
  assumes "0 < n" "n < 2 ^ 63" "\<forall>op \<in> set ops. op_ok op" "int (length (filter is_set ops)) \<le> n"
  shows "\<exists>rs c. run_ops ops (Some (create_inode_cache n)) = Some (rs, c) \<and> length rs = length ops
    \<and> (\<forall>i k. i < length ops \<and> ops ! i = Get k \<longrightarrow> rs ! i = -1 \<or> Set k (rs ! i) \<in> set (take i ops))"
proof -
  have "cache_ok (Some (create_inode_cache n))" using create_inv assms(1,2) by (simp add: cache_ok_def)
  moreover have "cache_room (Some (create_inode_cache n)) = n" "cache_content (Some (create_inode_cache n)) = {}"
    by (simp_all add: cache_room_def cache_content_def) (simp add: create_inode_cache_def)
  ultimately show ?thesis using run_ops_sound [of _ ops] assms(3,4) by fastforce
qed

theorem cache_answers_what_was_set_witness:
  "\<exists>rs c. run_ops [Set [47, 97] 5, Get [47, 97]] (Some (create_inode_cache 100)) = Some (rs, c)
    \<and> (rs ! 1 = -1 \<or> rs ! 1 = 5)"
  using cache_answers_what_was_set [of 100 "[Set [47, 97] 5, Get [47, 97]]"]
  by (fastforce simp: op_ok_def is_set_def)

text \<open>C23: the list of the entries is kept in the order of their last use: a lookup that finds an
  entry returns its value and moves it to the front of the doubly linked list, every other entry
  keeps its place and its value; a lookup that finds none changes nothing.\<close>

theorem get_moves_to_front:
  assumes "cache_list c xs" "slots_ok c xs" "key \<noteq> []"
  shows "case find (has_key c key) (from_slot (slot_of c key) xs) of
      None \<Rightarrow> get_cache_entry (Some c) (Some key) = Some (-1, Some c)
    | Some a \<Rightarrow> \<exists>e c'. heap c a = Some e \<and> entry_key e = key
        \<and> get_cache_entry (Some c) (Some key) = Some (entry_value e, Some c')
        \<and> cache_list c' (a # remove1 a xs) \<and> same_entries c c'"
  using assms by (rule get_entry_run)

theorem get_moves_to_front_witness:
  "get_cache_entry (Some (create_inode_cache 100)) (Some [47]) = Some (-1, Some (create_inode_cache 100))"
proof -
  have "cache_list (create_inode_cache 100) []" "slots_ok (create_inode_cache 100) []"
    by (auto simp: cache_list_def slots_ok_def create_inode_cache_def)
  from get_moves_to_front [OF this, of "[47]"] show ?thesis
    by (simp add: from_slot_def split: option.splits)
qed

text \<open>C24: in every cache in which a path is found at an entry that is not the one its slot points to
  (another path of the same hash was entered later), and is held by this entry only, the entry comes
  back after its removal. A lookup answers its value \<open>v\<close> and moves it to the front, in front of the
  entry of the slot; the next lookup misses, so the path is entered a second time; the removal takes
  out only the new entry; and once any other path of the same hash is entered, the lookup of the
  removed path answers \<open>v\<close> again. The cache has room for the two new entries.\<close>

theorem removed_entry_comes_back:
  assumes "cache_list c xs" "slots_ok c xs" "key \<noteq> []"
    and "find (has_key c key) (from_slot (slot_of c key) xs) = Some a"
    and "slot_of c key \<noteq> Some a" "\<forall>x \<in> set xs. has_key c key x \<longrightarrow> x = a"
    and "r \<noteq> []" "r \<noteq> key" "hash_index c r = hash_index c key" "csize c + 2 \<le> capacity c"
  shows "\<exists>v c'. map_option entry_pair (heap c a) = Some (key, v) \<and>
    run_ops [Get key, Get key, Set key w, Remove key, Get key, Set r u, Get key] (Some c)
      = Some ([v, -1, 0, 1, -1, 0, v], c')"
  using assms(6) by (intro moved_entry_survives [OF assms(1-5) _ assms(7-10)]) blast

theorem removed_entry_comes_back_witness:
  "\<exists>c c'. run_ops [Set [47, 97] 5, Set [47, 98] 6] (Some (create_inode_cache 100)) = Some ([0, 0], Some c)
    \<and> run_ops [Get [47, 97], Get [47, 97], Set [47, 97] 5, Remove [47, 97], Get [47, 97], Set [47, 99] 7, Get [47, 97]]
         (Some c) = Some ([5, -1, 0, 1, -1, 0, 5], c')"
proof -
  obtain c a b where c: "run_ops [Set [47, 97] 5, Set [47, 98] 6] (Some (create_inode_cache 100)) = Some ([0, 0], Some c)"
    "cache_list c [b, a]" "slots_ok c [b, a]" "a \<noteq> b" "slot_of c [47, 98] = Some b" "csize c = 2" "capacity c = 100"
    "map_option entry_pair (heap c a) = Some ([47, 97], 5)" "map_option entry_pair (heap c b) = Some ([47, 98], 6)"
    by (rule two_entries [of 100 "[47, 97]" "[47, 98]" 5 6]) simp_all
  have h: "hash_index c [47, 97] = hash_index (create_inode_cache 100) [47, 97]"
    "hash_index c [47, 98] = hash_index (create_inode_cache 100) [47, 98]"
    "hash_index c [47, 99] = hash_index (create_inode_cache 100) [47, 99]"
    by (rule hash_index_cong, simp add: c(7) create_inode_cache_def)+
  have eq: "hash_index c [47, 98] = hash_index c [47, 97]" "hash_index c [47, 99] = hash_index c [47, 97]"
    unfolding h by code_simp+
  have s: "slot_of c [47, 97] = Some b" using c(5) eq(1) by (simp add: slot_of_def)
  have k: "has_key c [47, 97] a" "\<not> has_key c [47, 97] b" using c(8,9) by (simp_all add: has_key_value)
  have "find (has_key c [47, 97]) (from_slot (slot_of c [47, 97]) [b, a]) = Some a"
    using k by (simp add: s from_slot_def)
  from removed_entry_comes_back [OF c(2,3) _ this, of "[47, 99]" 5 7] show ?thesis
    using c(1,4,6-8) s k eq(2) by auto
qed

text \<open>C25: removing the only entry of a cache leaves \<open>tail\<close> pointing to the freed entry.\<close>

theorem removing_the_only_entry_dangles:
  assumes "cache_list c [a]" "slots_ok c [a]" "slot_of c key = Some a" "has_key c key a"
  shows "\<exists>c'. remove_cache_entry (Some c) (Some key) = Some (True, Some c')
    \<and> cache_head c' = None \<and> cache_tail c' = Some a \<and> heap c' a = None"
  using assms by (rule remove_only_entry)

theorem removing_the_only_entry_dangles_witness:
  "\<exists>c c'. set_cache_entry (Some (create_inode_cache 100)) (Some [47, 97]) 5 = Some (Some c)
    \<and> remove_cache_entry (Some c) (Some [47, 97]) = Some (True, Some c')
    \<and> cache_head c' = None \<and> (\<exists>a. cache_tail c' = Some a \<and> heap c' a = None)"
proof -
  let ?c = "create_inode_cache 100"
  have c: "cache_list ?c []" "slots_ok ?c []" "csize ?c < capacity ?c"
    by (auto simp: cache_list_def slots_ok_def create_inode_cache_def)
  have nil: "from_slot p [] = []" for p by (cases p) (simp_all add: from_slot_def)
  obtain c where c1: "set_cache_entry (Some ?c) (Some [47, 97]) 5 = Some (Some c)" "cache_list c [fresh ?c]"
    "slots_ok c [fresh ?c]" "slot_of c [47, 97] = Some (fresh ?c)"
    "map_option entry_pair (heap c (fresh ?c)) = Some ([47, 97], 5)"
    using set_entry_miss [OF c(1,2) _ c(3), of "[47, 97]" 5] unfolding nil
    by (metis find.simps(1) list.discI)
  then have "has_key c [47, 97] (fresh ?c)" by (auto simp: has_key_def entry_pair_def)
  from removing_the_only_entry_dangles [OF c1(2-4) this] show ?thesis using c1(1) by blast
qed

text \<open>C26: evicting the least recently used entry frees it but leaves its slot as it is. In every full
  cache whose last entry is the one its slot points to, entering a path of another hash that the
  cache does not hold frees the last entry and keeps its address in the slot, and the next lookup of
  the evicted path reads the freed entry, which the model answers with \<open>None\<close>.\<close>

theorem lookup_after_eviction_reads_freed_memory:
  assumes "cache_list c (xs @ [a])" "slots_ok c (xs @ [a])" "key \<noteq> []" "capacity c \<le> csize c"
    and "find (has_key c key) (from_slot (slot_of c key) (xs @ [a])) = None"
    and "map_option entry_pair (heap c a) = Some (old, v)" "old \<noteq> []" "slot_of c old = Some a"
      "hash_index c old \<noteq> hash_index c key"
  shows "\<exists>c'. set_cache_entry (Some c) (Some key) w = Some (Some c')
    \<and> slot_of c' old = Some a \<and> heap c' a = None \<and> get_cache_entry (Some c') (Some old) = None"
  using evicted_entry_dangles [OF assms] by blast

theorem lookup_after_eviction_reads_freed_memory_witness:
  "\<exists>c c'. run_ops [Set [47, 65] 4, Set [47, 66] 5] (Some (create_inode_cache 2)) = Some ([0, 0], Some c)
     \<and> set_cache_entry (Some c) (Some [47, 98]) 6 = Some (Some c')
     \<and> (\<exists>a. slot_of c' [47, 65] = Some a \<and> heap c' a = None) \<and> get_cache_entry (Some c') (Some [47, 65]) = None"
proof -
  obtain c a b where c: "run_ops [Set [47, 65] 4, Set [47, 66] 5] (Some (create_inode_cache 2)) = Some ([0, 0], Some c)"
    "cache_list c [b, a]" "slots_ok c [b, a]" "a \<noteq> b" "slot_of c [47, 66] = Some b" "csize c = 2" "capacity c = 2"
    "map_option entry_pair (heap c a) = Some ([47, 65], 4)" "map_option entry_pair (heap c b) = Some ([47, 66], 5)"
    "hash_index (create_inode_cache 2) [47, 65] \<noteq> hash_index (create_inode_cache 2) [47, 66] \<longrightarrow> slot_of c [47, 65] = Some a"
    by (rule two_entries [of 2 "[47, 65]" "[47, 66]" 4 5]) simp_all
  have h: "hash_index c [47, 65] = hash_index (create_inode_cache 2) [47, 65]"
    "hash_index c [47, 66] = hash_index (create_inode_cache 2) [47, 66]"
    "hash_index c [47, 98] = hash_index (create_inode_cache 2) [47, 98]"
    by (rule hash_index_cong, simp add: c(7) create_inode_cache_def)+
  have ne: "hash_index (create_inode_cache 2) [47, 65] \<noteq> hash_index (create_inode_cache 2) [47, 66]"
    "hash_index c [47, 65] \<noteq> hash_index c [47, 98]" "hash_index c [47, 66] = hash_index c [47, 98]"
    unfolding h by code_simp+
  have s: "slot_of c [47, 98] = Some b" using c(5) ne(3) by (simp add: slot_of_def)
  have k: "\<not> has_key c [47, 98] a" "\<not> has_key c [47, 98] b" using c(8,9) by (simp_all add: has_key_value)
  have "find (has_key c [47, 98]) (from_slot (slot_of c [47, 98]) ([b] @ [a])) = None"
    using k by (simp add: s from_slot_def)
  from lookup_after_eviction_reads_freed_memory [OF _ _ _ _ this c(8), of 6] show ?thesis
    using c ne by auto
qed

section \<open>Paths and directories\<close>

text \<open>C27: a path is taken apart at its last slash. For every non-empty name without a slash,
  \<open>copy_parent_path\<close> and \<open>copy_file_name\<close> of \<open>xs/name\<close> and of \<open>xs/name/\<close> give back \<open>xs\<close> (the root,
  where \<open>xs\<close> is empty) and \<open>name\<close>.\<close>

theorem path_is_taken_apart:
  assumes "is_name n" "tail = [] \<or> tail = [slash]"
  shows "copy_parent_path (xs @ slash # n @ tail) = Some (if xs = [] then [slash] else xs)
    \<and> copy_file_name (xs @ slash # n @ tail) = Some n"
  using copy_parent_run [OF assms] copy_name_run [OF assms] by blast

theorem path_is_taken_apart_witness:
  "copy_parent_path [47, 97, 47, 98, 47] = Some [47, 97] \<and> copy_file_name [47, 97, 47, 98, 47] = Some [98]"
proof -
  have "is_name [98]" by (simp add: is_name_def is_cstr_def)
  from path_is_taken_apart [OF this, of "[47]" "[47, 97]"] show ?thesis by simp
qed

text \<open>C28: in a running file system (\<open>fs_ready\<close>: the invariant of the disk holds and the cached paths
  agree with the directories), while the cache has room for as many entries as the path has bytes (so
  that nothing is evicted), \<open>name_i\<close> of a path of names answers what the walk over the directories
  from the root finds, \<open>-1\<close> where a name is missing; whatever the cache holds, the answer is the same.
  Only the cache changes, and the file system is still running.\<close>

theorem lookup_is_the_directory_walk:
  assumes "fs_ready st F ents" "\<forall>n \<in> set ns. is_name n" "int (length (path_of ns)) \<le> room st"
  shows "\<exists>c. name_i (path_of ns) st =
      Some (case walk_down (dir_lookup (fs_disk st) ents) ROOT_INODE_NUM ns of None \<Rightarrow> -1 | Some v \<Rightarrow> v,
            st\<lparr>inodeCache := c\<rparr>)
    \<and> fs_ready (st\<lparr>inodeCache := c\<rparr>) F ents \<and> room st - int (length (path_of ns)) \<le> cache_room c"
proof -
  note iv = fs_invD [OF fs_readyD(1) [OF assms(1)]]
  have "v \<noteq> -1" if "walk_down (dir_lookup (fs_disk st) ents) ROOT_INODE_NUM ns = Some v" for ns v
    using walk_down_valid [OF iv(12) _ that] iv(4) by (auto simp: inum_ok_def)
  then have "resolved st ents (path_of ns) =
      (case walk_down (dir_lookup (fs_disk st) ents) ROOT_INODE_NUM ns of None \<Rightarrow> -1 | Some v \<Rightarrow> v)"
    by (intro resolve_path_of [OF assms(2)])
  then show ?thesis using name_i_ready [OF assms(1,3)] by metis
qed

theorem lookup_is_the_directory_walk_witness:
  "\<exists>st st'. name_i [47, 46, 46, 47, 46] st = Some (2, st')"
proof -
  obtain st F where st: "fs_ready st F ((\<lambda>_. [])(2 := dot_records 2 2))" "room st = 100000"
    "creatable st F ((\<lambda>_. [])(2 := dot_records 2 2)) [47, 97] 2 [97] 3" by (rule running_creatable)
  have "S_ISDIR (i_mode (inode_of (fs_disk st) 2))" using st(3) by (simp add: creatable_def can_add_def)
  then have w: "walk_down (dir_lookup (fs_disk st) ((\<lambda>_. [])(2 := dot_records 2 2))) ROOT_INODE_NUM [[46, 46], [46]] = Some 2"
    by (simp add: dir_lookup_def dot_records_def)
  have p: "path_of [[46, 46], [46]] = [47, 46, 46, 47, 46]" "\<forall>n \<in> set [[46, 46], [46]]. is_name n"
    by (simp_all add: path_of_def is_name_def is_cstr_def)
  show ?thesis
    using lookup_is_the_directory_walk [OF st(1) p(2)] st(2) unfolding w p(1) by auto
qed

text \<open>C29: on every block, however damaged, the loops of \<open>add_directory_entry\<close> and
  \<open>get_file_position_in_dir\<close> over the records of a block end within 4097 rounds: the versions that
  give up after so many rounds answer the same, for every name and every length of a name.\<close>

theorem record_scans_end:
  "find_space_upto 4097 b n 0 = Some (find_space b n 0) \<and> find_record_upto 4097 b name 0 = Some (find_record b name 0)"
  using find_space_bounded [of 0 4097 b n] find_record_bounded [of 0 4097 b name] by simp

text \<open>C30: in a running file system with room in the cache, \<open>altfs_getattr\<close> answers \<open>- ENOENT\<close> exactly
  where the path leads nowhere, and otherwise 0 with the attributes of an inode whose number lies in
  the inode table and whose fields are in their C ranges; nothing but the cache changes.\<close>

theorem getattr_gives_valid_attributes:
  assumes "fs_ready st F ents" "int (length p) \<le> room st" "v = resolved st ents p"
  shows "\<exists>c. fs_ready (st\<lparr>inodeCache := c\<rparr>) F ents
    \<and> altfs_getattr p st = Some (if v = -1 then (- ENOENT, zero_stat, st\<lparr>inodeCache := c\<rparr>)
        else (0, (inode_to_stat (inode_of (fs_disk st) v) zero_stat)\<lparr>st_ino := v\<rparr>, st\<lparr>inodeCache := c\<rparr>))
    \<and> (v = -1 \<or> inum_ok (fs_disk st) v \<and> inode_ok (inode_of (fs_disk st) v))"
  using getattr_run [OF assms(1,2)] resolved_inum [OF assms(1), of p] inode_ok_inode_of unfolding assms(3) by blast

theorem getattr_gives_valid_attributes_witness:
  "\<exists>st st' a. altfs_getattr [47, 97] st = Some (0, a, st') \<and> st_ino a = 3 \<and> st_size a = 81920 \<and> st_mode a = 33188"
proof -
  obtain st F ents where st: "fs_ready st F ents" "99990 \<le> room st" "resolved st ents [47, 97] = 3"
    "i_file_size (inode_of (fs_disk st) 3) = 81920" "i_mode (inode_of (fs_disk st) 3) = 33188" by (rule system_with_data)
  let ?a = "(inode_to_stat (inode_of (fs_disk st) 3) zero_stat)\<lparr>st_ino := 3\<rparr>"
  obtain st' where "altfs_getattr [47, 97] st = Some (0, ?a, st')"
    using getattr_gives_valid_attributes [OF st(1) _ refl, of "[47, 97]"] st(2,3) by auto
  moreover have "st_ino ?a = 3 \<and> st_size ?a = 81920 \<and> st_mode ?a = 33188"
    using st(4,5) by (simp add: inode_to_stat_def)
  ultimately show ?thesis by blast
qed

text \<open>C31: adding an entry to a directory whose blocks hold the records \<open>rss\<close>, where a block has room
  for the record, or at least four blocks are free and the directory can still grow: it succeeds, the
  directory holds the old records and the new one, \<open>i_child_num\<close> counts it, and the size grows by a
  block exactly where the directory does. A name that was missing is found afterwards with its inode
  number, and all other names as before.\<close>

theorem add_directory_entry_adds_a_record:
  assumes "freelist s F" "dir_ok s F nd rss" "dirent_ok (name, v)"
    and "(\<exists>rs \<in> set rss. has_room rs (name, v)) \<or> 4 \<le> card F \<and> i_blocks_num nd < MAX_FILE_BLOCKS"
  shows "\<exists>nd' t G rss'. add_directory_entry nd v name s = Some (True, nd', t) \<and> freelist t G \<and> G \<subseteq> F
    \<and> dir_ok t G nd' rss' \<and> mset (concat rss') = add_mset (name, v) (mset (concat rss))
    \<and> (map_of (concat rss) name = None \<longrightarrow> map_of (concat rss') = (map_of (concat rss))(name \<mapsto> v))
    \<and> i_child_num nd' = (i_child_num nd + 1) mod 2 ^ 64
    \<and> i_file_size nd' = i_file_size nd + 4096 * (i_blocks_num nd' - i_blocks_num nd)"
proof -
  obtain nd' t G rss' where a: "add_directory_entry nd v name s = Some (True, nd', t)"
    "dir_grown s F nd rss (name, v) t G nd' rss'" using add_directory_entry_run [OF assms] by blast
  then have g: "freelist t G" "G \<subseteq> F" "dir_ok t G nd' rss'" "entry_added rss (name, v) rss'"
    "i_child_num nd' = (i_child_num nd + 1) mod 2 ^ 64"
    "i_file_size nd' = i_file_size nd + 4096 * (i_blocks_num nd' - i_blocks_num nd)"
    unfolding dir_grown_def by blast+
  show ?thesis
    using a(1) g(1-3,5,6) entry_added_mset [OF g(4)] entry_added_lookup [OF g(4)]
    by (intro exI [of _ nd'] exI [of _ t] exI [of _ G] exI [of _ rss']) simp
qed

theorem add_directory_entry_adds_a_record_witness:
  "\<exists>s nd nd' t. add_directory_entry nd 3 [97] s = Some (True, nd', t) \<and> i_child_num nd' = (i_child_num nd + 1) mod 2 ^ 64"
proof -
  obtain st F where st: "fs_ready st F ((\<lambda>_. [])(2 := dot_records 2 2))" "97 \<le> card F"
    "creatable st F ((\<lambda>_. [])(2 := dot_records 2 2)) [47, 97] 2 [97] 3" by (rule running_creatable)
  have d: "inum_ok (fs_disk st) 2" "S_ISDIR (i_mode (inode_of (fs_disk st) 2))"
    using st(3) by (simp_all add: creatable_def can_add_def)
  note iv = fs_invD [OF fs_readyD(1) [OF st(1)]]
  have k: "dir_ok (fs_disk st) F (inode_of (fs_disk st) 2) (dot_records 2 2)" using iv(8) [OF d] by simp
  have r: "dirent_ok ([97], 3)" "(\<exists>rs \<in> set (dot_records 2 2). has_room rs ([97], 3))"
    by (simp_all add: dirent_ok_def is_cstr_def in_ssize_def dot_records_def has_room_def rec_size_def)
  from add_directory_entry_adds_a_record [OF iv(2) k r(1)] r(2) show ?thesis by blast
qed

text \<open>C32: \<open>remove_directory_entry\<close> of a name that the directory has takes out the first record of this
  name and no other; the records behind it in the block move up, no block is given back, and
  \<open>i_child_num\<close> is one less.\<close>

theorem remove_directory_entry_takes_one_record:
  assumes "freelist s F" "dir_ok s F nd rss" "map_of (concat rss) name = Some v"
  shows "\<exists>nd' t rss'. remove_directory_entry now nd name s = Some (True, nd', t) \<and> freelist t F
    \<and> dir_ok t F nd' rss' \<and> concat rss' = del_first name (concat rss)
    \<and> nd' = child_less (nd\<lparr>i_ctime := now, i_mtime := now\<rparr>)"
proof -
  obtain fp l where fp: "get_file_position_in_dir name nd s = Some fp" and at: "found_at s nd rss name l fp"
    using entry_found [OF freelist_mounted [OF assms(1)] assms(2,3)] .
  show ?thesis
    using remove_directory_entry_run [OF assms(1,2) fp at] found_at_value(3) [OF assms(2) at] by blast
qed

theorem remove_directory_entry_takes_one_record_witness:
  "\<exists>s nd nd' t F. remove_directory_entry 0 nd [46] s = Some (True, nd', t) \<and> dir_ok t F nd' [[([46, 46], 2)]]"
proof -
  obtain st F where st: "fs_ready st F ((\<lambda>_. [])(2 := dot_records 2 2))"
    "creatable st F ((\<lambda>_. [])(2 := dot_records 2 2)) [47, 97] 2 [97] 3" by (rule running_creatable)
  have d: "inum_ok (fs_disk st) 2" "S_ISDIR (i_mode (inode_of (fs_disk st) 2))"
    using st(2) by (simp_all add: creatable_def can_add_def)
  note iv = fs_invD [OF fs_readyD(1) [OF st(1)]]
  let ?nd = "inode_of (fs_disk st) 2"
  have k: "dir_ok (fs_disk st) F ?nd (dot_records 2 2)" using iv(8) [OF d] by simp
  have n: "map_of (concat (dot_records 2 2)) [46] = Some 2" by (simp add: dot_records_def)
  obtain nd' t rss' where r: "remove_directory_entry 0 ?nd [46] (fs_disk st) = Some (True, nd', t)"
    "dir_ok t F nd' rss'" "concat rss' = del_first [46] (concat (dot_records 2 2))"
    "nd' = child_less (?nd\<lparr>i_ctime := 0, i_mtime := 0\<rparr>)"
    using remove_directory_entry_takes_one_record [OF iv(2) k n, of 0] by blast
  have "length rss' = 1"
    using dir_okD(4) [OF r(2)] dir_okD(4) [OF k] by (simp add: r(4) child_less_def dot_records_def)
  then have "rss' = [[([46, 46], 2)]]" using r(3) by (cases rss') (simp_all add: dot_records_def)
  then show ?thesis using r(1,2) by blast
qed

section \<open>The running file system\<close>

text \<open>C33: on every disk large enough for one inode block whose data area is not a whole number of
  512-block groups (see C4), \<open>altfs_makefs\<close> and then \<open>altfs_init\<close>, started with nothing but the disk,
  succeed and give a running file system: the invariant holds, the cache is empty with room for
  100000 entries, the root directory has exactly the entries \<open>.\<close> and \<open>..\<close>, both itself, in one block,
  and no other inode is in use.\<close>

theorem formatting_and_starting:
  assumes "geometry_ok s" "NUM_OF_DATA_BLOCKS s mod 512 \<noteq> 0" "in_ssize now"
  shows "\<exists>t st G. altfs_makefs True s = Some (True, t)
    \<and> altfs_init now \<lparr>fs_disk = t\<lparr>altfs_superblock := Null\<rparr>, inodeCache = c\<rparr> = Some (True, st)
    \<and> fs_ready st G ((\<lambda>_. [])(2 := [[([46], 2), ([46, 46], 2)]])) \<and> room st = 100000
    \<and> card {b. data_block s b} \<le> card G + 1
    \<and> i_child_num (inode_of (fs_disk st) 2) = 2 \<and> i_file_size (inode_of (fs_disk st) 2) = 4096
    \<and> (\<forall>k. inum_ok s k \<and> k \<noteq> 2 \<longrightarrow> inode_of (fs_disk st) k = empty_inode)"
  using format_and_start_run [OF assms, of c] unfolding dot_records_def by blast

theorem formatting_and_starting_witness:
  "\<exists>t st G. altfs_makefs True (blank_disk 100) = Some (True, t)
    \<and> altfs_init 0 \<lparr>fs_disk = t\<lparr>altfs_superblock := Null\<rparr>, inodeCache = None\<rparr> = Some (True, st)
    \<and> fs_ready st G ((\<lambda>_. [])(2 := [[([46], 2), ([46, 46], 2)]]))"
proof -
  have "geometry_ok (blank_disk 100)" "NUM_OF_DATA_BLOCKS (blank_disk 100) mod 512 \<noteq> 0" "in_ssize 0"
    by (simp_all add: geometry_ok_def INODE_BLOCK_COUNT_def NUM_OF_DATA_BLOCKS_def in_ssize_def)
  from formatting_and_starting [OF this, of None] show ?thesis by blast
qed

text \<open>C34: \<open>altfs_mknod\<close> of a path that can be created (\<open>creatable\<close>: its parent is directory \<open>k\<close>, which
  the owner may write to, has no entry of this name, and has room for one or can take a block;
  \<open>v\<close> is the first free inode), with room in the cache for two lookups, succeeds. The new file is an
  empty file of the given mode with one link, the path leads to it, every path that led somewhere
  leads there again, every other file keeps its inode and its contents, and the file system is still
  running (\<open>file_created\<close>). At most four blocks are taken.\<close>

theorem mknod_creates_a_file:
  assumes "fs_ready st F ents" "2 * int (length p) \<le> room st" "creatable st F ents p k name v"
    and "in_ssize now" "0 \<le> mode" "mode < 2 ^ 32"
  shows "\<exists>st' F' ents'. altfs_mknod now p mode dev st = Some (True, st')
    \<and> file_created st F ents p k name v (new_node now mode ((inode_of (fs_disk st) v)\<lparr>i_allocated := True\<rparr>)) [] st' F' ents'
    \<and> card F \<le> card F' + 4"
  using mknod_run [OF assms] by blast

theorem mknod_creates_a_file_witness:
  "\<exists>st st' F' ents'. altfs_mknod 0 [47, 97] 33188 0 st = Some (True, st') \<and> fs_ready st' F' ents' \<and> resolved st' ents' [47, 97] = 3"
proof -
  obtain st F where st: "fs_ready st F ((\<lambda>_. [])(2 := dot_records 2 2))" "room st = 100000"
    "creatable st F ((\<lambda>_. [])(2 := dot_records 2 2)) [47, 97] 2 [97] 3" by (rule running_creatable)
  then show ?thesis
    using mknod_creates_a_file [OF st(1) _ st(3), of 0 33188 0] by (auto simp: in_ssize_def file_created_def)
qed

text \<open>C35: \<open>altfs_mkdir\<close> of a path that can be created, with at least eight free blocks and room in the
  cache, where the permission bits handed over leave the directory type intact: the new directory has
  exactly the entries \<open>.\<close> (itself) and \<open>..\<close> (its parent \<open>k\<close>), and all that C34 states of the other
  paths and files holds.\<close>

theorem mkdir_creates_a_directory:
  assumes "fs_ready st F ents" "2 * int (length p) \<le> room st" "creatable st F ents p k name v" "8 \<le> card F"
    and "in_ssize now" "0 \<le> S_IFDIR OR mode" "S_IFDIR OR mode < 2 ^ 32" "S_ISDIR (S_IFDIR OR mode)"
  shows "\<exists>st' F' ents' node. altfs_mkdir now p mode st = Some (True, st')
    \<and> file_created st F ents p k name v node [[([46], v), ([46, 46], k)]] st' F' ents'
    \<and> i_mode node = S_IFDIR OR mode \<and> i_child_num node = 2 \<and> i_links_count node = 1"
  using mkdir_run [OF assms] unfolding dot_records_def by blast

theorem mkdir_creates_a_directory_witness:
  "\<exists>st st' F' ents'. altfs_mkdir 0 [47, 97] 493 st = Some (True, st') \<and> fs_ready st' F' ents'
    \<and> resolved st' ents' [47, 97] = 3"
proof -
  obtain st F where st: "fs_ready st F ((\<lambda>_. [])(2 := dot_records 2 2))" "room st = 100000" "97 \<le> card F"
    "creatable st F ((\<lambda>_. [])(2 := dot_records 2 2)) [47, 97] 2 [97] 3" by (rule running_creatable)
  have "8 \<le> card F" using st(3) by linarith
  from mkdir_creates_a_directory [OF st(1) _ st(4) this, of 0 493] show ?thesis
    using st(2) by (auto simp: in_ssize_def file_created_def S_ISDIR_def)
qed

text \<open>C36: \<open>altfs_readdir\<close> of a directory in a running file system, with room in the cache, hands every
  record of the directory to \<open>filler\<close>, each once and in the order of the blocks, with its name, its
  NUL included, and the attributes of the inode it leads to, and answers 0.\<close>

theorem readdir_lists_every_record:
  assumes "fs_ready st F ents" "int (length p) \<le> room st" "resolved st ents p = k" "k \<noteq> -1"
    and "S_ISDIR (i_mode (inode_of (fs_disk st) k))"
  shows "\<exists>c. altfs_readdir p st = Some (0,
      map (\<lambda>(n, v). (n @ [0], (inode_to_stat (inode_of (fs_disk st) v) zero_stat)\<lparr>st_ino := v\<rparr>)) (concat (ents k)),
      st\<lparr>inodeCache := c\<rparr>) \<and> fs_ready (st\<lparr>inodeCache := c\<rparr>) F ents"
proof -
  have "listed (fs_disk st) = (\<lambda>(n, v). (n @ [0], (inode_to_stat (inode_of (fs_disk st) v) zero_stat)\<lparr>st_ino := v\<rparr>))"
    by (simp add: fun_eq_iff listed_def)
  then show ?thesis using readdir_run [OF assms] by auto
qed

theorem readdir_lists_every_record_witness:
  "\<exists>st st' a b. altfs_readdir [47] st = Some (0, [([46, 0], a), ([46, 46, 0], b)], st')"
proof -
  obtain st F where st: "fs_ready st F ((\<lambda>_. [])(2 := dot_records 2 2))" "room st = 100000"
    "creatable st F ((\<lambda>_. [])(2 := dot_records 2 2)) [47, 97] 2 [97] 3" by (rule running_creatable)
  have "S_ISDIR (i_mode (inode_of (fs_disk st) 2))" using st(3) by (simp add: creatable_def can_add_def)
  moreover have "resolved st ents [47] = 2" for ents by (subst resolve.simps) simp
  ultimately show ?thesis
    using readdir_lists_every_record [OF st(1), of "[47]" 2] st(2) by (auto simp: dot_records_def)
qed

text \<open>C37: \<open>altfs_read\<close> of \<open>n > 0\<close> bytes from a position inside of a file, whose size is covered by its
  blocks, with room in the cache: it returns the number \<open>m\<close> of bytes up to the end of the file or
  \<open>n\<close>, fills the caller's buffer with exactly these bytes of the file, whether they lie in one block
  or in many, zeroes the rest of the \<open>n\<close> bytes, and changes nothing but \<open>i_atime\<close> and the cache.\<close>

theorem read_gives_the_bytes:
  assumes "fs_ready st F ents" "int (length p) \<le> room st" "resolved st ents p = k" "k \<noteq> -1"
    and "i_file_size (inode_of (fs_disk st) k) \<le> 4096 * i_blocks_num (inode_of (fs_disk st) k)"
    and "0 < n" "pos + n < 2 ^ 64" "0 \<le> pos" "pos < i_file_size (inode_of (fs_disk st) k)" "in_ssize now"
  defines "m \<equiv> min n (i_file_size (inode_of (fs_disk st) k) - pos)"
  shows "\<exists>st'. altfs_read now p buff n pos st = Some (m,
      (\<lambda>j. if 0 \<le> j \<and> j < n then (if j < m then file_byte (fs_disk st) (inode_of (fs_disk st) k) (pos + j) else 0) else buff j), st')
    \<and> fs_ready st' F ents
    \<and> inode_of (fs_disk st') k = (inode_of (fs_disk st) k)\<lparr>i_atime := now\<rparr>
    \<and> (\<forall>j. inum_ok (fs_disk st) j \<and> j \<noteq> k \<longrightarrow> same_file (fs_disk st) (fs_disk st') j)
    \<and> (\<forall>l. 0 \<le> l \<and> l < i_blocks_num (inode_of (fs_disk st) k) \<longrightarrow>
         file_data (fs_disk st') (inode_of (fs_disk st') k) l = file_data (fs_disk st) (inode_of (fs_disk st) k) l)
    \<and> (\<forall>q. resolved st' ents q = resolved st ents q)"
  using read_run [OF assms(1-10)] unfolding m_def by blast

theorem read_gives_the_bytes_witness:
  "\<exists>st st' out. altfs_read 0 [47, 97] zero_buf 10000 80000 st = Some (1920, out, st')
    \<and> (\<forall>j. 0 \<le> j \<and> j < 1920 \<longrightarrow> out j = 7) \<and> (\<forall>j. 1920 \<le> j \<and> j < 10000 \<longrightarrow> out j = 0)"
proof -
  obtain st F ents where st: "fs_ready st F ents" "99990 \<le> room st" "resolved st ents [47, 97] = 3"
    "i_blocks_num (inode_of (fs_disk st) 3) = 20" "i_file_size (inode_of (fs_disk st) 3) = 81920"
    "\<forall>x. 0 \<le> x \<and> x < 81920 \<longrightarrow> file_byte (fs_disk st) (inode_of (fs_disk st) 3) x = 7"
    by (rule system_with_data)
  define out where "out = (\<lambda>j. if 0 \<le> j \<and> j < 10000
    then (if j < 1920 then file_byte (fs_disk st) (inode_of (fs_disk st) 3) (80000 + j) else 0) else zero_buf j)"
  have mi: "min 10000 (81920 - 80000) = (1920 :: int)" by simp
  have "\<exists>st'. altfs_read 0 [47, 97] zero_buf 10000 80000 st = Some (1920, out, st')"
    using read_gives_the_bytes [OF st(1) _ st(3), of 10000 80000 0 zero_buf] st(2,4) unfolding st(5) mi out_def
    by (auto simp: in_ssize_def)
  moreover have "\<forall>j. 0 \<le> j \<and> j < 1920 \<longrightarrow> out j = 7" using st(6) by (simp add: out_def)
  moreover have "\<forall>j. 1920 \<le> j \<and> j < 10000 \<longrightarrow> out j = 0" by (simp add: out_def)
  ultimately show ?thesis by blast
qed

text \<open>C38: \<open>altfs_write\<close> of \<open>n > 0\<close> bytes at any position of an allocated file that is no directory,
  within the largest file size, with room in the cache and four free blocks for each block by which
  the file has to grow: it returns \<open>n\<close>; the file then has the written bytes in their range and its
  old bytes elsewhere (zeros where it has been extended), its size is the larger of the old size and
  the end of the write, every other file and every path is as before.\<close>

theorem write_changes_the_bytes:
  assumes "fs_ready st F ents" "int (length p) \<le> room st" "resolved st ents p = k" "k \<noteq> -1"
    and "\<not> S_ISDIR (i_mode (inode_of (fs_disk st) k))" "0 \<le> i_file_size (inode_of (fs_disk st) k)"
      "i_allocated (inode_of (fs_disk st) k)"
    and "0 < n" "0 \<le> pos" "pos + n \<le> 4096 * MAX_FILE_BLOCKS" "in_ssize now"
    and "4 * nat ((pos + n - 1) div 4096 + 1 - i_blocks_num (inode_of (fs_disk st) k)) \<le> card F"
  shows "\<exists>st' F' nd'. altfs_write now p buff n pos st = Some (n, st')
    \<and> fs_ready st' F' ents \<and> inode_of (fs_disk st') k = nd'
    \<and> i_file_size nd' = max (i_file_size (inode_of (fs_disk st) k)) (pos + n)
    \<and> i_blocks_num nd' = max (i_blocks_num (inode_of (fs_disk st) k)) ((pos + n - 1) div 4096 + 1)
    \<and> (\<forall>x. 0 \<le> x \<and> x < 4096 * i_blocks_num nd' \<longrightarrow>
         file_byte (fs_disk st') nd' x =
           (if pos \<le> x \<and> x < pos + n then buff (x - pos)
            else if x < 4096 * i_blocks_num (inode_of (fs_disk st) k) then file_byte (fs_disk st) (inode_of (fs_disk st) k) x
            else 0))
    \<and> (\<forall>j. inum_ok (fs_disk st) j \<and> j \<noteq> k \<longrightarrow> same_file (fs_disk st) (fs_disk st') j)
    \<and> (\<forall>q. resolved st' ents q = resolved st ents q)"
  using write_run [OF assms, of buff] unfolding written_byte_def by blast

theorem write_changes_the_bytes_witness:
  "\<exists>st st' F' ents. altfs_write 0 [47, 97] (\<lambda>_. 7) 10000 5000 st = Some (10000, st') \<and> fs_ready st' F' ents
    \<and> file_byte (fs_disk st') (inode_of (fs_disk st') 3) 0 = 0 \<and> file_byte (fs_disk st') (inode_of (fs_disk st') 3) 14999 = 7"
proof -
  obtain st F ents where s: "fs_ready st F ents" "99996 \<le> room st" "93 \<le> card F" "resolved st ents [47, 97] = 3"
    "inode_of (fs_disk st) 3 = new_node 0 33188 (empty_inode\<lparr>i_allocated := True\<rparr>)"
    by (rule system_with_file)
  have n: "i_blocks_num (inode_of (fs_disk st) 3) = 0" "i_file_size (inode_of (fs_disk st) 3) = 0"
    "i_allocated (inode_of (fs_disk st) 3)" "\<not> S_ISDIR (i_mode (inode_of (fs_disk st) 3))"
    by (simp_all add: s(5) new_node_def S_ISDIR_def)
  obtain st' F' where w: "altfs_write 0 [47, 97] (\<lambda>_. 7) 10000 5000 st = Some (10000, st')" "fs_ready st' F' ents"
    "\<And>x. 0 \<le> x \<Longrightarrow> x < 16384 \<Longrightarrow> file_byte (fs_disk st') (inode_of (fs_disk st') 3) x =
       (if 5000 \<le> x \<and> x < 15000 then 7 else 0)"
    using write_changes_the_bytes [OF s(1) _ s(4) _ n(4) _ n(3), of 10000 5000 0 "\<lambda>_. 7"] s(2,3) unfolding n(1,2)
    by (auto simp: MAX_FILE_BLOCKS_def in_ssize_def)
  show ?thesis using w(1,2) w(3) [of 0] w(3) [of 14999] by (intro exI conjI) simp_all
qed

text \<open>C39: the bytes that \<open>altfs_write\<close> wrote to a file, under the conditions of C38 and where the size
  of the file is covered by its blocks, are the bytes that \<open>altfs_read\<close> of the same range gives.\<close>

theorem written_bytes_are_read_back:
  assumes "fs_ready st F ents" "2 * int (length p) \<le> room st" "resolved st ents p = k" "k \<noteq> -1"
    and "\<not> S_ISDIR (i_mode (inode_of (fs_disk st) k))" "0 \<le> i_file_size (inode_of (fs_disk st) k)"
      "i_allocated (inode_of (fs_disk st) k)"
      "i_file_size (inode_of (fs_disk st) k) \<le> 4096 * i_blocks_num (inode_of (fs_disk st) k)"
    and "0 < n" "0 \<le> pos" "pos + n \<le> 4096 * MAX_FILE_BLOCKS" "in_ssize now" "in_ssize now'"
    and "4 * nat ((pos + n - 1) div 4096 + 1 - i_blocks_num (inode_of (fs_disk st) k)) \<le> card F"
  shows "\<exists>st' st'' out. altfs_write now p buff n pos st = Some (n, st')
    \<and> altfs_read now' p buff' n pos st' = Some (n, out, st'') \<and> (\<forall>j. 0 \<le> j \<and> j < n \<longrightarrow> out j = buff j)"
  using write_read_run [OF assms] .

theorem written_bytes_are_read_back_witness:
  "\<exists>st st' st'' out. altfs_write 0 [47, 97] (\<lambda>j. of_int j) 50000 4000 st = Some (50000, st')
    \<and> altfs_read 0 [47, 97] zero_buf 50000 4000 st' = Some (50000, out, st'') \<and> out 49999 = of_int 49999"
proof -
  obtain st F ents where s: "fs_ready st F ents" "99996 \<le> room st" "93 \<le> card F" "resolved st ents [47, 97] = 3"
    "inode_of (fs_disk st) 3 = new_node 0 33188 (empty_inode\<lparr>i_allocated := True\<rparr>)"
    by (rule system_with_file)
  have n: "i_blocks_num (inode_of (fs_disk st) 3) = 0" "i_file_size (inode_of (fs_disk st) 3) = 0"
    "i_allocated (inode_of (fs_disk st) 3)" "\<not> S_ISDIR (i_mode (inode_of (fs_disk st) 3))"
    by (simp_all add: s(5) new_node_def S_ISDIR_def)
  have z: "(0 :: int) \<le> 49999 \<and> (49999 :: int) < 50000" by simp
  have "\<exists>st' st'' out. altfs_write 0 [47, 97] (\<lambda>j. of_int j) 50000 4000 st = Some (50000, st')
    \<and> altfs_read 0 [47, 97] zero_buf 50000 4000 st' = Some (50000, out, st'') \<and> (\<forall>j. 0 \<le> j \<and> j < 50000 \<longrightarrow> out j = of_int j)"
    by (rule written_bytes_are_read_back [OF s(1) _ s(4) _ n(4) _ n(3)])
      (use s(2,3) n(1,2) in \<open>simp_all add: MAX_FILE_BLOCKS_def in_ssize_def\<close>)
  then show ?thesis using z by blast
qed

text \<open>C40: \<open>altfs_unlink\<close> of a path to a file or an empty directory with one link (\<open>removable\<close>: inode
  \<open>v\<close> from 3 on, entered in directory \<open>k\<close>, not in itself), in a running file system with room in the
  cache and at least one free block: it answers 0; the entry is taken out of the directory, exactly
  the blocks of the file are free again, its inode is blank, every other file keeps its inode and its
  contents, and the invariant of the disk holds. Where the names in the directory are distinct, the
  directories lead nowhere for the path any more, and every other path leads where it led or nowhere.
  (What the cache still answers for the path is the matter of C24.)\<close>

theorem unlink_removes_a_file:
  assumes "fs_ready st F ents" "2 * int (length p) \<le> room st" "removable st ents p k name v" "F \<noteq> {}" "in_ssize now"
  shows "\<exists>st' rss. altfs_unlink now p st = Some (0, st')
    \<and> fs_inv (fs_disk st') (F \<union> file_blocks (fs_disk st) (inode_of (fs_disk st) v)) (ents(k := rss, v := []))
    \<and> concat rss = del_first name (concat (ents k))
    \<and> inode_of (fs_disk st') v = cleared_inode (inode_of (fs_disk st) v)
    \<and> inode_of (fs_disk st') k = child_less ((inode_of (fs_disk st) k)\<lparr>i_ctime := now, i_mtime := now\<rparr>)
    \<and> (\<forall>j. inum_ok (fs_disk st) j \<and> j \<noteq> k \<and> j \<noteq> v \<longrightarrow> same_file (fs_disk st) (fs_disk st') j)
    \<and> (distinct (map fst (concat (ents k))) \<longrightarrow> resolved st' (ents(k := rss, v := [])) p = -1
        \<and> (\<forall>q. resolved st' (ents(k := rss, v := [])) q = -1
             \<or> resolved st' (ents(k := rss, v := [])) q = resolved st ents q))"
  using unlink_run [OF assms] .

theorem unlink_removes_a_file_witness:
  "\<exists>st st' F ents'. altfs_unlink 0 [47, 97] st = Some (0, st') \<and> i_blocks_num (inode_of (fs_disk st) 3) = 20
    \<and> fs_inv (fs_disk st') F ents' \<and> i_blocks_num (inode_of (fs_disk st') 3) = 0"
proof -
  obtain st F ents where st: "fs_ready st F ents" "99990 \<le> room st" "13 \<le> card F" "resolved st ents [47, 97] = 3"
    "i_blocks_num (inode_of (fs_disk st) 3) = 20" "i_mode (inode_of (fs_disk st) 3) = 33188"
    "i_links_count (inode_of (fs_disk st) 3) = 1"
    by (rule system_with_data)
  have n: "is_name [97]" by (simp add: is_name_def is_cstr_def)
  have pp: "copy_parent_path [47, 97] = Some [47]" "copy_file_name [47, 97] = Some [97]"
    using path_parts [OF n, of "[]"] by (simp_all add: path_of_def)
  have "resolved st ents [47] = 2" by (subst resolve.simps) simp
  then have rm: "removable st ents [47, 97] 2 [97] 3"
    using pp st(4,6,7) by (simp add: removable_def S_ISDIR_def)
  have "F \<noteq> {}" using st(3) by auto
  then show ?thesis
    using unlink_removes_a_file [OF st(1) _ rm, of 0] st(2,5) by (fastforce simp: in_ssize_def cleared_inode_def)
qed

end
